(* ===== verification/Prelude.thy ===== *)
theory Prelude
  imports Complex_Main
begin

text \<open>
  What the components share: JavaScript numbers with their comparisons, rounding and clamps;
  results that may be an exception; the array operations the source uses (\<open>find\<close>,
  \<open>findIndex\<close>, \<open>splice\<close>, the update of the first match); and the collections of
  hints that carry the component proofs.
\<close>

named_theorems js_defs \<open>definitions of the operations on JavaScript numbers\<close>
named_theorems focus_simps \<open>what an update of the first match leaves and changes\<close>
named_theorems mutator_defs \<open>definitions of the document mutators and of their drafts\<close>

section \<open>Numbers\<close>

text \<open>
  A JavaScript number is a finite double, an infinity or NaN. A finite double is a dyadic
  rational, so \<open>Fin\<close> holds it exactly; the rounding of the last bit of an arithmetic
  result and the sign of zero are not modelled.
\<close>

datatype jsnum = Fin rat | PInf | NInf | NaN

abbreviation js_int :: "int \<Rightarrow> jsnum" where
  "js_int n \<equiv> Fin (of_int n)"

fun js_finite :: "jsnum \<Rightarrow> bool" where
  "js_finite (Fin _) = True"
| "js_finite _ = False"

fun js_lt :: "jsnum \<Rightarrow> jsnum \<Rightarrow> bool" where
  "js_lt (Fin x) (Fin y) = (x < y)"
| "js_lt (Fin _) PInf = True"
| "js_lt NInf (Fin _) = True"
| "js_lt NInf PInf = True"
| "js_lt _ _ = False"

text \<open>\<open>===\<close> on numbers: NaN differs from itself.\<close>

definition js_eq :: "jsnum \<Rightarrow> jsnum \<Rightarrow> bool" where
  "js_eq a b \<longleftrightarrow> a = b \<and> a \<noteq> NaN"

definition js_le :: "jsnum \<Rightarrow> jsnum \<Rightarrow> bool" where
  "js_le a b \<longleftrightarrow> js_lt a b \<or> js_eq a b"

definition js_max :: "jsnum \<Rightarrow> jsnum \<Rightarrow> jsnum" where
  "js_max a b = (if a = NaN \<or> b = NaN then NaN else if js_lt a b then b else a)"

definition js_min :: "jsnum \<Rightarrow> jsnum \<Rightarrow> jsnum" where
  "js_min a b = (if a = NaN \<or> b = NaN then NaN else if js_lt b a then b else a)"

text \<open>\<open>Math.round\<close> rounds half up; \<open>Math.floor\<close> down.\<close>

fun js_round :: "jsnum \<Rightarrow> jsnum" where
  "js_round (Fin x) = js_int \<lfloor>x + 1/2\<rfloor>"
| "js_round v = v"

fun js_floor :: "jsnum \<Rightarrow> jsnum" where
  "js_floor (Fin x) = js_int \<lfloor>x\<rfloor>"
| "js_floor v = v"

fun js_neg :: "jsnum \<Rightarrow> jsnum" where
  "js_neg (Fin x) = Fin (- x)"
| "js_neg PInf = NInf"
| "js_neg NInf = PInf"
| "js_neg NaN = NaN"

fun js_abs :: "jsnum \<Rightarrow> jsnum" where
  "js_abs (Fin x) = Fin \<bar>x\<bar>"
| "js_abs NInf = PInf"
| "js_abs v = v"

fun js_add :: "jsnum \<Rightarrow> jsnum \<Rightarrow> jsnum" where
  "js_add NaN _ = NaN"
| "js_add _ NaN = NaN"
| "js_add (Fin x) (Fin y) = Fin (x + y)"
| "js_add PInf NInf = NaN"
| "js_add NInf PInf = NaN"
| "js_add PInf _ = PInf"
| "js_add _ PInf = PInf"
| "js_add NInf _ = NInf"
| "js_add _ NInf = NInf"

definition js_sub :: "jsnum \<Rightarrow> jsnum \<Rightarrow> jsnum" where
  "js_sub a b = js_add a (js_neg b)"

fun js_sgn :: "jsnum \<Rightarrow> rat" where
  "js_sgn (Fin x) = sgn x"
| "js_sgn PInf = 1"
| "js_sgn NInf = - 1"
| "js_sgn NaN = 0"

text \<open>An infinity of the given sign, NaN for the sign 0 (\<open>0 * Infinity\<close>).\<close>

definition js_inf :: "rat \<Rightarrow> jsnum" where
  "js_inf s = (if 0 < s then PInf else if s < 0 then NInf else NaN)"

fun js_mul :: "jsnum \<Rightarrow> jsnum \<Rightarrow> jsnum" where
  "js_mul (Fin x) (Fin y) = Fin (x * y)"
| "js_mul a b = (if a = NaN \<or> b = NaN then NaN else js_inf (js_sgn a * js_sgn b))"

fun js_div :: "jsnum \<Rightarrow> jsnum \<Rightarrow> jsnum" where
  "js_div (Fin x) (Fin y) = (if y = 0 then js_inf (sgn x) else Fin (x / y))"
| "js_div NaN _ = NaN"
| "js_div _ NaN = NaN"
| "js_div (Fin _) _ = Fin 0"
| "js_div a (Fin y) = js_inf (js_sgn a * (if y = 0 then 1 else sgn y))"
| "js_div _ _ = NaN"

text \<open>The idiom \<open>Math.max(lo, Math.min(hi, v))\<close>.\<close>

definition js_clamp :: "jsnum \<Rightarrow> jsnum \<Rightarrow> jsnum \<Rightarrow> jsnum" where
  "js_clamp lo hi v = js_max lo (js_min hi v)"

text \<open>The idiom \<open>Math.max(lo, Math.round(v))\<close>.\<close>

definition js_round_from :: "jsnum \<Rightarrow> jsnum \<Rightarrow> jsnum" where
  "js_round_from lo v = js_max lo (js_round v)"

lemmas js_arith [js_defs] = js_eq_def js_le_def js_max_def js_min_def js_sub_def js_clamp_def
  js_round_from_def

definition js_between :: "jsnum \<Rightarrow> jsnum \<Rightarrow> jsnum \<Rightarrow> bool" where
  "js_between lo hi v \<longleftrightarrow> js_le lo v \<and> js_le v hi"

definition js_is_int :: "jsnum \<Rightarrow> bool" where
  "js_is_int v \<longleftrightarrow> (case v of Fin x \<Rightarrow> of_int \<lfloor>x\<rfloor> = x | _ \<Rightarrow> False)"

text \<open>A whole number, not below the integer \<open>lo\<close>: what the rounding clamps produce.\<close>

definition js_int_from :: "int \<Rightarrow> jsnum \<Rightarrow> bool" where
  "js_int_from lo v \<longleftrightarrow> (case v of Fin x \<Rightarrow> of_int \<lfloor>x\<rfloor> = x \<and> of_int lo \<le> x | _ \<Rightarrow> False)"

lemma js_int_fromE:
  assumes "js_int_from lo v"
  obtains n where "v = js_int n" and "lo \<le> n"
proof (cases v)
  case (Fin x)
  with assms obtain n where "x = of_int n" and "of_int lo \<le> x"
    by (auto simp: js_int_from_def)
  with Fin show ?thesis by (intro that [of n]) simp_all
qed (use assms in \<open>simp_all add: js_int_from_def\<close>)

lemma js_int_from_js_int [simp]: "js_int_from lo (js_int n) \<longleftrightarrow> lo \<le> n"
  by (simp add: js_int_from_def)

lemma js_int_from_num [simp]:
  "js_int_from lo (Fin 0) \<longleftrightarrow> lo \<le> 0"
  "js_int_from lo (Fin 1) \<longleftrightarrow> lo \<le> 1"
  "js_int_from lo (Fin (numeral k)) \<longleftrightarrow> lo \<le> numeral k"
  using js_int_from_js_int [of lo 0] js_int_from_js_int [of lo 1]
    js_int_from_js_int [of lo "numeral k"]
  by simp_all

lemma js_le_js_int [simp]: "js_le (js_int a) (js_int b) \<longleftrightarrow> a \<le> b"
  by (auto simp: js_le_def js_eq_def)

lemma js_le_Fin [simp]: "js_le (Fin x) (Fin y) \<longleftrightarrow> x \<le> y"
  by (auto simp: js_le_def js_eq_def)

lemma js_lt_js_int [simp]: "js_lt (js_int a) (js_int b) \<longleftrightarrow> a < b"
  by simp

lemma js_sub_js_int [simp]: "js_sub (js_int a) (js_int b) = js_int (a - b)"
  by (simp add: js_sub_def)

lemma js_clamp_js_int [simp]:
  "lo \<le> hi \<Longrightarrow> js_clamp (js_int lo) (js_int hi) (js_int n) = js_int (max lo (min hi n))"
  by (auto simp: js_clamp_def js_max_def js_min_def max_def min_def)

lemma floor_half_int [simp]: "\<lfloor>of_int n + 1/2 :: rat\<rfloor> = n"
  by (simp add: floor_eq_iff)

lemma floor_rat_numeral [simp]:
  "\<lfloor>numeral a / numeral b :: rat\<rfloor> = numeral a div numeral b"
  "\<lfloor>1 / numeral b :: rat\<rfloor> = 1 div numeral b"
  "\<lfloor>- (numeral a / numeral b) :: rat\<rfloor> = - numeral a div numeral b"
  "\<lfloor>- (1 / numeral b) :: rat\<rfloor> = - 1 div numeral b"
  using floor_divide_of_int_eq [where 'a = rat, of "numeral a" "numeral b"]
    floor_divide_of_int_eq [where 'a = rat, of 1 "numeral b"]
    floor_divide_of_int_eq [where 'a = rat, of "- numeral a" "numeral b"]
    floor_divide_of_int_eq [where 'a = rat, of "- 1" "numeral b"]
  by simp_all

lemma js_round_js_int [simp]: "js_round (js_int n) = js_int n"
  by simp

lemma js_round_from_js_int: "js_round_from (js_int lo) (js_int n) = js_int (max lo n)"
  by (auto simp: js_round_from_def js_max_def max_def)

lemma js_round_from_0 [simp]:
  "js_round_from (Fin 0) (Fin x) = js_int (max 0 \<lfloor>x + 1/2\<rfloor>)"
proof -
  have "js_max (Fin 0) (js_int n) = js_int (max 0 n)" for n
    by (auto simp: js_max_def max_def)
  then show ?thesis by (simp only: js_round_from_def js_round.simps)
qed

lemma js_clamp_id:
  "js_between lo hi v \<Longrightarrow> js_clamp lo hi v = v"
  by (cases lo; cases hi; cases v) (auto simp: js_between_def js_arith)

lemma js_clamp_between:
  "js_le lo hi \<Longrightarrow> v \<noteq> NaN \<Longrightarrow> js_between lo hi (js_clamp lo hi v)"
  by (cases lo; cases hi; cases v) (auto simp: js_between_def js_arith)

lemma js_clamp_NaN [simp]: "js_clamp lo hi NaN = NaN"
  by (simp add: js_arith)

lemma js_clamp_idem: "js_le lo hi \<Longrightarrow> js_clamp lo hi (js_clamp lo hi v) = js_clamp lo hi v"
  by (cases "v = NaN") (auto intro: js_clamp_id js_clamp_between)

lemma js_round_from_id: "js_int_from lo v \<Longrightarrow> js_round_from (js_int lo) v = v"
  by (auto elim!: js_int_fromE simp: js_arith)

lemma js_round_from_int: "js_finite v \<Longrightarrow> js_int_from lo (js_round_from (js_int lo) v)"
  by (cases v) (auto simp: js_arith js_int_from_def)

section \<open>Exceptions\<close>

text \<open>What an expression of the source may throw; a result is \<open>Inl\<close> of it or \<open>Inr\<close> of a value.\<close>

datatype js_error = RangeError | TypeError | PlainError string

type_synonym 'a js_result = "js_error + 'a"

definition js_bind :: "'a js_result \<Rightarrow> ('a \<Rightarrow> 'b js_result) \<Rightarrow> 'b js_result" where
  "js_bind r f = (case r of Inl e \<Rightarrow> Inl e | Inr a \<Rightarrow> f a)"

lemma js_bind_simps [simp]:
  "js_bind (Inr a) f = f a"
  "js_bind (Inl e) f = Inl e"
  by (simp_all add: js_bind_def)

text \<open>\<open>BigInt(v)\<close> throws on a number that is not whole; \<open>Number(n)\<close> reads a BigInt back.\<close>

definition to_bigint :: "jsnum \<Rightarrow> int js_result" where
  "to_bigint v = (case v of
     Fin x \<Rightarrow> if of_int \<lfloor>x\<rfloor> = x then Inr \<lfloor>x\<rfloor> else Inl RangeError
   | _ \<Rightarrow> Inl RangeError)"

lemma to_bigint_js_int [simp]: "to_bigint (js_int n) = Inr n"
  by (simp add: to_bigint_def)

lemma to_bigint_num [simp]:
  "to_bigint (Fin 0) = Inr 0" "to_bigint (Fin 1) = Inr 1"
  "to_bigint (Fin (numeral k)) = Inr (numeral k)"
  by (simp_all add: to_bigint_def)

lemma to_bigint_Inr_iff: "to_bigint v = Inr n \<longleftrightarrow> v = js_int n"
  by (auto simp: to_bigint_def split: jsnum.splits)

section \<open>Arrays\<close>

text \<open>
  An element the code goes on to use: past the end it is \<open>undefined\<close>, and reading a field of it
  or adding it to a BigInt throws.
\<close>

definition js_at :: "'a list \<Rightarrow> nat \<Rightarrow> 'a js_result" where
  "js_at xs i = (if i < length xs then Inr (xs ! i) else Inl TypeError)"

lemma js_at_simps [simp]: "i < length xs \<Longrightarrow> js_at xs i = Inr (xs ! i)"
  by (simp add: js_at_def)

text \<open>\<open>findIndex\<close> with \<open>None\<close> for -1; \<open>find\<close> is \<open>List.find\<close>.\<close>

fun find_index :: "('a \<Rightarrow> bool) \<Rightarrow> 'a list \<Rightarrow> nat option" where
  "find_index P [] = None"
| "find_index P (x # xs) = (if P x then Some 0 else map_option Suc (find_index P xs))"

text \<open>The mutation of the element that \<open>find\<close> returns.\<close>

fun update_first :: "('a \<Rightarrow> bool) \<Rightarrow> ('a \<Rightarrow> 'a) \<Rightarrow> 'a list \<Rightarrow> 'a list" where
  "update_first P f [] = []"
| "update_first P f (x # xs) = (if P x then f x # xs else x # update_first P f xs)"

text \<open>\<open>splice(i, 1)\<close> and \<open>splice(i, 0, x)\<close>.\<close>

definition splice_out :: "nat \<Rightarrow> 'a list \<Rightarrow> 'a list" where
  "splice_out i xs = take i xs @ drop (Suc i) xs"

definition splice_in :: "nat \<Rightarrow> 'a \<Rightarrow> 'a list \<Rightarrow> 'a list" where
  "splice_in i x xs = take i xs @ x # drop i xs"

text \<open>\<open>const i = xs.findIndex(P); if (i >= 0) xs.splice(i, 1)\<close>.\<close>

definition remove_first :: "('a \<Rightarrow> bool) \<Rightarrow> 'a list \<Rightarrow> 'a list" where
  "remove_first P xs = (case find_index P xs of None \<Rightarrow> xs | Some i \<Rightarrow> splice_out i xs)"

lemma find_index_None_iff: "find_index P xs = None \<longleftrightarrow> (\<forall>x\<in>set xs. \<not> P x)"
  by (induction xs) auto

lemma find_index_SomeD:
  "find_index P xs = Some i \<Longrightarrow> i < length xs \<and> P (xs ! i) \<and> (\<forall>j<i. \<not> P (xs ! j))"
proof (induction xs arbitrary: i)
  case (Cons x xs)
  then show ?case
    by (cases i) (auto simp: less_Suc_eq_0_disj split: if_splits)
qed simp

lemma find_eq_find_index:
  "List.find P xs = map_option (\<lambda>i. xs ! i) (find_index P xs)"
  by (induction xs) (auto simp: option.map_comp comp_def)

lemma find_Some_pred: "List.find P xs = Some x \<Longrightarrow> P x \<and> x \<in> set xs"
  by (auto simp: find_Some_iff)

lemma find_append:
  "List.find P (xs @ ys) = (case List.find P xs of None \<Rightarrow> List.find P ys | Some x \<Rightarrow> Some x)"
  by (induction xs) auto

lemma find_index_append:
  "find_index P (xs @ ys) = (case find_index P xs of
     None \<Rightarrow> map_option (\<lambda>i. length xs + i) (find_index P ys) | Some i \<Rightarrow> Some i)"
proof (induction xs)
  case Nil
  then show ?case by (cases "find_index P ys") simp_all
next
  case (Cons x xs)
  then show ?case
    by (cases "find_index P xs"; cases "find_index P ys") simp_all
qed

lemma splice_out_in [simp]: "i \<le> length xs \<Longrightarrow> splice_out i (splice_in i x xs) = xs"
  by (simp add: splice_out_def splice_in_def)

lemma splice_in_out [simp]: "i < length xs \<Longrightarrow> splice_in i (xs ! i) (splice_out i xs) = xs"
  by (simp add: splice_out_def splice_in_def id_take_nth_drop [symmetric])

lemma length_splice_in [simp]: "i \<le> length xs \<Longrightarrow> length (splice_in i x xs) = Suc (length xs)"
  by (simp add: splice_in_def)

lemma length_splice_out [simp]: "i < length xs \<Longrightarrow> length (splice_out i xs) = length xs - 1"
  by (simp add: splice_out_def)

lemma nth_splice_in [simp]: "i \<le> length xs \<Longrightarrow> splice_in i x xs ! i = x"
  by (simp add: splice_in_def nth_append)

lemma splice_in_length [simp]: "splice_in (length xs) x xs = xs @ [x]"
  by (simp add: splice_in_def)

lemma set_splice_in [simp]: "set (splice_in i x xs) = insert x (set xs)"
proof -
  have "set (take i xs) \<union> set (drop i xs) = set xs"
    by (metis append_take_drop_id set_append)
  then show ?thesis by (auto simp: splice_in_def)
qed

lemma set_splice_out_subset: "set (splice_out i xs) \<subseteq> set xs"
  by (auto simp: splice_out_def dest: in_set_takeD in_set_dropD)

lemma find_index_splice_in_fresh:
  assumes "\<forall>y\<in>set xs. \<not> P y" and "P x" and "i \<le> length xs"
  shows "find_index P (splice_in i x xs) = Some i"
proof -
  have "find_index P (take i xs) = None"
    using assms(1) by (auto simp: find_index_None_iff dest: in_set_takeD)
  then show ?thesis
    using assms(2,3) by (simp add: splice_in_def find_index_append)
qed

lemma remove_first_none: "\<forall>x\<in>set xs. \<not> P x \<Longrightarrow> remove_first P xs = xs"
  by (simp add: remove_first_def find_index_None_iff [THEN iffD2])

lemma remove_first_append_fresh:
  "\<forall>y\<in>set xs. \<not> P y \<Longrightarrow> P x \<Longrightarrow> remove_first P (xs @ [x]) = xs"
  by (simp add: remove_first_def find_index_append find_index_None_iff [THEN iffD2]
      splice_out_def)

lemma update_first_cong [cong]:
  "xs = ys \<Longrightarrow> (\<And>x. x \<in> set ys \<Longrightarrow> P x = Q x) \<Longrightarrow> (\<And>x. x \<in> set ys \<Longrightarrow> Q x \<Longrightarrow> f x = g x) \<Longrightarrow>
   update_first P f xs = update_first Q g ys"
  by (induction xs arbitrary: ys) auto

lemma update_first_none: "List.find P xs = None \<Longrightarrow> update_first P f xs = xs"
  by (induction xs) (auto split: if_splits)

lemma find_update_first:
  "(\<And>x. P (f x) = P x) \<Longrightarrow> List.find P (update_first P f xs) = map_option f (List.find P xs)"
  by (induction xs) auto

lemma update_first_update_first:
  "(\<And>x. P (f x) = P x) \<Longrightarrow> update_first P g (update_first P f xs) = update_first P (g \<circ> f) xs"
  by (induction xs) auto

lemma update_first_same: "List.find P xs = Some x \<Longrightarrow> f x = x \<Longrightarrow> update_first P f xs = xs"
  by (induction xs) (auto split: if_splits)

lemma length_update_first [simp]: "length (update_first P f xs) = length xs"
  by (induction xs) auto

end
