(* ===== verification/Tempo.thy ===== *)
theory Tempo
  imports Prelude
begin

text \<open>
  The tempo kernel, \<open>web/src/document/tempo.ts\<close>: integer conversion between musical ticks and
  samples over a piecewise-constant tempo map. The functions of the source come first, with
  every \<open>BigInt()\<close> and \<open>throw\<close> as a result; the integer kernel they compute on a well-formed map
  follows, with its monotonicity, rounding error, bounds and round trip.
\<close>

section \<open>The code\<close>

definition TICKS_PER_BEAT :: int where
  "TICKS_PER_BEAT = 960"

definition MIN_MILLI_BPM :: int where
  "MIN_MILLI_BPM = 20000"

definition MAX_MILLI_BPM :: int where
  "MAX_MILLI_BPM = 999000"

definition MAX_TICK :: int where
  "MAX_TICK = 2 ^ 36"

record tempo_point =
  tp_tick :: jsnum
  tp_milliBpm :: jsnum

definition roundDiv :: "int \<Rightarrow> int \<Rightarrow> int js_result" where
  "roundDiv num den =
     (if num < 0 \<or> den \<le> 0 then Inl (PlainError ''roundDiv: domaine positif'')
      else Inr ((2 * num + den) div (2 * den)))"

definition segSamples :: "int \<Rightarrow> jsnum \<Rightarrow> jsnum \<Rightarrow> int js_result" where
  "segSamples dtTicks sampleRate milliBpm =
     js_bind (to_bigint sampleRate) (\<lambda>r.
     js_bind (to_bigint milliBpm) (\<lambda>m.
       roundDiv (dtTicks * r * 125) (2 * m)))"

definition clampMilliBpm :: "jsnum \<Rightarrow> jsnum" where
  "clampMilliBpm v = js_clamp (js_int MIN_MILLI_BPM) (js_int MAX_MILLI_BPM) (js_round v)"

definition effectiveMap :: "jsnum \<Rightarrow> tempo_point list \<Rightarrow> tempo_point list" where
  "effectiveMap tempoMilliBpm tempoMap =
     (let reg = clampMilliBpm tempoMilliBpm;
          origin = \<lparr>tp_tick = js_int 0, tp_milliBpm = reg\<rparr>;
          m = map (\<lambda>p. \<lparr>tp_tick = tp_tick p, tp_milliBpm = clampMilliBpm (tp_milliBpm p)\<rparr>) tempoMap
      in case m of
           [] \<Rightarrow> [origin]
         | p # _ \<Rightarrow> if js_eq (tp_tick p) (js_int 0) then m else origin # m)"

text \<open>The loop of \<open>buildBoundaryTable\<close>: \<open>s\<close> is the last entry pushed, for the point \<open>p\<close>.\<close>

fun boundary_loop :: "jsnum \<Rightarrow> int \<Rightarrow> tempo_point \<Rightarrow> tempo_point list \<Rightarrow> int list js_result" where
  "boundary_loop sampleRate s p [] = Inr []"
| "boundary_loop sampleRate s p (q # qs) =
     js_bind (to_bigint (js_sub (tp_tick q) (tp_tick p))) (\<lambda>dt.
     js_bind (segSamples dt sampleRate (tp_milliBpm p)) (\<lambda>d.
     js_bind (boundary_loop sampleRate (s + d) q qs) (\<lambda>S.
       Inr ((s + d) # S))))"

definition buildBoundaryTable :: "tempo_point list \<Rightarrow> jsnum \<Rightarrow> int list js_result" where
  "buildBoundaryTable m sampleRate =
     (case m of
        [] \<Rightarrow> Inr [0]
      | p # ps \<Rightarrow> js_bind (boundary_loop sampleRate 0 p ps) (\<lambda>S. Inr (0 # S)))"

text \<open>\<open>while (j + 1 < map.length && BigInt(map[j + 1].tick) <= t) j++\<close>\<close>

function segment_at :: "tempo_point list \<Rightarrow> int \<Rightarrow> nat \<Rightarrow> nat js_result" where
  "segment_at m t j =
     (if j + 1 < length m
      then js_bind (to_bigint (tp_tick (m ! (j + 1)))) (\<lambda>k.
             if k \<le> t then segment_at m t (j + 1) else Inr j)
      else Inr j)"
  by pat_completeness auto
termination
  by (relation "measure (\<lambda>(m, t, j). length m - j)") auto

definition samplesAtTick ::
  "tempo_point list \<Rightarrow> int list \<Rightarrow> jsnum \<Rightarrow> jsnum \<Rightarrow> jsnum js_result" where
  "samplesAtTick m S sampleRate tick =
     js_bind (to_bigint (js_round_from (js_int 0) tick)) (\<lambda>t0.
     let t = (if t0 > MAX_TICK then MAX_TICK else t0) in
     js_bind (segment_at m t 0) (\<lambda>j.
     js_bind (js_at m j) (\<lambda>p.
     js_bind (to_bigint (tp_tick p)) (\<lambda>k.
     js_bind (segSamples (t - k) sampleRate (tp_milliBpm p)) (\<lambda>d.
     js_bind (js_at S j) (\<lambda>s.
       Inr (js_int (s + d))))))))"

text \<open>\<open>while (j + 1 < S.length && S[j + 1] <= s) j++\<close>\<close>

function boundary_at :: "int list \<Rightarrow> int \<Rightarrow> nat \<Rightarrow> nat" where
  "boundary_at S s j =
     (if j + 1 < length S \<and> S ! (j + 1) \<le> s then boundary_at S s (j + 1) else j)"
  by pat_completeness auto
termination
  by (relation "measure (\<lambda>(S, s, j). length S - j)") auto

definition tickAtSample ::
  "tempo_point list \<Rightarrow> int list \<Rightarrow> jsnum \<Rightarrow> jsnum \<Rightarrow> jsnum js_result" where
  "tickAtSample m S sampleRate sample =
     js_bind (to_bigint (js_round_from (js_int 0) sample)) (\<lambda>s.
     let j = boundary_at S s 0 in
     js_bind (js_at m j) (\<lambda>p.
     js_bind (to_bigint (tp_tick p)) (\<lambda>k.
     js_bind (js_at S j) (\<lambda>b.
     js_bind (to_bigint (tp_milliBpm p)) (\<lambda>mb.
     js_bind (to_bigint sampleRate) (\<lambda>r.
     js_bind (roundDiv ((s - b) * 2 * mb) (r * 125)) (\<lambda>d.
       let out = k + d in
       Inr (js_int (if out > MAX_TICK then MAX_TICK else out)))))))))"

declare segment_at.simps [simp del] boundary_at.simps [simp del]

section \<open>The integer kernel\<close>

text \<open>
  On a well-formed map no conversion throws, and the code computes the integer functions below:
  \<open>rdiv\<close> rounds half up, \<open>seg\<close> is the length of a stretch at one tempo, \<open>btable\<close> the boundary
  table, \<open>isamples\<close> and \<open>iticks\<close> the two conversions.
\<close>

definition rdiv :: "int \<Rightarrow> int \<Rightarrow> int" where
  "rdiv n d = (2 * n + d) div (2 * d)"

definition seg :: "int \<Rightarrow> int \<Rightarrow> int \<Rightarrow> int" where
  "seg dt r m = rdiv (dt * r * 125) (2 * m)"

fun btab :: "int \<Rightarrow> int \<Rightarrow> int \<times> int \<Rightarrow> (int \<times> int) list \<Rightarrow> int list" where
  "btab r s p [] = []"
| "btab r s p (q # qs) =
     (let s' = s + seg (fst q - fst p) r (snd p) in s' # btab r s' q qs)"

definition btable :: "int \<Rightarrow> (int \<times> int) list \<Rightarrow> int list" where
  "btable r ts = (case ts of [] \<Rightarrow> [0] | p # ps \<Rightarrow> 0 # btab r 0 p ps)"

definition isamples :: "int \<Rightarrow> (int \<times> int) list \<Rightarrow> int \<Rightarrow> int" where
  "isamples r ts t =
     (let j = boundary_at (map fst ts) t 0
      in btable r ts ! j + seg (t - fst (ts ! j)) r (snd (ts ! j)))"

definition iticks :: "int \<Rightarrow> (int \<times> int) list \<Rightarrow> int \<Rightarrow> int" where
  "iticks r ts s =
     (let j = boundary_at (btable r ts) s 0
      in fst (ts ! j) + rdiv ((s - btable r ts ! j) * 2 * snd (ts ! j)) (r * 125))"

definition tempo_of :: "(int \<times> int) list \<Rightarrow> tempo_point list" where
  "tempo_of ts = map (\<lambda>(t, b). \<lparr>tp_tick = js_int t, tp_milliBpm = js_int b\<rparr>) ts"

definition wf_tempo :: "(int \<times> int) list \<Rightarrow> bool" where
  "wf_tempo ts \<longleftrightarrow> ts \<noteq> [] \<and> fst (hd ts) = 0 \<and> sorted (map fst ts) \<and>
     (\<forall>p\<in>set ts. MIN_MILLI_BPM \<le> snd p \<and> snd p \<le> MAX_MILLI_BPM)"

text \<open>The clamp of the entry of \<open>samplesAtTick\<close>.\<close>

definition tick_of :: "rat \<Rightarrow> int" where
  "tick_of x = min MAX_TICK (max 0 \<lfloor>x + 1/2\<rfloor>)"

subsection \<open>Rounding division\<close>

lemma rdiv_bounds:
  assumes "0 < d"
  shows "2 * d * rdiv n d \<le> 2 * n + d" and "2 * n + d < 2 * d * (rdiv n d + 1)"
proof -
  have "2 * n + d = 2 * d * rdiv n d + (2 * n + d) mod (2 * d)"
    by (simp add: rdiv_def)
  moreover have "0 \<le> (2 * n + d) mod (2 * d)" "(2 * n + d) mod (2 * d) < 2 * d"
    using assms by simp_all
  ultimately show "2 * d * rdiv n d \<le> 2 * n + d" and "2 * n + d < 2 * d * (rdiv n d + 1)"
    by (simp_all add: distrib_left)
qed

lemma rdiv_unique:
  assumes "0 < d" and "2 * d * q \<le> 2 * n + d" and "2 * n + d < 2 * d * (q + 1)"
  shows "rdiv n d = q"
proof -
  have "2 * n + d = 2 * d * q + (2 * n + d - 2 * d * q)" by simp
  moreover have "0 \<le> 2 * n + d - 2 * d * q" "2 * n + d - 2 * d * q < 2 * d"
    using assms(2,3) by (simp_all add: distrib_left)
  ultimately show ?thesis
    unfolding rdiv_def by (intro int_div_pos_eq [of _ _ _ "2 * n + d - 2 * d * q"]) simp_all
qed

lemma rdiv_mono: "0 < d \<Longrightarrow> n \<le> n' \<Longrightarrow> rdiv n d \<le> rdiv n' d"
  unfolding rdiv_def by (rule zdiv_mono1) simp_all

lemma rdiv_0 [simp]: "0 < d \<Longrightarrow> rdiv 0 d = 0"
  by (rule rdiv_unique) simp_all

lemma rdiv_nonneg: "0 < d \<Longrightarrow> 0 \<le> n \<Longrightarrow> 0 \<le> rdiv n d"
  using rdiv_mono [of d 0 n] by simp

lemma rdiv_add_den: "0 < d \<Longrightarrow> rdiv (n + d * k) d = rdiv n d + k"
proof (rule rdiv_unique)
  assume d: "0 < d"
  show "2 * d * (rdiv n d + k) \<le> 2 * (n + d * k) + d"
    and "2 * (n + d * k) + d < 2 * d * (rdiv n d + k + 1)"
    using rdiv_bounds [OF d, of n] by (simp_all add: algebra_simps)
qed

lemma rdiv_half: "0 < d \<Longrightarrow> 2 * \<bar>d * rdiv n d - n\<bar> \<le> d"
proof -
  assume d: "0 < d"
  define q where "q = d * rdiv n d"
  have "2 * q \<le> 2 * n + d" and "2 * n + d < 2 * q + 2 * d"
    using rdiv_bounds [OF d, of n] by (simp_all add: q_def algebra_simps)
  then have "2 * \<bar>q - n\<bar> \<le> d" by (simp add: abs_if)
  then show ?thesis by (simp add: q_def)
qed

lemma seg_mono: "0 < r \<Longrightarrow> 0 < m \<Longrightarrow> a \<le> b \<Longrightarrow> seg a r m \<le> seg b r m"
  by (simp add: seg_def rdiv_mono mult_right_mono)

lemma seg_0 [simp]: "0 < m \<Longrightarrow> seg 0 r m = 0"
  by (simp add: seg_def)

lemma seg_nonneg: "0 < r \<Longrightarrow> 0 < m \<Longrightarrow> 0 \<le> a \<Longrightarrow> 0 \<le> seg a r m"
  using seg_mono [of r m 0 a] by simp

text \<open>With at least one sample per tick a longer stretch has more samples.\<close>

lemma seg_strict:
  assumes "0 < m" and "2 * m \<le> r * 125" and "a < b"
  shows "seg a r m < seg b r m"
proof -
  have "seg a r m + 1 = rdiv (a * r * 125 + 2 * m * 1) (2 * m)"
    using assms(1) by (subst rdiv_add_den) (simp_all add: seg_def)
  also have "\<dots> \<le> rdiv (b * r * 125) (2 * m)"
  proof (rule rdiv_mono)
    have "(a + 1) * (r * 125) \<le> b * (r * 125)"
      using assms by (intro mult_right_mono) simp_all
    then show "a * r * 125 + 2 * m * 1 \<le> b * r * 125"
      using assms(2) by (simp add: algebra_simps)
  qed (use assms(1) in simp)
  finally show ?thesis by (simp add: seg_def)
qed

subsection \<open>The search loop\<close>

lemma boundary_at_step:
  "j + 1 < length S \<Longrightarrow> S ! (j + 1) \<le> s \<Longrightarrow> boundary_at S s j = boundary_at S s (j + 1)"
  by (simp add: boundary_at.simps [of S s j])

lemma boundary_at_stop:
  "\<not> (j + 1 < length S \<and> S ! (j + 1) \<le> s) \<Longrightarrow> boundary_at S s j = j"
  by (simp only: boundary_at.simps [of S s j] if_False)

lemma boundary_at_eq:
  assumes "j \<le> i" and "i < length S"
    and "\<And>k. j < k \<Longrightarrow> k \<le> i \<Longrightarrow> S ! k \<le> s"
    and "i + 1 < length S \<Longrightarrow> s < S ! (i + 1)"
  shows "boundary_at S s j = i"
  using assms
proof (induction S s j rule: boundary_at.induct)
  case (1 S s j)
  show ?case
  proof (cases "j = i")
    case True
    with "1.prems" show ?thesis by (auto intro: boundary_at_stop)
  next
    case False
    with "1.prems" have step: "j + 1 < length S \<and> S ! (j + 1) \<le> s" by simp
    have "boundary_at S s (j + 1) = i"
      using "1.prems" False by (intro "1.IH" [OF step]) simp_all
    with step show ?thesis by (simp add: boundary_at_step)
  qed
qed

lemma boundary_at_bounds:
  "j < length S \<Longrightarrow> j \<le> boundary_at S s j \<and> boundary_at S s j < length S"
proof (induction S s j rule: boundary_at.induct)
  case (1 S s j)
  then show ?case
    by (cases "j + 1 < length S \<and> S ! (j + 1) \<le> s")
      (auto simp: boundary_at_step boundary_at_stop)
qed

lemma boundary_at_low:
  "j < length S \<Longrightarrow> S ! j \<le> s \<Longrightarrow> S ! boundary_at S s j \<le> s"
proof (induction S s j rule: boundary_at.induct)
  case (1 S s j)
  then show ?case
    by (cases "j + 1 < length S \<and> S ! (j + 1) \<le> s")
      (auto simp: boundary_at_step boundary_at_stop)
qed

lemma boundary_at_high:
  "j < length S \<Longrightarrow> boundary_at S s j + 1 < length S \<Longrightarrow> s < S ! (boundary_at S s j + 1)"
proof (induction S s j rule: boundary_at.induct)
  case (1 S s j)
  show ?case
  proof (cases "j + 1 < length S \<and> S ! (j + 1) \<le> s")
    case True
    with "1" show ?thesis by (simp add: boundary_at_step)
  next
    case False
    then have "boundary_at S s j = j" by (rule boundary_at_stop)
    with False "1.prems" show ?thesis by simp
  qed
qed

lemmas boundary_at_facts = boundary_at_bounds boundary_at_low boundary_at_high

lemma boundary_at_mono:
  assumes "sorted S" and "S \<noteq> []" and "s \<le> s'"
  shows "boundary_at S s 0 \<le> boundary_at S s' 0"
proof (rule ccontr)
  let ?j = "boundary_at S s 0" and ?j' = "boundary_at S s' 0"
  assume "\<not> ?thesis"
  then have less: "?j' + 1 \<le> ?j" by simp
  have j: "?j < length S" using assms(2) boundary_at_bounds [of 0 S s] by simp
  have pos: "0 < ?j" using less by simp
  have "s' < S ! (?j' + 1)"
    using less j assms(2) by (intro boundary_at_high) simp_all
  also have "\<dots> \<le> S ! ?j" using assms(1) less j by (rule sorted_nth_mono)
  also have "S ! ?j \<le> s"
  proof (rule ccontr)
    assume gt: "\<not> S ! ?j \<le> s"
    have "boundary_at S s 0 \<noteq> ?j" if "S ! 0 \<le> s"
      using boundary_at_low [of 0 S s] that gt assms(2) by simp
    moreover have "boundary_at S s 0 = 0" if "\<not> S ! 0 \<le> s"
      using that assms(1,2) sorted_nth_mono [of S 0 1]
      by (intro boundary_at_eq) auto
    ultimately show False using pos by (cases "S ! 0 \<le> s") simp_all
  qed
  finally show False using assms(3) by simp
qed

subsection \<open>The boundary table\<close>

lemma length_btab [simp]: "length (btab r s p qs) = length qs"
  by (induction qs arbitrary: s p) (simp_all add: Let_def)

lemma btab_nth:
  "j < length qs \<Longrightarrow>
   btab r s p qs ! j = (s # btab r s p qs) ! j
     + seg (fst (qs ! j) - fst ((p # qs) ! j)) r (snd ((p # qs) ! j))"
proof (induction qs arbitrary: s p j)
  case (Cons q qs)
  then show ?case by (cases j) (simp_all add: Let_def)
qed simp

lemma length_btable [simp]: "ts \<noteq> [] \<Longrightarrow> length (btable r ts) = length ts"
  by (cases ts) (simp_all add: btable_def)

lemma btable_0 [simp]: "ts \<noteq> [] \<Longrightarrow> btable r ts ! 0 = 0"
  by (cases ts) (simp_all add: btable_def)

lemma btable_Suc:
  "j + 1 < length ts \<Longrightarrow>
   btable r ts ! (j + 1) = btable r ts ! j + seg (fst (ts ! (j + 1)) - fst (ts ! j)) r (snd (ts ! j))"
  by (cases ts) (auto simp: btable_def btab_nth)

lemma wf_tempoD:
  assumes "wf_tempo ts"
  shows "ts \<noteq> []" and "sorted (map fst ts)" and "fst (ts ! 0) = 0"
    and "j < length ts \<Longrightarrow> MIN_MILLI_BPM \<le> snd (ts ! j) \<and> snd (ts ! j) \<le> MAX_MILLI_BPM"
    and "j < length ts \<Longrightarrow> 0 < snd (ts ! j)"
  using assms by (auto simp: wf_tempo_def hd_conv_nth MIN_MILLI_BPM_def
      dest: bspec [OF _ nth_mem [of j ts]])

lemma wf_tempo_tick_le:
  assumes "wf_tempo ts" and "i \<le> j" and "j < length ts"
  shows "fst (ts ! i) \<le> fst (ts ! j)"
  using sorted_nth_mono [OF wf_tempoD(2) [OF assms(1)] assms(2)] assms(2,3) by simp

lemma wf_tempo_tick_nonneg: "wf_tempo ts \<Longrightarrow> j < length ts \<Longrightarrow> 0 \<le> fst (ts ! j)"
  using wf_tempo_tick_le [of ts 0 j] by (simp add: wf_tempoD(3))

lemma btable_sorted:
  assumes "wf_tempo ts" and "0 < r"
  shows "sorted (btable r ts)"
proof (subst sorted_iff_nth_Suc, intro allI impI)
  fix j assume "Suc j < length (btable r ts)"
  then have j: "j + 1 < length ts" using wf_tempoD(1) [OF assms(1)] by simp
  then have "0 \<le> seg (fst (ts ! (j + 1)) - fst (ts ! j)) r (snd (ts ! j))"
    using assms wf_tempo_tick_le [OF assms(1), of j "j + 1"] wf_tempoD(5) [OF assms(1), of j]
    by (intro seg_nonneg) simp_all
  then show "btable r ts ! j \<le> btable r ts ! Suc j"
    using btable_Suc [OF j, of r] by simp
qed

lemma segment_facts:
  assumes "wf_tempo ts" and "0 \<le> t"
  shows "boundary_at (map fst ts) t 0 < length ts"
    and "fst (ts ! boundary_at (map fst ts) t 0) \<le> t"
    and "boundary_at (map fst ts) t 0 + 1 < length ts \<Longrightarrow>
           t < fst (ts ! (boundary_at (map fst ts) t 0 + 1))"
proof -
  have n: "0 < length ts" using wf_tempoD(1) [OF assms(1)] by simp
  let ?j = "boundary_at (map fst ts) t 0"
  show j: "?j < length ts" using boundary_at_bounds [of 0 "map fst ts" t] n by simp
  show "fst (ts ! ?j) \<le> t"
    using boundary_at_low [of 0 "map fst ts" t] n j assms wf_tempoD(3) [OF assms(1)] by simp
  show "t < fst (ts ! (?j + 1))" if "?j + 1 < length ts"
    using boundary_at_high [of 0 "map fst ts" t] n that by simp
qed

text \<open>Inside a segment the position stays between its two boundaries.\<close>

lemma isamples_between:
  assumes wf: "wf_tempo ts" and r: "0 < r" and t: "0 \<le> t"
  defines "j \<equiv> boundary_at (map fst ts) t 0"
  shows "btable r ts ! j \<le> isamples r ts t"
    and "j + 1 < length ts \<Longrightarrow> isamples r ts t \<le> btable r ts ! (j + 1)"
    and "j + 1 < length ts \<Longrightarrow> 2 * snd (ts ! j) \<le> r * 125 \<Longrightarrow> isamples r ts t < btable r ts ! (j + 1)"
proof -
  note facts = segment_facts [OF wf t, folded j_def]
  note m = wf_tempoD(5) [OF wf facts(1)]
  have out: "isamples r ts t = btable r ts ! j + seg (t - fst (ts ! j)) r (snd (ts ! j))"
    by (simp add: isamples_def j_def Let_def)
  show "btable r ts ! j \<le> isamples r ts t"
    unfolding out using seg_nonneg [OF r m, of "t - fst (ts ! j)"] facts(2) by simp
  assume next_j: "j + 1 < length ts"
  show "isamples r ts t \<le> btable r ts ! (j + 1)"
    unfolding out btable_Suc [OF next_j] using seg_mono [OF r m] facts(3) [OF next_j] by simp
  assume "2 * snd (ts ! j) \<le> r * 125"
  then show "isamples r ts t < btable r ts ! (j + 1)"
    unfolding out btable_Suc [OF next_j] using seg_strict [OF m] facts(3) [OF next_j] by simp
qed

lemma isamples_nonneg:
  assumes "wf_tempo ts" and "0 < r" and "0 \<le> t"
  shows "0 \<le> isamples r ts t"
proof -
  have ne: "ts \<noteq> []" by (rule wf_tempoD(1) [OF assms(1)])
  have "0 \<le> btable r ts ! boundary_at (map fst ts) t 0"
    using sorted_nth_mono [OF btable_sorted [OF assms(1,2)], of 0] segment_facts(1) [OF assms(1,3)] ne
    by simp
  then show ?thesis using isamples_between(1) [OF assms] by simp
qed

lemma isamples_mono:
  assumes wf: "wf_tempo ts" and r: "0 < r" and t: "0 \<le> t" and le: "t \<le> t'"
  shows "isamples r ts t \<le> isamples r ts t'"
proof -
  let ?j = "boundary_at (map fst ts) t 0" and ?j' = "boundary_at (map fst ts) t' 0"
  have t': "0 \<le> t'" using t le by simp
  have "?j \<le> ?j'"
    using wf_tempoD(1,2) [OF wf] le by (intro boundary_at_mono) simp_all
  then consider "?j = ?j'" | "?j + 1 \<le> ?j'" by linarith
  then show ?thesis
  proof cases
    case 1
    then show ?thesis
      using seg_mono [OF r wf_tempoD(5) [OF wf segment_facts(1) [OF wf t']]] le
      by (simp add: isamples_def Let_def)
  next
    case 2
    have j': "?j' < length ts" by (rule segment_facts(1) [OF wf t'])
    then have "isamples r ts t \<le> btable r ts ! (?j + 1)"
      using 2 by (intro isamples_between(2) [OF wf r t]) simp
    also have "\<dots> \<le> btable r ts ! ?j'"
      using 2 j' wf_tempoD(1) [OF wf] by (intro sorted_nth_mono [OF btable_sorted [OF wf r]]) simp_all
    also have "\<dots> \<le> isamples r ts t'" by (rule isamples_between(1) [OF wf r t'])
    finally show ?thesis .
  qed
qed

subsection \<open>The inverse conversion\<close>

text \<open>
  At one sample per tick or more, rounding back recovers the offset inside a segment, and the
  search over the boundary table finds the segment again.
\<close>

lemma rdiv_seg_back:
  assumes m: "0 < m" and fine: "2 * m < r * 125"
  shows "rdiv (seg dt r m * 2 * m) (r * 125) = dt"
proof -
  define s where "s = seg dt r m"
  have "2 * \<bar>2 * m * s - dt * r * 125\<bar> \<le> 2 * m"
    using rdiv_half [of "2 * m" "dt * r * 125"] m by (simp add: seg_def s_def)
  then have lo: "dt * (r * 125) - m \<le> 2 * m * s" and hi: "2 * m * s \<le> dt * (r * 125) + m"
    by (simp_all add: abs_if algebra_simps split: if_splits)
  show ?thesis
  proof (rule rdiv_unique)
    show "0 < r * 125" using m fine by simp
    show "2 * (r * 125) * dt \<le> 2 * (seg dt r m * 2 * m) + r * 125"
      using lo fine by (simp add: s_def algebra_simps)
    show "2 * (seg dt r m * 2 * m) + r * 125 < 2 * (r * 125) * (dt + 1)"
      using hi fine by (simp add: s_def algebra_simps)
  qed
qed

lemma boundary_at_isamples:
  assumes wf: "wf_tempo ts" and r: "0 < r" and t: "0 \<le> t"
    and fine: "\<And>p. p \<in> set ts \<Longrightarrow> 2 * snd p \<le> r * 125"
  shows "boundary_at (btable r ts) (isamples r ts t) 0 = boundary_at (map fst ts) t 0"
proof (rule boundary_at_eq)
  let ?j = "boundary_at (map fst ts) t 0"
  have ne: "ts \<noteq> []" by (rule wf_tempoD(1) [OF wf])
  note j = segment_facts(1) [OF wf t]
  show "?j < length (btable r ts)" using j ne by simp
  show "btable r ts ! k \<le> isamples r ts t" if "0 < k" "k \<le> ?j" for k
    using sorted_nth_mono [OF btable_sorted [OF wf r] that(2)] j ne isamples_between(1) [OF wf r t]
    by simp
  show "isamples r ts t < btable r ts ! (?j + 1)" if "?j + 1 < length (btable r ts)"
    using that ne j by (intro isamples_between(3) [OF wf r t] fine) simp_all
qed simp

lemma iticks_isamples:
  assumes wf: "wf_tempo ts" and r: "0 < r" and t: "0 \<le> t"
    and fine: "\<And>p. p \<in> set ts \<Longrightarrow> 2 * snd p < r * 125"
  shows "iticks r ts (isamples r ts t) = t"
proof -
  let ?j = "boundary_at (map fst ts) t 0"
  note j = segment_facts(1) [OF wf t]
  have "boundary_at (btable r ts) (isamples r ts t) 0 = ?j"
    using fine by (intro boundary_at_isamples [OF wf r t]) (simp add: less_imp_le)
  then show ?thesis
    using rdiv_seg_back [OF wf_tempoD(5) [OF wf j] fine [OF nth_mem [OF j]], of "t - fst (ts ! ?j)"]
    by (simp add: iticks_def isamples_def Let_def)
qed

subsection \<open>Rounding error and size\<close>

text \<open>The exact length of a stretch, and the exact position of a tick, before any rounding.\<close>

definition exact_seg :: "int \<Rightarrow> int \<Rightarrow> int \<Rightarrow> rat" where
  "exact_seg dt r m = of_int (dt * r * 125) / of_int (2 * m)"

definition exact_boundary :: "int \<Rightarrow> (int \<times> int) list \<Rightarrow> nat \<Rightarrow> rat" where
  "exact_boundary r ts j =
     (\<Sum>i\<leftarrow>[0..<j]. exact_seg (fst (ts ! (i + 1)) - fst (ts ! i)) r (snd (ts ! i)))"

definition exact_samples :: "int \<Rightarrow> (int \<times> int) list \<Rightarrow> int \<Rightarrow> rat" where
  "exact_samples r ts t =
     (let j = boundary_at (map fst ts) t 0
      in exact_boundary r ts j + exact_seg (t - fst (ts ! j)) r (snd (ts ! j)))"

lemma seg_error:
  assumes "0 < m"
  shows "\<bar>of_int (seg dt r m) - exact_seg dt r m\<bar> \<le> 1 / 2"
proof -
  let ?n = "dt * r * 125" and ?d = "2 * m"
  have d: "0 < (of_int ?d :: rat)" using assms by simp
  have "2 * \<bar>?d * rdiv ?n ?d - ?n\<bar> \<le> ?d" using assms by (intro rdiv_half) simp
  then have "(of_int (2 * \<bar>?d * rdiv ?n ?d - ?n\<bar>) :: rat) \<le> of_int ?d"
    by (simp only: of_int_le_iff)
  then have "2 * \<bar>of_int ?d * of_int (rdiv ?n ?d) - of_int ?n :: rat\<bar> \<le> of_int ?d"
    by (simp only: of_int_mult of_int_diff of_int_abs of_int_numeral)
  moreover have "of_int ?d * of_int (rdiv ?n ?d) - (of_int ?n :: rat) =
      of_int ?d * (of_int (rdiv ?n ?d) - of_int ?n / of_int ?d)"
    using d by (simp add: right_diff_distrib)
  ultimately have "2 * (of_int ?d * \<bar>of_int (rdiv ?n ?d) - of_int ?n / of_int ?d :: rat\<bar>) \<le> of_int ?d"
    using d by (simp only: abs_mult abs_of_pos)
  then have "of_int ?d * (2 * \<bar>of_int (rdiv ?n ?d) - of_int ?n / of_int ?d :: rat\<bar>) \<le> of_int ?d * 1"
    by simp
  then have "2 * \<bar>of_int (rdiv ?n ?d) - of_int ?n / of_int ?d :: rat\<bar> \<le> 1"
    using d by (simp only: mult_le_cancel_left_pos)
  then show ?thesis by (simp add: seg_def exact_seg_def)
qed

lemma btable_error:
  assumes "wf_tempo ts" and "j < length ts"
  shows "\<bar>of_int (btable r ts ! j) - exact_boundary r ts j\<bar> \<le> of_nat j / 2"
  using assms(2)
proof (induction j)
  case 0
  then show ?case using wf_tempoD(1) [OF assms(1)] by (simp add: exact_boundary_def)
next
  case (Suc j)
  let ?dt = "fst (ts ! (j + 1)) - fst (ts ! j)" and ?m = "snd (ts ! j)"
  have IH: "\<bar>of_int (btable r ts ! j) - exact_boundary r ts j\<bar> \<le> of_nat j / 2"
    using Suc by simp
  have "0 < ?m" using Suc.prems by (intro wf_tempoD(5) [OF assms(1)]) simp
  then have err: "\<bar>of_int (seg ?dt r ?m) - exact_seg ?dt r ?m\<bar> \<le> 1 / 2" by (rule seg_error)
  have "of_int (btable r ts ! Suc j) - exact_boundary r ts (Suc j) =
      (of_int (btable r ts ! j) - exact_boundary r ts j) +
      (of_int (seg ?dt r ?m) - exact_seg ?dt r ?m)"
    using btable_Suc [of j ts r] Suc.prems by (simp add: exact_boundary_def)
  also have "\<bar>\<dots>\<bar> \<le> of_nat j / 2 + 1 / 2"
    by (rule order_trans [OF abs_triangle_ineq add_mono [OF IH err]])
  finally show ?case by simp
qed

lemma isamples_error:
  assumes "wf_tempo ts" and "0 \<le> t"
  shows "\<bar>of_int (isamples r ts t) - exact_samples r ts t\<bar>
    \<le> (of_nat (boundary_at (map fst ts) t 0) + 1) / 2"
proof -
  let ?j = "boundary_at (map fst ts) t 0"
  note j = segment_facts(1) [OF assms]
  have "of_int (isamples r ts t) - exact_samples r ts t =
      (of_int (btable r ts ! ?j) - exact_boundary r ts ?j) +
      (of_int (seg (t - fst (ts ! ?j)) r (snd (ts ! ?j))) - exact_seg (t - fst (ts ! ?j)) r (snd (ts ! ?j)))"
    by (simp add: isamples_def exact_samples_def Let_def)
  also have "\<bar>\<dots>\<bar> \<le> of_nat ?j / 2 + 1 / 2"
    by (rule order_trans [OF abs_triangle_ineq add_mono])
      (rule btable_error [OF assms(1) j], rule seg_error [OF wf_tempoD(5) [OF assms(1) j]])
  finally show ?thesis by simp
qed

text \<open>At 192 kHz and 20 BPM a tick is 600 samples, the most it can be.\<close>

lemma seg_le:
  assumes "0 \<le> dt" and "r \<le> 192000" and "MIN_MILLI_BPM \<le> m"
  shows "seg dt r m \<le> 600 * dt"
proof -
  have m: "0 < m" using assms(3) by (simp add: MIN_MILLI_BPM_def)
  have "r * 125 \<le> 600 * (2 * m)" using assms(2,3) by (simp add: MIN_MILLI_BPM_def)
  then have "dt * (r * 125) \<le> dt * (600 * (2 * m))" using assms(1) by (rule mult_left_mono)
  then have "seg dt r m \<le> rdiv (0 + 2 * m * (600 * dt)) (2 * m)"
    unfolding seg_def using m by (intro rdiv_mono) (simp_all add: algebra_simps)
  also have "\<dots> = 600 * dt" using m by (subst rdiv_add_den) simp_all
  finally show ?thesis .
qed

lemma btable_le:
  assumes "wf_tempo ts" and "r \<le> 192000" and "j < length ts"
  shows "btable r ts ! j \<le> 600 * fst (ts ! j)"
  using assms(3)
proof (induction j)
  case 0
  then show ?case using wf_tempoD(1,3) [OF assms(1)] by simp
next
  case (Suc j)
  have "seg (fst (ts ! (j + 1)) - fst (ts ! j)) r (snd (ts ! j))
      \<le> 600 * (fst (ts ! (j + 1)) - fst (ts ! j))"
    using Suc.prems wf_tempo_tick_le [OF assms(1), of j "j + 1"] wf_tempoD(4) [OF assms(1), of j]
    by (intro seg_le [OF _ assms(2)]) simp_all
  then show ?case using Suc btable_Suc [of j ts r] by simp
qed

lemma isamples_le:
  assumes "wf_tempo ts" and "r \<le> 192000" and "0 \<le> t"
  shows "isamples r ts t \<le> 600 * t"
proof -
  let ?j = "boundary_at (map fst ts) t 0"
  note facts = segment_facts [OF assms(1,3)]
  have "seg (t - fst (ts ! ?j)) r (snd (ts ! ?j)) \<le> 600 * (t - fst (ts ! ?j))"
    using facts(2) wf_tempoD(4) [OF assms(1) facts(1)] by (intro seg_le [OF _ assms(2)]) simp_all
  then show ?thesis
    using btable_le [OF assms(1,2) facts(1)] by (simp add: isamples_def Let_def)
qed

section \<open>The code computes the kernel\<close>

text \<open>What the document has to hold for the map: whole ticks, sorted, the first at 0, tempi in range.\<close>

definition wf_map :: "tempo_point list \<Rightarrow> bool" where
  "wf_map m \<longleftrightarrow> m \<noteq> [] \<and> tp_tick (hd m) = js_int 0 \<and>
     sorted_wrt (\<lambda>p q. js_le (tp_tick p) (tp_tick q)) m \<and>
     (\<forall>p\<in>set m. js_int_from 0 (tp_tick p) \<and> js_int_from MIN_MILLI_BPM (tp_milliBpm p) \<and>
        js_le (tp_milliBpm p) (js_int MAX_MILLI_BPM))"

fun js_to_int :: "jsnum \<Rightarrow> int" where
  "js_to_int (Fin x) = \<lfloor>x\<rfloor>"
| "js_to_int _ = 0"

definition tempo_ints :: "tempo_point list \<Rightarrow> (int \<times> int) list" where
  "tempo_ints m = map (\<lambda>p. (js_to_int (tp_tick p), js_to_int (tp_milliBpm p))) m"

lemma js_int_from_back: "js_int_from lo v \<Longrightarrow> js_int (js_to_int v) = v"
  by (auto elim: js_int_fromE)

lemma tempo_of_ints: "wf_map m \<Longrightarrow> tempo_of (tempo_ints m) = m"
  by (auto simp: wf_map_def tempo_of_def tempo_ints_def js_int_from_back intro!: map_idI)

lemma js_le_to_int:
  "js_int_from lo a \<Longrightarrow> js_int_from lo' b \<Longrightarrow> js_le a b \<longleftrightarrow> js_to_int a \<le> js_to_int b"
  by (elim js_int_fromE) (auto simp: js_arith)

lemma wf_tempo_ints:
  assumes "wf_map m"
  shows "wf_tempo (tempo_ints m)"
proof -
  have pt: "js_int_from 0 (tp_tick p)" "js_int_from MIN_MILLI_BPM (tp_milliBpm p)"
      "js_le (tp_milliBpm p) (js_int MAX_MILLI_BPM)" if "p \<in> set m" for p
    using assms that by (simp_all add: wf_map_def)
  have "sorted_wrt (\<lambda>p q. js_to_int (tp_tick p) \<le> js_to_int (tp_tick q)) m"
    by (rule sorted_wrt_mono_rel [of m "\<lambda>p q. js_le (tp_tick p) (tp_tick q)"])
      (use assms in \<open>auto simp: wf_map_def js_le_to_int [of 0 _ 0]\<close>)
  moreover have "MIN_MILLI_BPM \<le> js_to_int (tp_milliBpm p) \<and> js_to_int (tp_milliBpm p) \<le> MAX_MILLI_BPM"
    if p: "p \<in> set m" for p
  proof -
    obtain n where "tp_milliBpm p = js_int n" and "MIN_MILLI_BPM \<le> n"
      using pt(2) [OF p] by (blast elim: js_int_fromE)
    with pt(3) [OF p] show ?thesis by simp
  qed
  ultimately show ?thesis
    using assms by (auto simp: wf_map_def wf_tempo_def tempo_ints_def hd_map sorted_map comp_def)
qed

text \<open>The map the code builds from a document is well-formed.\<close>

definition wf_tempo_input :: "jsnum \<Rightarrow> tempo_point list \<Rightarrow> bool" where
  "wf_tempo_input reg m \<longleftrightarrow> js_finite reg \<and>
     sorted_wrt (\<lambda>p q. js_le (tp_tick p) (tp_tick q)) m \<and>
     (\<forall>p\<in>set m. js_int_from 0 (tp_tick p) \<and> js_finite (tp_milliBpm p))"

lemma clampMilliBpm_range:
  assumes "js_finite v"
  shows "js_int_from MIN_MILLI_BPM (clampMilliBpm v) \<and> js_le (clampMilliBpm v) (js_int MAX_MILLI_BPM)"
proof (cases v)
  case (Fin x)
  let ?n = "max MIN_MILLI_BPM (min MAX_MILLI_BPM \<lfloor>x + 1/2\<rfloor>)"
  have "clampMilliBpm v = js_int ?n"
    unfolding Fin clampMilliBpm_def js_round.simps
    by (rule js_clamp_js_int) (simp add: MIN_MILLI_BPM_def MAX_MILLI_BPM_def)
  moreover have "MIN_MILLI_BPM \<le> ?n" and "?n \<le> MAX_MILLI_BPM"
    by (simp_all add: MIN_MILLI_BPM_def MAX_MILLI_BPM_def)
  ultimately show ?thesis by (simp only: js_int_from_js_int js_le_js_int)
qed (use assms in simp_all)

lemma clampMilliBpm_id:
  "js_int_from MIN_MILLI_BPM v \<Longrightarrow> js_le v (js_int MAX_MILLI_BPM) \<Longrightarrow> clampMilliBpm v = v"
  by (auto simp: clampMilliBpm_def js_between_def js_arith elim!: js_int_fromE)

lemma effectiveMap_wf:
  assumes "wf_tempo_input reg m"
  shows "wf_map (effectiveMap reg m)"
proof (cases m)
  case Nil
  then show ?thesis
    using assms clampMilliBpm_range [of reg]
    by (simp add: effectiveMap_def wf_map_def wf_tempo_input_def)
next
  case (Cons p ps)
  have "js_le (js_int 0) (tp_tick q)" if "q \<in> set m" for q
    using assms that by (auto simp: wf_tempo_input_def js_arith elim!: js_int_fromE)
  then show ?thesis
    using assms clampMilliBpm_range
    by (auto simp: effectiveMap_def wf_map_def wf_tempo_input_def Cons Let_def sorted_wrt_map js_eq_def)
qed

lemma roundDiv_pos: "0 \<le> n \<Longrightarrow> 0 < d \<Longrightarrow> roundDiv n d = Inr (rdiv n d)"
  by (simp add: roundDiv_def rdiv_def)

lemma segSamples_seg:
  "0 \<le> dt \<Longrightarrow> 0 < r \<Longrightarrow> 0 < m \<Longrightarrow> segSamples dt (js_int r) (js_int m) = Inr (seg dt r m)"
  by (simp add: segSamples_def seg_def roundDiv_pos)

lemma tempo_of_simps [simp]:
  "tempo_of [] = []"
  "tempo_of (p # ps) = \<lparr>tp_tick = js_int (fst p), tp_milliBpm = js_int (snd p)\<rparr> # tempo_of ps"
  "length (tempo_of ts) = length ts"
  "j < length ts \<Longrightarrow> tempo_of ts ! j = \<lparr>tp_tick = js_int (fst (ts ! j)), tp_milliBpm = js_int (snd (ts ! j))\<rparr>"
  by (simp_all add: tempo_of_def split_beta)

lemma boundary_loop_btab:
  assumes "0 < r" and "sorted (fst p # map fst qs)" and "\<forall>q\<in>set (p # qs). 0 < snd q"
  shows "boundary_loop (js_int r) s \<lparr>tp_tick = js_int (fst p), tp_milliBpm = js_int (snd p)\<rparr> (tempo_of qs)
    = Inr (btab r s p qs)"
  using assms(2,3)
proof (induction qs arbitrary: s p)
  case (Cons q qs)
  then show ?case
    using assms(1) by (simp add: segSamples_seg Let_def del: of_int_diff)
qed simp

lemma buildBoundaryTable_btable:
  assumes "wf_tempo ts" and "0 < r"
  shows "buildBoundaryTable (tempo_of ts) (js_int r) = Inr (btable r ts)"
proof (cases ts)
  case (Cons p ps)
  have "\<forall>q\<in>set (p # ps). 0 < snd q"
    using assms(1) by (auto simp: Cons wf_tempo_def MIN_MILLI_BPM_def)
  moreover have "sorted (fst p # map fst ps)"
    using assms(1) by (auto simp: Cons wf_tempo_def)
  ultimately show ?thesis
    using boundary_loop_btab [OF assms(2), of p ps 0]
    by (simp add: Cons buildBoundaryTable_def btable_def)
qed (use assms in \<open>simp add: wf_tempo_def\<close>)

lemma segment_at_boundary_at:
  "segment_at (tempo_of ts) t j = Inr (boundary_at (map fst ts) t j)"
proof (induction "map fst ts" t j rule: boundary_at.induct)
  case (1 t j)
  then show ?case
    by (cases "j + 1 < length ts \<and> fst (ts ! (j + 1)) \<le> t")
      (auto simp: segment_at.simps [of "tempo_of ts"] boundary_at_step boundary_at_stop)
qed

lemma tick_of_nonneg [simp]: "0 \<le> tick_of x"
  by (simp add: tick_of_def MAX_TICK_def)

lemma samplesAtTick_isamples:
  assumes "wf_tempo ts" and "0 < r"
  shows "samplesAtTick (tempo_of ts) (btable r ts) (js_int r) (Fin x) = Inr (js_int (isamples r ts (tick_of x)))"
proof -
  have "(if max 0 \<lfloor>x + 1/2\<rfloor> > MAX_TICK then MAX_TICK else max 0 \<lfloor>x + 1/2\<rfloor>) = tick_of x"
    by (simp add: tick_of_def min_def)
  moreover note j = segment_facts [OF assms(1) tick_of_nonneg [of x]]
  moreover note segSamples_seg [OF _ assms(2) wf_tempoD(5) [OF assms(1) j(1)]]
  ultimately show ?thesis
    using wf_tempoD(1) [OF assms(1)]
    by (simp add: samplesAtTick_def segment_at_boundary_at isamples_def Let_def)
qed

lemma tickAtSample_iticks:
  assumes wf: "wf_tempo ts" and r: "0 < r" and s: "0 \<le> s"
  shows "tickAtSample (tempo_of ts) (btable r ts) (js_int r) (js_int s)
    = Inr (js_int (min MAX_TICK (iticks r ts s)))"
proof -
  let ?j = "boundary_at (btable r ts) s 0"
  have n: "length (btable r ts) = length ts" "0 < length ts" using wf_tempoD(1) [OF wf] by simp_all
  have j: "?j < length ts" using boundary_at_bounds [of 0 "btable r ts" s] n by simp
  have "btable r ts ! ?j \<le> s" using boundary_at_low [of 0 "btable r ts" s] n s by simp
  then have "roundDiv ((s - btable r ts ! ?j) * 2 * snd (ts ! ?j)) (r * 125) =
      Inr (rdiv ((s - btable r ts ! ?j) * 2 * snd (ts ! ?j)) (r * 125))"
    using r wf_tempoD(5) [OF wf j] by (intro roundDiv_pos) simp_all
  then show ?thesis
    using j n s by (simp add: tickAtSample_def iticks_def Let_def min_def)
qed

section \<open>Properties\<close>

lemma wf_map_cases:
  assumes "wf_map m" and "js_int_from 1 sr"
  obtains ts r where "m = tempo_of ts" and "ts = tempo_ints m" and "wf_tempo ts"
    and "sr = js_int r" and "r = js_to_int sr" and "0 < r"
    and "buildBoundaryTable m sr = Inr (btable r ts)"
proof -
  obtain r where r: "sr = js_int r" "1 \<le> r" using assms(2) by (rule js_int_fromE)
  show ?thesis
    using r tempo_of_ints [OF assms(1)] wf_tempo_ints [OF assms(1)]
      buildBoundaryTable_btable [OF wf_tempo_ints [OF assms(1)], of r]
    by (intro that [of "tempo_ints m" r]) simp_all
qed

text \<open>C8. On a well-formed tempo map and a positive whole sample rate the boundary table is built, and
  \<open>samplesAtTick\<close> returns for every finite tick, with the value of the integer kernel at the tick
  rounded half up and clamped to \<open>[0, MAX_TICK]\<close>: no conversion to BigInt throws, no index is out
  of range.\<close>

theorem samplesAtTick_refines_kernel:
  assumes "wf_map m" and "js_int_from 1 sr"
  shows "\<exists>S. buildBoundaryTable m sr = Inr S \<and>
    (\<forall>x. samplesAtTick m S sr (Fin x) =
       Inr (js_int (isamples (js_to_int sr) (tempo_ints m) (tick_of x))))"
  using wf_map_cases [OF assms] samplesAtTick_isamples by metis

definition example_map :: "tempo_point list" where
  "example_map = effectiveMap (js_int 120000)
     [\<lparr>tp_tick = js_int 960, tp_milliBpm = js_int 90000\<rparr>,
      \<lparr>tp_tick = js_int 1920, tp_milliBpm = js_int 133333\<rparr>]"

lemma example_map_wf: "wf_map example_map"
  unfolding example_map_def
  by (rule effectiveMap_wf) (simp add: wf_tempo_input_def)

lemma example_map_eq: "example_map = tempo_of [(0, 120000), (960, 90000), (1920, 133333)]"
  by (simp add: example_map_def effectiveMap_def clampMilliBpm_def MIN_MILLI_BPM_def
      MAX_MILLI_BPM_def js_arith Let_def)

lemma example_table: "buildBoundaryTable example_map (js_int 48000) = Inr [0, 24000, 56000]"
  using buildBoundaryTable_btable [of "[(0, 120000), (960, 90000), (1920, 133333)]" 48000]
  by (simp add: example_map_eq wf_tempo_def MIN_MILLI_BPM_def MAX_MILLI_BPM_def btable_def
      seg_def rdiv_def Let_def)

theorem samplesAtTick_refines_kernel_witness:
  "\<exists>S. buildBoundaryTable example_map (js_int 48000) = Inr S \<and>
    samplesAtTick example_map S (js_int 48000) (js_int 1000) = Inr (js_int 25333)"
proof -
  obtain S where S: "buildBoundaryTable example_map (js_int 48000) = Inr S"
    and at: "\<forall>x. samplesAtTick example_map S (js_int 48000) (Fin x) =
       Inr (js_int (isamples (js_to_int (js_int 48000)) (tempo_ints example_map) (tick_of x)))"
    using samplesAtTick_refines_kernel [OF example_map_wf, of "js_int 48000"] by auto
  have "tempo_ints example_map = [(0, 120000), (960, 90000), (1920, 133333)]"
    by (simp add: example_map_eq tempo_ints_def)
  moreover have "tick_of 1000 = 1000"
    by (simp add: tick_of_def MAX_TICK_def)
  moreover have "boundary_at [0, 960, 1920] 1000 0 = 1"
    by (simp add: boundary_at.simps)
  ultimately have "isamples 48000 (tempo_ints example_map) (tick_of 1000) = 25333"
    by (simp add: isamples_def btable_def seg_def rdiv_def Let_def)
  with S at [rule_format, of 1000] show ?thesis by auto
qed

text \<open>The position in samples never decreases with the tick, across tempo changes too: the rounding
  at a boundary cannot move a later event before an earlier one.\<close>

theorem samplesAtTick_monotone:
  assumes "wf_map m" and "js_int_from 1 sr" and "buildBoundaryTable m sr = Inr S" and "x \<le> y"
  shows "\<exists>a b. samplesAtTick m S sr (Fin x) = Inr (js_int a) \<and>
    samplesAtTick m S sr (Fin y) = Inr (js_int b) \<and> 0 \<le> a \<and> a \<le> b"
proof -
  obtain ts r where m: "m = tempo_of ts" "wf_tempo ts" "sr = js_int r" "0 < r"
      "buildBoundaryTable m sr = Inr (btable r ts)"
    using wf_map_cases [OF assms(1,2)] by metis
  have "tick_of x \<le> tick_of y"
    using assms(4) floor_mono [of "x + 1/2" "y + 1/2"] by (simp add: tick_of_def)
  then show ?thesis
    using m assms(3) samplesAtTick_isamples [OF m(2,4)]
      isamples_mono [OF m(2,4) tick_of_nonneg, of x "tick_of y"]
      isamples_nonneg [OF m(2,4) tick_of_nonneg, of x]
    by auto
qed

theorem samplesAtTick_monotone_witness:
  "\<exists>a b. samplesAtTick example_map [0, 24000, 56000] (js_int 48000) (Fin 959) = Inr (js_int a) \<and>
    samplesAtTick example_map [0, 24000, 56000] (js_int 48000) (Fin 961) = Inr (js_int b) \<and>
    0 \<le> a \<and> a \<le> b"
  by (rule samplesAtTick_monotone [OF example_map_wf _ example_table]) simp_all

text \<open>C29. Round trip: with more than one sample per tick at the fastest tempo of the map, converting a
  whole tick to samples and back gives the tick itself, not only up to half a tick.\<close>

theorem tick_sample_roundtrip:
  assumes "wf_map m" and "js_int_from 1 sr" and "buildBoundaryTable m sr = Inr S"
    and "\<forall>p\<in>set m. 2 * js_to_int (tp_milliBpm p) < js_to_int sr * 125"
    and "0 \<le> t" and "t \<le> MAX_TICK"
  shows "\<exists>s. samplesAtTick m S sr (js_int t) = Inr s \<and> tickAtSample m S sr s = Inr (js_int t)"
proof -
  obtain ts r where m: "m = tempo_of ts" "ts = tempo_ints m" "wf_tempo ts" "sr = js_int r"
      "r = js_to_int sr" "0 < r" "buildBoundaryTable m sr = Inr (btable r ts)"
    using wf_map_cases [OF assms(1,2)] by metis
  have "2 * snd p < r * 125" if "p \<in> set ts" for p
    using that assms(4) m(2,5) by (auto simp: tempo_ints_def)
  then have "iticks r ts (isamples r ts t) = t"
    using iticks_isamples [OF m(3,6) assms(5)] by blast
  moreover have "tick_of (of_int t) = t"
    using assms(5,6) by (simp add: tick_of_def)
  moreover have "S = btable r ts" using assms(3) m(7) by simp
  ultimately show ?thesis
    using assms(6) samplesAtTick_isamples [OF m(3,6), of "of_int t"]
      tickAtSample_iticks [OF m(3,6) isamples_nonneg [OF m(3,6) assms(5)]]
    by (simp add: m(1,4))
qed

theorem tick_sample_roundtrip_witness:
  "\<exists>s. samplesAtTick example_map [0, 24000, 56000] (js_int 48000) (js_int 1001) = Inr s \<and>
    tickAtSample example_map [0, 24000, 56000] (js_int 48000) s = Inr (js_int 1001)"
  by (rule tick_sample_roundtrip [OF example_map_wf _ example_table])
    (simp_all add: example_map_eq MAX_TICK_def)




end
