(* ===== verification/Ids.thy ===== *)
theory Ids
  imports Prelude "HOL-Library.Word"
begin

unbundle bit_operations_syntax

text \<open>
  Document identifiers, \<open>web/src/document/ids.ts\<close>: the RFC 4122 fallback generator on sixteen
  random bytes, \<open>newId\<close> and the readable stem \<open>clipStem\<close> recovers from an id. Randomness and
  \<open>crypto.randomUUID\<close> belong to the platform and are arguments. A string is a list of code units,
  here those below 256.
\<close>

section \<open>Splitting at dashes\<close>

fun split_dash :: "string \<Rightarrow> string list" where
  "split_dash [] = [[]]"
| "split_dash (c # cs) =
     (case split_dash cs of
        [] \<Rightarrow> [[c]]
      | w # ws \<Rightarrow> if c = CHR ''-'' then [] # w # ws else (c # w) # ws)"

fun join_dash :: "string list \<Rightarrow> string" where
  "join_dash [] = []"
| "join_dash [w] = w"
| "join_dash (w # ws) = w @ CHR ''-'' # join_dash ws"

definition no_dash :: "string \<Rightarrow> bool" where
  "no_dash w \<longleftrightarrow> CHR ''-'' \<notin> set w"

lemma split_dash_ne [simp]: "split_dash s \<noteq> []"
  by (cases s) (auto split: list.splits)

lemma split_dash_no_dash: "no_dash w \<Longrightarrow> split_dash w = [w]"
  by (induction w) (auto simp: no_dash_def)

lemma split_dash_append: "split_dash (w @ CHR ''-'' # s) = split_dash w @ split_dash s"
proof (induction w)
  case Nil
  then show ?case by (cases "split_dash s") simp_all
next
  case (Cons c w)
  then show ?case by (cases "split_dash w") simp_all
qed

lemma join_dash_Cons: "ws \<noteq> [] \<Longrightarrow> join_dash (w # ws) = w @ CHR ''-'' # join_dash ws"
  by (cases ws) simp_all

lemma join_split_dash [simp]: "join_dash (split_dash s) = s"
proof (induction s)
  case (Cons c s)
  obtain w ws where s: "split_dash s = w # ws" by (cases "split_dash s") simp_all
  with Cons.IH show ?case by (cases ws) (simp_all add: s)
qed simp

lemma split_dash_pieces: "w \<in> set (split_dash s) \<Longrightarrow> no_dash w"
proof (induction s arbitrary: w)
  case (Cons c s)
  then show ?case by (cases "split_dash s") (auto simp: no_dash_def split: if_splits)
qed (simp add: no_dash_def)

lemma split_join_dash: "ws \<noteq> [] \<Longrightarrow> \<forall>w\<in>set ws. no_dash w \<Longrightarrow> split_dash (join_dash ws) = ws"
proof (induction ws rule: join_dash.induct)
  case (3 w v ws)
  then show ?case by (simp add: split_dash_append split_dash_no_dash)
qed (simp_all add: split_dash_no_dash)

section \<open>The generator\<close>

definition hex_digits :: string where
  "hex_digits = ''0123456789abcdef''"

text \<open>\<open>x.toString(16).padStart(2, '0')\<close>\<close>

definition hex_byte :: "8 word \<Rightarrow> string" where
  "hex_byte b = [hex_digits ! unat (drop_bit 4 b), hex_digits ! unat (b AND 15)]"

definition slice :: "nat \<Rightarrow> nat \<Rightarrow> 'a list \<Rightarrow> 'a list" where
  "slice i j xs = take (j - i) (drop i xs)"

text \<open>
  \<open>uuid()\<close>: the platform's \<open>crypto.randomUUID()\<close> where it exists, otherwise the sixteen bytes of
  \<open>getRandomValues\<close> with the version and variant bits set.
\<close>

definition uuid :: "string option \<Rightarrow> 8 word list \<Rightarrow> string" where
  "uuid randomUUID b =
     (case randomUUID of
        Some u \<Rightarrow> u
      | None \<Rightarrow>
          (let b = b[6 := (b ! 6 AND 15) OR 64];
               b = b[8 := (b ! 8 AND 63) OR 128];
               h = concat (map hex_byte b)
           in slice 0 8 h @ ''-'' @ slice 8 12 h @ ''-'' @ slice 12 16 h @ ''-'' @
              slice 16 20 h @ ''-'' @ drop 20 h))"

definition newId :: "string \<Rightarrow> string option \<Rightarrow> string \<Rightarrow> string" where
  "newId prefix stem u =
     (case stem of
        Some (c # cs) \<Rightarrow> prefix @ ''-'' @ (c # cs) @ ''-'' @ u
      | _ \<Rightarrow> prefix @ ''-'' @ u)"

section \<open>The stem of a clip id\<close>

definition is_hex :: "char \<Rightarrow> bool" where
  "is_hex c \<longleftrightarrow> c \<in> set hex_digits"

definition is_digit :: "char \<Rightarrow> bool" where
  "is_digit c \<longleftrightarrow> c \<in> set ''0123456789''"

text \<open>\<open>UUID_RE\<close>: five groups of hexadecimal digits.\<close>

definition UUID_RE :: "string \<Rightarrow> bool" where
  "UUID_RE s \<longleftrightarrow> map length (split_dash s) = [8, 4, 4, 4, 12] \<and>
     (\<forall>w\<in>set (split_dash s). list_all is_hex w)"

definition all_digits :: "string \<Rightarrow> bool" where
  "all_digits w \<longleftrightarrow> w \<noteq> [] \<and> list_all is_digit w"

text \<open>\<open>parts.slice(-5)\<close>\<close>

definition tail5 :: "'a list \<Rightarrow> 'a list" where
  "tail5 ps = drop (length ps - 5) ps"

function stem_loop :: "string list \<Rightarrow> string list" where
  "stem_loop ps =
     (if length ps > 1 then
        if length ps \<ge> 5 \<and> UUID_RE (join_dash (tail5 ps)) then stem_loop (take (length ps - 5) ps)
        else if all_digits (last ps) then stem_loop (butlast ps)
        else ps
      else ps)"
  by pat_completeness auto
termination
  by (relation "measure length") auto

declare stem_loop.simps [simp del]

definition strip_clip :: "string \<Rightarrow> string" where
  "strip_clip s = (if take 5 s = ''clip-'' then drop 5 s else s)"

definition clipStem :: "string \<Rightarrow> string" where
  "clipStem s =
     (let r = join_dash (stem_loop (split_dash (strip_clip s)))
      in if r = [] then ''clip'' else r)"

section \<open>Lemmas\<close>

lemma unat_nibbles: "unat (drop_bit 4 (b :: 8 word)) < 16" "unat (b AND 15 :: 8 word) < 16"
proof -
  have "unat b < 256" using unsigned_less [of b, where 'a = nat] by simp
  then show "unat (drop_bit 4 b) < 16" by (simp add: unat_drop_bit_eq drop_bit_eq_div unat_div less_mult_imp_div_less)
  have "unat (b AND 15) \<le> unat (15 :: 8 word)"
    by (rule word_and_le1 [THEN word_le_nat_alt [THEN iffD1]])
  then show "unat (b AND 15) < 16" by simp
qed

lemma hex_digits_nth: "i < 16 \<Longrightarrow> is_hex (hex_digits ! i)"
  unfolding is_hex_def by (rule nth_mem) (simp add: hex_digits_def)

lemma dash_not_hex: "\<not> is_hex CHR ''-''"
  by (simp add: is_hex_def hex_digits_def)

lemma hex_no_dash: "list_all is_hex w \<Longrightarrow> no_dash w"
  using dash_not_hex unfolding no_dash_def list_all_iff by blast

lemma hex_byte_hex: "list_all is_hex (hex_byte b)" "length (hex_byte b) = 2"
  by (simp_all add: hex_byte_def hex_digits_nth unat_nibbles)

lemma hex_bytes:
  "list_all is_hex (concat (map hex_byte bs))" "length (concat (map hex_byte bs)) = 2 * length bs"
  by (induction bs) (simp_all add: hex_byte_hex)

lemma list_all_slice: "list_all P xs \<Longrightarrow> list_all P (slice i j xs)"
  by (auto simp: list_all_iff slice_def dest: in_set_takeD in_set_dropD)

lemma split_dash_uuid_groups:
  assumes "\<forall>w\<in>set [a, b, c, d, e]. list_all is_hex w"
  shows "split_dash (a @ ''-'' @ b @ ''-'' @ c @ ''-'' @ d @ ''-'' @ e) = [a, b, c, d, e]"
  using assms by (simp add: split_dash_append split_dash_no_dash hex_no_dash)

lemma UUID_RE_split:
  "UUID_RE u \<Longrightarrow> length (split_dash u) = 5"
  by (auto simp: UUID_RE_def dest: arg_cong [of _ _ length])

lemma tail5_append: "length qs = 5 \<Longrightarrow> tail5 (ps @ qs) = qs"
  by (simp add: tail5_def)

lemma stem_loop_uuid:
  assumes "UUID_RE u"
  shows "stem_loop (ps @ split_dash u) = stem_loop ps"
proof -
  note five = UUID_RE_split [OF assms]
  then have "tail5 (ps @ split_dash u) = split_dash u" by (rule tail5_append)
  then show ?thesis
    using assms five by (simp add: stem_loop.simps [of "ps @ split_dash u"])
qed

lemma stem_loop_stop:
  "length ps \<le> 1 \<or> \<not> (length ps \<ge> 5 \<and> UUID_RE (join_dash (tail5 ps))) \<and> \<not> all_digits (last ps) \<Longrightarrow>
   stem_loop ps = ps"
  by (auto simp: stem_loop.simps [of ps])

text \<open>Each turn of the loop drops a suffix, so the stem is a prefix of the id's segments.\<close>

lemma stem_loop_prefix: "\<exists>n. stem_loop ps = take n ps"
proof (induction ps rule: stem_loop.induct)
  case (1 ps)
  show ?case
  proof (cases "length ps > 1 \<and> (length ps \<ge> 5 \<and> UUID_RE (join_dash (tail5 ps)) \<or> all_digits (last ps))")
    case False
    then have "stem_loop ps = take (length ps) ps" by (intro trans [OF stem_loop_stop]) auto
    then show ?thesis ..
  next
    case True
    then show ?thesis
      using 1 by (subst stem_loop.simps) (auto simp: butlast_conv_take min_def)
  qed
qed

lemma hex_bytes_nth:
  "i < length bs \<Longrightarrow> concat (map hex_byte bs) ! (2 * i) = hex_digits ! unat (drop_bit 4 (bs ! i))"
proof (induction bs arbitrary: i)
  case (Cons b bs)
  then show ?case by (cases i) (simp_all add: nth_append hex_byte_hex, simp add: hex_byte_def)
qed simp

lemma version_nibble: "drop_bit 4 ((x AND 15) OR 64 :: 8 word) = 4"
  by (simp add: drop_bit_and drop_bit_or)

lemma variant_nibble: "unat (drop_bit 4 ((x AND 63) OR 128 :: 8 word)) \<in> {8, 9, 10, 11}"
proof -
  let ?y = "drop_bit 4 x AND (3 :: 8 word)"
  have "drop_bit 4 ((x AND 63) OR 128) = ?y OR 8"
    by (simp add: drop_bit_and drop_bit_or)
  moreover have "unat ?y \<le> unat (3 :: 8 word)"
    by (rule word_and_le1 [THEN word_le_nat_alt [THEN iffD1]])
  then have "?y \<in> {0, 1, 2, 3}" by (auto simp: unat_arith_simps)
  ultimately show ?thesis by auto
qed

section \<open>Properties\<close>

text \<open>The fallback generator makes a well-formed version 4 UUID from any sixteen bytes: it matches
  \<open>UUID_RE\<close>, its version digit is 4 and its variant digit is one of 8, 9, a, b.\<close>

theorem uuid_fallback_well_formed:
  assumes "length b = 16"
  shows "UUID_RE (uuid None b) \<and> length (uuid None b) = 36 \<and>
    uuid None b ! 14 = CHR ''4'' \<and> uuid None b ! 19 \<in> set ''89ab''"
proof -
  define b' where "b' = (b[6 := (b ! 6 AND 15) OR 64])[8 := (b[6 := (b ! 6 AND 15) OR 64] ! 8 AND 63) OR 128]"
  define h where "h = concat (map hex_byte b')"
  have len: "length b' = 16" "length h = 32" using assms by (simp_all add: b'_def h_def hex_bytes)
  have hex: "list_all is_hex h" by (simp add: h_def hex_bytes)
  let ?gs = "[slice 0 8 h, slice 8 12 h, slice 12 16 h, slice 16 20 h, drop 20 h]"
  have eq: "uuid None b = slice 0 8 h @ ''-'' @ slice 8 12 h @ ''-'' @ slice 12 16 h @ ''-'' @
      slice 16 20 h @ ''-'' @ drop 20 h"
    by (simp add: uuid_def Let_def h_def b'_def)
  have gs: "\<forall>w\<in>set ?gs. list_all is_hex w"
    using hex by (auto simp: list_all_slice) (auto simp: list_all_iff dest: in_set_dropD)
  have groups: "split_dash (uuid None b) = ?gs"
    unfolding eq by (rule split_dash_uuid_groups [OF gs])
  have "UUID_RE (uuid None b)"
    unfolding UUID_RE_def groups using gs by (simp add: slice_def len)
  moreover have "length (uuid None b) = 36"
    unfolding eq by (simp add: slice_def len)
  moreover have "uuid None b ! 14 = h ! 12" "uuid None b ! 19 = h ! 16"
    unfolding eq by (simp_all add: slice_def len nth_append)
  moreover have "h ! 12 = CHR ''4''"
    using hex_bytes_nth [of 6 b'] len assms
    by (simp add: h_def b'_def version_nibble hex_digits_def)
  moreover have "h ! 16 \<in> set ''89ab''"
    using hex_bytes_nth [of 8 b'] len assms variant_nibble [of "b ! 8"]
    by (auto simp: h_def b'_def hex_digits_def)
  ultimately show ?thesis by simp
qed

theorem uuid_fallback_well_formed_witness:
  "UUID_RE (uuid None (replicate 16 255)) \<and> uuid None (replicate 16 255) ! 14 = CHR ''4''"
  using uuid_fallback_well_formed [of "replicate 16 255"] by simp

text \<open>The stem given to \<open>newId\<close> is recovered by \<open>clipStem\<close> from the clip id, for every UUID, when the
  stem does not itself end in a group of digits (or is one group) or in a UUID; an id made without a
  stem reads as \<open>clip\<close>.\<close>

theorem clipStem_newId:
  assumes "UUID_RE u" and "st \<noteq> []"
    and "length (split_dash st) \<le> 1 \<or>
      \<not> all_digits (last (split_dash st)) \<and> \<not> UUID_RE (join_dash (tail5 (split_dash st)))"
  shows "clipStem (newId ''clip'' (Some st) u) = st \<and> clipStem (newId ''clip'' None u) = ''clip''"
proof -
  have st: "strip_clip (newId ''clip'' (Some st) u) = st @ CHR ''-'' # u"
    using assms(2) by (cases st) (simp_all add: strip_clip_def newId_def)
  have "stem_loop (split_dash st) = split_dash st"
    using assms(3) by (intro stem_loop_stop) blast
  then have "clipStem (newId ''clip'' (Some st) u) = st"
    using assms(2) by (simp add: clipStem_def st split_dash_append stem_loop_uuid [OF assms(1)])
  moreover have "stem_loop (split_dash u) = []"
    using stem_loop_uuid [OF assms(1), of "[]"] by (simp add: stem_loop_stop)
  then have "clipStem (newId ''clip'' None u) = ''clip''"
    by (simp add: clipStem_def strip_clip_def newId_def)
  ultimately show ?thesis by blast
qed

theorem clipStem_newId_witness:
  "clipStem (newId ''clip'' (Some ''kick-loud'') ''01234567-89ab-4cde-8f01-23456789abcd'') = ''kick-loud''"
proof -
  have "UUID_RE ''01234567-89ab-4cde-8f01-23456789abcd''"
    by (simp add: UUID_RE_def is_hex_def hex_digits_def)
  then show ?thesis
    using clipStem_newId [of _ "''kick-loud''"]
    by (simp add: all_digits_def is_digit_def UUID_RE_def tail5_def)
qed

end
