(* ===== verification/Schema.thy ===== *)
theory Schema
  imports Tempo Ids "HOL-Library.Multiset"
begin

text \<open>
  The project document, \<open>web/src/document/schema.ts\<close>: one record per interface, an \<open>option\<close> for
  every field that may be absent, and the pure functions of the module. Field names carry the
  initial of their interface because notes, clips, devices, lanes, tracks, scenes and the project
  share names such as \<open>id\<close>.
\<close>

section \<open>The interfaces\<close>

definition SCHEMA_VERSION :: int where
  "SCHEMA_VERSION = 2"

record midi_note =
  n_id :: "string option"
  n_pitch :: jsnum
  n_velocity :: jsnum
  n_startSample :: "jsnum option"
  n_lengthSamples :: "jsnum option"
  n_startTick :: "jsnum option"
  n_lengthTick :: "jsnum option"

text \<open>\<open>offsetSamples\<close> is an option too: \<open>setClipTiming\<close> deletes it on an inverse that lacks it.\<close>

record clip =
  c_id :: string
  c_name :: "string option"
  c_assetHash :: string
  c_startSample :: "jsnum option"
  c_lengthSamples :: "jsnum option"
  c_offsetSamples :: "jsnum option"
  c_fadeInSamples :: "jsnum option"
  c_fadeOutSamples :: "jsnum option"
  c_notes :: "midi_note list option"
  c_sceneId :: "string option"
  c_startTick :: "jsnum option"
  c_lengthTick :: "jsnum option"

record param =
  pr_key :: string
  pr_value :: jsnum

record processor =
  p_id :: string
  p_type :: string
  p_uid :: "string option"
  p_name :: "string option"
  p_bypass :: bool
  p_params :: "param list"
  p_stateHash :: "string option"
  p_stateVersion :: "jsnum option"
  p_stemHash :: "string option"
  p_stemKey :: "string option"
  p_stemLatencySamples :: "jsnum option"

record auto_point =
  pt_t :: jsnum
  pt_v :: jsnum

record lane_target =
  lt_processorId :: "string option"
  lt_param :: string

datatype time_base = Ticks

record lane =
  l_id :: string
  l_target :: lane_target
  l_points :: "auto_point list"
  l_enabled :: bool
  l_timeBase :: "time_base option"

datatype track_kind = Audio | Midi

record track =
  t_id :: string
  t_name :: string
  t_gain :: jsnum
  t_kind :: "track_kind option"
  t_pan :: "jsnum option"
  t_order :: "jsnum option"
  t_clips :: "clip list"
  t_chain :: "processor list"
  t_automation :: "lane list option"

record scene =
  sc_id :: string
  sc_name :: string

record time_signature =
  ts_tick :: jsnum
  ts_num :: jsnum
  ts_den :: jsnum

record project =
  d_schemaVersion :: jsnum
  d_sampleRate :: jsnum
  d_masterGain :: "jsnum option"
  d_tracks :: "track list"
  d_scenes :: "scene list option"
  d_automation :: "lane list option"
  d_tempoMilliBpm :: "jsnum option"
  d_timeSignature :: "time_signature list option"
  d_tempoMap :: "tempo_point list option"

text \<open>\<open>x ?? d\<close>\<close>

definition or_else :: "'a option \<Rightarrow> 'a \<Rightarrow> 'a" where
  "or_else x d = (case x of None \<Rightarrow> d | Some v \<Rightarrow> v)"

lemma or_else_simps [simp]: "or_else None d = d" "or_else (Some v) d = v"
  by (simp_all add: or_else_def)

section \<open>Clips\<close>

definition isMusicalClip :: "clip \<Rightarrow> bool" where
  "isMusicalClip c \<longleftrightarrow> c_startTick c \<noteq> None"

definition effectiveTempoMap :: "project \<Rightarrow> tempo_point list" where
  "effectiveTempoMap doc =
     effectiveMap (or_else (d_tempoMilliBpm doc) (js_int 120000)) (or_else (d_tempoMap doc) [])"

definition ensureV2 :: "project \<Rightarrow> project" where
  "ensureV2 doc =
     (if js_lt (d_schemaVersion doc) (js_int 2) then doc\<lparr>d_schemaVersion := js_int 2\<rparr> else doc)"

text \<open>\<open>String.prototype.trim\<close> on code units below 256.\<close>

definition is_space :: "char \<Rightarrow> bool" where
  "is_space c \<longleftrightarrow> of_char c \<in> set [9, 10, 11, 12, 13, 32, 160 :: nat]"

definition trim :: "string \<Rightarrow> string" where
  "trim s = rev (dropWhile is_space (rev (dropWhile is_space s)))"

text \<open>\<open>/^[a-z0-9]{6,12}$/.test(s)\<close>\<close>

definition legacy_stem :: "string \<Rightarrow> bool" where
  "legacy_stem s \<longleftrightarrow> 6 \<le> length s \<and> length s \<le> 12 \<and>
     list_all (\<lambda>c. c \<in> set ''abcdefghijklmnopqrstuvwxyz0123456789'') s"

definition clipDisplayName :: "clip \<Rightarrow> string" where
  "clipDisplayName c =
     (let named = (case c_name c of None \<Rightarrow> [] | Some n \<Rightarrow> trim n) in
      if named \<noteq> [] then named
      else
        let stem = clipStem (c_id c);
            legacyRandom = (c_id c = ''clip-'' @ stem \<and> legacy_stem stem)
        in if stem = ''clip'' \<or> legacyRandom
           then (if c_notes c \<noteq> None then ''MIDI'' else ''clip'')
           else stem)"

section \<open>Tracks\<close>

definition makeTrackDef :: "string \<Rightarrow> track_kind option \<Rightarrow> string \<Rightarrow> track" where
  "makeTrackDef name kind u =
     \<lparr>t_id = newId ''track'' None u, t_name = name, t_gain = js_int 1, t_kind = kind, t_pan = None,
      t_order = None, t_clips = [], t_chain = [], t_automation = None\<rparr>"

definition trackAcceptsAudio :: "track \<Rightarrow> bool" where
  "trackAcceptsAudio t \<longleftrightarrow> t_kind t \<noteq> Some Midi"

definition trackAcceptsMidi :: "track \<Rightarrow> bool" where
  "trackAcceptsMidi t \<longleftrightarrow> t_kind t \<noteq> Some Audio"

text \<open>
  \<open>Array.prototype.sort\<close> is stable, and \<open>js_sort\<close> is a stable insertion sort; where the comparison
  is a strict order, as here on keys that are not NaN, every sort gives the same result
  (\<open>orderedTracks_unique\<close>).
\<close>

fun js_insert :: "('a \<Rightarrow> 'a \<Rightarrow> jsnum) \<Rightarrow> 'a \<Rightarrow> 'a list \<Rightarrow> 'a list" where
  "js_insert cmp x [] = [x]"
| "js_insert cmp x (y # ys) =
     (if js_lt (js_int 0) (cmp x y) then y # js_insert cmp x ys else x # y # ys)"

definition js_sort :: "('a \<Rightarrow> 'a \<Rightarrow> jsnum) \<Rightarrow> 'a list \<Rightarrow> 'a list" where
  "js_sort cmp xs = foldr (js_insert cmp) xs []"

text \<open>\<open>a || b\<close> on numbers: 0 and NaN are falsy.\<close>

definition js_or :: "jsnum \<Rightarrow> jsnum \<Rightarrow> jsnum" where
  "js_or a b = (if a = NaN \<or> a = js_int 0 then b else a)"

definition display_key :: "nat \<Rightarrow> track \<Rightarrow> jsnum" where
  "display_key i t = or_else (t_order t) (js_int (int i))"

definition display_entries :: "track list \<Rightarrow> (track \<times> jsnum \<times> nat) list" where
  "display_entries ts = map (\<lambda>(i, t). (t, display_key i t, i)) (enumerate 0 ts)"

definition display_cmp :: "track \<times> jsnum \<times> nat \<Rightarrow> track \<times> jsnum \<times> nat \<Rightarrow> jsnum" where
  "display_cmp a b =
     js_or (js_sub (fst (snd a)) (fst (snd b)))
           (js_sub (js_int (int (snd (snd a)))) (js_int (int (snd (snd b)))))"

definition orderedTracks :: "project \<Rightarrow> track list" where
  "orderedTracks doc = map fst (js_sort display_cmp (display_entries (d_tracks doc)))"

section \<open>Documents\<close>

definition migrateDocument :: "project \<Rightarrow> project js_result" where
  "migrateDocument doc =
     (let doc = (if js_eq (d_schemaVersion doc) (js_int 0)
                 then doc\<lparr>d_schemaVersion := js_int 1\<rparr> else doc)
      in if js_lt (js_int SCHEMA_VERSION) (d_schemaVersion doc)
         then Inl (PlainError ''Unknown schema version'') else Inr doc)"

definition createEmptyDocument :: "jsnum \<Rightarrow> project" where
  "createEmptyDocument sampleRate =
     \<lparr>d_schemaVersion = js_int 1, d_sampleRate = sampleRate, d_masterGain = None, d_tracks = [],
      d_scenes = None, d_automation = None, d_tempoMilliBpm = None, d_timeSignature = None,
      d_tempoMap = None\<rparr>"

section \<open>Sorting\<close>

lemma mset_js_insert [simp]: "mset (js_insert cmp x ys) = add_mset x (mset ys)"
  by (induction ys) auto

lemma mset_js_sort [simp]: "mset (js_sort cmp xs) = mset xs"
  by (induction xs) (simp_all add: js_sort_def)

lemma set_js_insert [simp]: "set (js_insert cmp x ys) = insert x (set ys)"
  by (induction ys) auto

text \<open>
  With a comparison that decides a strict order \<open>R\<close> on the elements, the result is sorted.
\<close>

lemma js_insert_sorted:
  assumes dec: "\<And>y. y \<in> set ys \<Longrightarrow> js_lt (js_int 0) (cmp x y) = R y x"
    and lin: "\<And>y. y \<in> set ys \<Longrightarrow> \<not> R y x \<Longrightarrow> R x y"
    and trans: "\<And>y z. y \<in> set ys \<Longrightarrow> z \<in> set ys \<Longrightarrow> R x y \<Longrightarrow> R y z \<Longrightarrow> R x z"
    and sorted: "sorted_wrt R ys"
  shows "sorted_wrt R (js_insert cmp x ys)"
  using assms
proof (induction ys)
  case (Cons y ys)
  show ?case
  proof (cases "R y x")
    case True
    have "sorted_wrt R (js_insert cmp x ys)"
    proof (rule Cons.IH)
      show "sorted_wrt R ys" using Cons.prems(4) by simp
    qed (rule Cons.prems(1-3); simp)+
    moreover have "js_lt (js_int 0) (cmp x y)"
      using True by (simp only: Cons.prems(1) [OF list.set_intros(1)])
    moreover have "R y z" if "z \<in> set ys" for z
      using Cons.prems(4) that by simp
    ultimately show ?thesis using True by simp
  next
    case False
    then have xy: "R x y" by (rule Cons.prems(2) [OF list.set_intros(1)])
    have "R x z" if "z \<in> set ys" for z
      using Cons.prems(3) [of y z] Cons.prems(4) xy that by simp
    moreover have "\<not> js_lt (js_int 0) (cmp x y)"
      using False by (simp only: Cons.prems(1) [OF list.set_intros(1)] not_False_eq_True)
    ultimately show ?thesis using Cons.prems(4) xy by simp
  qed
qed simp

lemma js_sort_sorted:
  assumes dec: "\<And>x y. x \<in> set xs \<Longrightarrow> y \<in> set xs \<Longrightarrow> js_lt (js_int 0) (cmp x y) = R y x"
    and lin: "\<And>x y. x \<in> set xs \<Longrightarrow> y \<in> set xs \<Longrightarrow> x \<noteq> y \<Longrightarrow> R x y \<or> R y x"
    and trans: "\<And>x y z. R x y \<Longrightarrow> R y z \<Longrightarrow> R x z"
    and dist: "distinct xs"
  shows "sorted_wrt R (js_sort cmp xs)"
  using dec lin dist
proof (induction xs)
  case (Cons x xs)
  have set: "set (js_sort cmp xs) = set xs"
    by (rule mset_eq_setD) simp
  have "sorted_wrt R (js_insert cmp x (js_sort cmp xs))"
  proof (rule js_insert_sorted [where R = R])
    show "sorted_wrt R (js_sort cmp xs)"
      by (rule Cons.IH) (use Cons.prems in auto)
    show "R x z" if "R x y" "R y z" for y z
      using that by (rule trans)
    show "js_lt (js_int 0) (cmp x y) = R y x" if "y \<in> set (js_sort cmp xs)" for y
      using Cons.prems(1) [of x y] that by (simp add: set)
    show "R x y" if "y \<in> set (js_sort cmp xs)" "\<not> R y x" for y
      using Cons.prems that by (auto simp: set)
  qed
  then show ?case by (simp add: js_sort_def)
qed (simp add: js_sort_def)

section \<open>The display order\<close>

text \<open>The order \<open>orderedTracks\<close> sorts by: the key, then the index.\<close>

definition display_less :: "track \<times> jsnum \<times> nat \<Rightarrow> track \<times> jsnum \<times> nat \<Rightarrow> bool" where
  "display_less a b \<longleftrightarrow> js_lt (fst (snd a)) (fst (snd b)) \<or>
     fst (snd a) = fst (snd b) \<and> snd (snd a) < snd (snd b)"

lemma display_cmp_less:
  "fst (snd a) \<noteq> NaN \<Longrightarrow> fst (snd b) \<noteq> NaN \<Longrightarrow>
   js_lt (js_int 0) (display_cmp a b) = display_less b a"
  by (cases "fst (snd a)"; cases "fst (snd b)")
    (auto simp: display_cmp_def display_less_def js_or_def js_sub_def)

lemma display_less_trans: "display_less a b \<Longrightarrow> display_less b c \<Longrightarrow> display_less a c"
  by (cases "fst (snd a)"; cases "fst (snd b)"; cases "fst (snd c)") (auto simp: display_less_def)

lemma display_less_linear:
  "fst (snd a) \<noteq> NaN \<Longrightarrow> fst (snd b) \<noteq> NaN \<Longrightarrow> snd (snd a) \<noteq> snd (snd b) \<Longrightarrow>
   display_less a b \<or> display_less b a"
  by (cases "fst (snd a)"; cases "fst (snd b)") (auto simp: display_less_def)

lemma display_less_irrefl: "\<not> display_less a a"
  by (cases "fst (snd a)") (simp_all add: display_less_def)

lemma display_entries_alt:
  "display_entries ts = map (\<lambda>i. (ts ! i, display_key i (ts ! i), i)) [0..<length ts]"
  by (rule nth_equalityI) (simp_all add: display_entries_def nth_enumerate_eq)

definition keys_ok :: "track list \<Rightarrow> bool" where
  "keys_ok ts \<longleftrightarrow> (\<forall>t\<in>set ts. t_order t \<noteq> Some NaN)"

lemma display_key_ok: "keys_ok ts \<Longrightarrow> t \<in> set ts \<Longrightarrow> display_key i t \<noteq> NaN"
  by (auto simp: keys_ok_def display_key_def or_else_def split: option.splits)

text \<open>A list of indices that shows every track once, in order of key and then of creation.\<close>

definition shows_in_order :: "track list \<Rightarrow> nat list \<Rightarrow> bool" where
  "shows_in_order ts p \<longleftrightarrow> distinct p \<and> set p = {..<length ts} \<and>
     sorted_wrt (\<lambda>i j. js_lt (display_key i (ts ! i)) (display_key j (ts ! j)) \<or>
       display_key i (ts ! i) = display_key j (ts ! j) \<and> i < j) p"

lemma sorted_wrt_unique:
  assumes "sorted_wrt R xs" and "sorted_wrt R ys" and "set xs = set ys"
    and "\<And>x y. R x y \<Longrightarrow> R y x \<Longrightarrow> False"
  shows "xs = ys"
  using assms(1-3)
proof (induction xs arbitrary: ys)
  case (Cons x xs)
  then obtain y ys' where ys: "ys = y # ys'" by (cases ys) auto
  have irrefl: "\<not> R z z" for z using assms(4) by blast
  have "x = y"
  proof (rule ccontr)
    assume "x \<noteq> y"
    then have "x \<in> set ys'" and "y \<in> set xs" using Cons.prems(3) by (auto simp: ys)
    then have "R y x" and "R x y" using Cons.prems(1,2) by (simp_all add: ys)
    then show False using assms(4) by blast
  qed
  moreover from this have "set xs = set ys'"
  proof -
    have "x \<notin> set xs" "y \<notin> set ys'"
      using Cons.prems(1,2) irrefl by (auto simp: ys)
    then show ?thesis using Cons.prems(3) \<open>x = y\<close> by (auto simp: ys)
  qed
  ultimately show ?case using Cons.IH [of ys'] Cons.prems(1,2) by (simp add: ys)
qed simp

lemma orderedTracks_entries:
  assumes "keys_ok (d_tracks doc)"
  shows "sorted_wrt display_less (js_sort display_cmp (display_entries (d_tracks doc)))"
proof (rule js_sort_sorted)
  fix a b assume ab: "a \<in> set (display_entries (d_tracks doc))" "b \<in> set (display_entries (d_tracks doc))"
  then have ok: "fst (snd a) \<noteq> NaN" "fst (snd b) \<noteq> NaN"
    using display_key_ok [OF assms] by (auto simp: display_entries_alt)
  show "js_lt (js_int 0) (display_cmp a b) = display_less b a" by (rule display_cmp_less [OF ok])
  show "display_less a b \<or> display_less b a" if "a \<noteq> b"
    by (rule display_less_linear [OF ok]) (use ab that in \<open>auto simp: display_entries_alt\<close>)
next
  show "display_less a c" if "display_less a b" "display_less b c" for a b c
    using that by (rule display_less_trans)
  have "distinct (map (snd \<circ> snd) (display_entries (d_tracks doc)))"
    by (simp add: display_entries_alt comp_def)
  then show "distinct (display_entries (d_tracks doc))" by (simp add: distinct_map)
qed

lemma orderedTracks_mset: "mset (orderedTracks doc) = mset (d_tracks doc)"
proof -
  have "map fst (display_entries (d_tracks doc)) = d_tracks doc"
    by (simp add: display_entries_alt comp_def map_nth)
  then show ?thesis
    by (simp add: orderedTracks_def) (metis mset_map)
qed

section \<open>Properties\<close>

lemma orderedTracks_order:
  assumes "keys_ok (d_tracks doc)"
  shows "\<exists>!p. shows_in_order (d_tracks doc) p \<and> orderedTracks doc = map (\<lambda>i. d_tracks doc ! i) p"
proof -
  let ?ts = "d_tracks doc" and ?es = "js_sort display_cmp (display_entries (d_tracks doc))"
  let ?p = "map (snd \<circ> snd) ?es"
  have mset: "mset ?es = mset (display_entries ?ts)" by simp
  have set: "set ?es = (\<lambda>i. (?ts ! i, display_key i (?ts ! i), i)) ` {..<length ?ts}"
    using mset_eq_setD [OF mset] by (simp add: display_entries_alt atLeast0LessThan)
  have "mset ?p = mset (map (snd \<circ> snd) (display_entries ?ts))"
    by (simp only: mset_map mset)
  also have "map (snd \<circ> snd) (display_entries ?ts) = [0..<length ?ts]"
    by (simp add: display_entries_alt comp_def)
  finally have "mset ?p = mset [0..<length ?ts]" .
  then have dist: "distinct ?p" by (metis distinct_upt mset_eq_imp_distinct_iff)
  have eq: "orderedTracks doc = map (\<lambda>i. ?ts ! i) ?p"
    unfolding orderedTracks_def map_map by (rule map_cong) (auto simp: set)
  have "sorted_wrt (\<lambda>a b. js_lt (display_key (snd (snd a)) (?ts ! snd (snd a)))
      (display_key (snd (snd b)) (?ts ! snd (snd b))) \<or>
      display_key (snd (snd a)) (?ts ! snd (snd a)) = display_key (snd (snd b)) (?ts ! snd (snd b)) \<and>
      snd (snd a) < snd (snd b)) ?es"
    by (rule sorted_wrt_mono_rel [OF _ orderedTracks_entries [OF assms]])
      (auto simp: set display_less_def)
  then have "shows_in_order ?ts ?p"
    using dist by (simp add: shows_in_order_def sorted_wrt_map set image_image)
  moreover have "q = ?p" if "shows_in_order ?ts q" for q
  proof (rule sorted_wrt_unique)
    let ?R = "\<lambda>i j. js_lt (display_key i (?ts ! i)) (display_key j (?ts ! j)) \<or>
       display_key i (?ts ! i) = display_key j (?ts ! j) \<and> i < j"
    show "sorted_wrt ?R q" using that by (simp add: shows_in_order_def)
    show "sorted_wrt ?R ?p" using \<open>shows_in_order ?ts ?p\<close> by (simp add: shows_in_order_def)
    show "set q = set ?p"
      using that \<open>shows_in_order ?ts ?p\<close> by (simp add: shows_in_order_def)
    show False if "?R i j" "?R j i" for i j
      using that by (cases "display_key i (?ts ! i)"; cases "display_key j (?ts ! j)") auto
  qed
  ultimately show ?thesis using eq by blast
qed

definition witness_track :: "string \<Rightarrow> jsnum option \<Rightarrow> track" where
  "witness_track i k = (makeTrackDef i None i)\<lparr>t_order := k\<rparr>"

text \<open>C38. \<open>orderedTracks\<close> shows every track exactly once, by increasing \<open>order ?? index\<close> and, on equal
  keys, in order of creation; this determines the display order, so every peer shows the same one.\<close>

theorem orderedTracks_spec:
  assumes "keys_ok (d_tracks doc)"
  shows "\<exists>!p. shows_in_order (d_tracks doc) p \<and> orderedTracks doc = map (\<lambda>i. d_tracks doc ! i) p"
  by (rule orderedTracks_order [OF assms])

theorem orderedTracks_spec_witness:
  "\<exists>!p. shows_in_order [witness_track ''a'' None, witness_track ''b'' (Some (Fin (-1)))] p \<and>
     orderedTracks ((createEmptyDocument (js_int 48000))\<lparr>d_tracks :=
       [witness_track ''a'' None, witness_track ''b'' (Some (Fin (-1)))]\<rparr>) =
     map (\<lambda>i. [witness_track ''a'' None, witness_track ''b'' (Some (Fin (-1)))] ! i) p"
  using orderedTracks_spec [of "(createEmptyDocument (js_int 48000))\<lparr>d_tracks :=
       [witness_track ''a'' None, witness_track ''b'' (Some (Fin (-1)))]\<rparr>"]
  by (simp add: keys_ok_def witness_track_def)

end
