(* ===== verification/Geometry.thy ===== *)
theory Geometry
  imports Schema
begin

text \<open>
  The geometry branch point, \<open>web/src/document/geometry.ts\<close>: where a clip or a note stands in
  samples, whichever domain it lives in. The resolver is memoised per document object in the
  source; a document is a value here, so the memo is the function itself.
\<close>

section \<open>The code\<close>

record resolver =
  r_map :: "tempo_point list"
  r_S :: "int list"
  r_sr :: jsnum

definition resolverFor :: "project \<Rightarrow> resolver js_result" where
  "resolverFor doc =
     (let m = effectiveTempoMap doc in
      js_bind (buildBoundaryTable m (d_sampleRate doc)) (\<lambda>S.
        Inr \<lparr>r_map = m, r_S = S, r_sr = d_sampleRate doc\<rparr>))"

definition at_tick :: "resolver \<Rightarrow> jsnum \<Rightarrow> jsnum js_result" where
  "at_tick r t = samplesAtTick (r_map r) (r_S r) (r_sr r) t"

text \<open>\<open>samplesAtTick(..., b) - samplesAtTick(..., a)\<close>\<close>

definition tick_span :: "resolver \<Rightarrow> jsnum \<Rightarrow> jsnum \<Rightarrow> jsnum js_result" where
  "tick_span r a b =
     js_bind (at_tick r b) (\<lambda>y. js_bind (at_tick r a) (\<lambda>x. Inr (js_sub y x)))"

definition clipStartSamples :: "clip \<Rightarrow> project \<Rightarrow> jsnum js_result" where
  "clipStartSamples c doc =
     (case c_startTick c of
        Some st \<Rightarrow> js_bind (resolverFor doc) (\<lambda>r. at_tick r st)
      | None \<Rightarrow> Inr (or_else (c_startSample c) (js_int 0)))"

definition clipLengthSamples :: "clip \<Rightarrow> project \<Rightarrow> jsnum js_result" where
  "clipLengthSamples c doc =
     (case (c_startTick c, c_lengthTick c) of
        (Some st, Some len) \<Rightarrow> js_bind (resolverFor doc) (\<lambda>r. tick_span r st (js_add st len))
      | _ \<Rightarrow> Inr (or_else (c_lengthSamples c) (js_int 0)))"

definition clipEndSamples :: "clip \<Rightarrow> project \<Rightarrow> jsnum js_result" where
  "clipEndSamples c doc =
     js_bind (clipStartSamples c doc) (\<lambda>s. js_bind (clipLengthSamples c doc) (\<lambda>l. Inr (js_add s l)))"

definition noteStartSamples :: "midi_note \<Rightarrow> clip \<Rightarrow> project \<Rightarrow> jsnum js_result" where
  "noteStartSamples n c doc =
     (case (c_startTick c, n_startTick n) of
        (Some st, Some nst) \<Rightarrow> js_bind (resolverFor doc) (\<lambda>r. tick_span r st (js_add st nst))
      | _ \<Rightarrow> Inr (or_else (n_startSample n) (js_int 0)))"

definition noteLengthSamples :: "midi_note \<Rightarrow> clip \<Rightarrow> project \<Rightarrow> jsnum js_result" where
  "noteLengthSamples n c doc =
     (case (c_startTick c, n_startTick n, n_lengthTick n) of
        (Some st, Some nst, Some len) \<Rightarrow>
          js_bind (resolverFor doc) (\<lambda>r.
            let abs = js_add st nst in tick_span r abs (js_add abs len))
      | _ \<Rightarrow> Inr (or_else (n_lengthSamples n) (js_int 0)))"

definition sampleToTick :: "project \<Rightarrow> jsnum \<Rightarrow> jsnum js_result" where
  "sampleToTick doc s =
     js_bind (resolverFor doc) (\<lambda>r. tickAtSample (r_map r) (r_S r) (r_sr r) s)"

definition tickToSample :: "project \<Rightarrow> jsnum \<Rightarrow> jsnum js_result" where
  "tickToSample doc t = js_bind (resolverFor doc) (\<lambda>r. at_tick r t)"

lemmas geometry_defs = clipStartSamples_def clipLengthSamples_def clipEndSamples_def
  noteStartSamples_def noteLengthSamples_def tickToSample_def tick_span_def

section \<open>Resolution on a well-formed document\<close>

definition wf_time :: "project \<Rightarrow> bool" where
  "wf_time doc \<longleftrightarrow> js_int_from 1 (d_sampleRate doc) \<and>
     wf_tempo_input (or_else (d_tempoMilliBpm doc) (js_int 120000)) (or_else (d_tempoMap doc) [])"

text \<open>The position of a tick in samples, as the integer kernel computes it.\<close>

definition position :: "project \<Rightarrow> rat \<Rightarrow> int" where
  "position doc x =
     isamples (js_to_int (d_sampleRate doc)) (tempo_ints (effectiveTempoMap doc)) (tick_of x)"

lemma wf_time_cases:
  assumes "wf_time doc"
  obtains r ts R where "d_sampleRate doc = js_int R" and "0 < R" and "wf_tempo ts"
    and "ts = tempo_ints (effectiveTempoMap doc)"
    and "r = \<lparr>r_map = tempo_of ts, r_S = btable R ts, r_sr = js_int R\<rparr>"
    and "resolverFor doc = Inr r"
    and "\<And>x. at_tick r (Fin x) = Inr (js_int (position doc x))"
proof -
  have "wf_map (effectiveTempoMap doc)"
    unfolding effectiveTempoMap_def
    by (rule effectiveMap_wf) (use assms in \<open>simp add: wf_time_def\<close>)
  moreover have "js_int_from 1 (d_sampleRate doc)" using assms by (simp add: wf_time_def)
  ultimately obtain ts R where m: "effectiveTempoMap doc = tempo_of ts"
      "ts = tempo_ints (effectiveTempoMap doc)" "wf_tempo ts" "d_sampleRate doc = js_int R"
      "R = js_to_int (d_sampleRate doc)" "0 < R"
      "buildBoundaryTable (effectiveTempoMap doc) (d_sampleRate doc) = Inr (btable R ts)"
    by (rule wf_map_cases)
  show ?thesis
    by (rule that [OF m(4,6,3,2) refl])
      (use m samplesAtTick_isamples [OF m(3,6)] in
        \<open>simp_all add: resolverFor_def at_tick_def position_def Let_def\<close>)
qed

lemma at_tick_position:
  assumes "wf_time doc"
  obtains r where "resolverFor doc = Inr r" and "\<And>x. at_tick r (Fin x) = Inr (js_int (position doc x))"
  using wf_time_cases [OF assms] by metis

lemma position_mono:
  assumes "wf_time doc" and "x \<le> y"
  shows "position doc x \<le> position doc y"
proof -
  have "tick_of x \<le> tick_of y"
    using assms(2) floor_mono [of "x + 1/2" "y + 1/2"] by (simp add: tick_of_def)
  then show ?thesis
    using wf_time_cases [OF assms(1)] isamples_mono [OF _ _ tick_of_nonneg]
    by (metis floor_of_int js_to_int.simps(1) position_def)
qed

lemma position_nonneg: "wf_time doc \<Longrightarrow> 0 \<le> position doc x"
  using wf_time_cases isamples_nonneg [OF _ _ tick_of_nonneg]
  by (metis floor_of_int js_to_int.simps(1) position_def)

section \<open>Musical clips and notes\<close>

lemma clipStart_musical:
  "wf_time doc \<Longrightarrow> c_startTick c = Some (Fin a) \<Longrightarrow>
   clipStartSamples c doc = Inr (js_int (position doc a))"
  by (elim at_tick_position) (simp add: geometry_defs)

lemma clipLength_musical:
  "wf_time doc \<Longrightarrow> c_startTick c = Some (Fin a) \<Longrightarrow> c_lengthTick c = Some (Fin l) \<Longrightarrow>
   clipLengthSamples c doc = Inr (js_int (position doc (a + l) - position doc a))"
  by (elim at_tick_position) (simp add: geometry_defs del: of_int_diff)

lemma noteStart_musical:
  "wf_time doc \<Longrightarrow> c_startTick c = Some (Fin a) \<Longrightarrow> n_startTick n = Some (Fin b) \<Longrightarrow>
   noteStartSamples n c doc = Inr (js_int (position doc (a + b) - position doc a))"
  by (elim at_tick_position) (simp add: geometry_defs del: of_int_diff)

lemma noteLength_musical:
  "wf_time doc \<Longrightarrow> c_startTick c = Some (Fin a) \<Longrightarrow> n_startTick n = Some (Fin b) \<Longrightarrow>
   n_lengthTick n = Some (Fin l) \<Longrightarrow>
   noteLengthSamples n c doc = Inr (js_int (position doc (a + b + l) - position doc (a + b)))"
  by (elim at_tick_position) (simp add: geometry_defs Let_def del: of_int_diff)

lemma clipEnd_musical:
  "wf_time doc \<Longrightarrow> c_startTick c = Some (Fin a) \<Longrightarrow> c_lengthTick c = Some (Fin l) \<Longrightarrow>
   clipEndSamples c doc = Inr (js_int (position doc (a + l)))"
  by (simp add: clipEndSamples_def clipStart_musical clipLength_musical)

section \<open>Properties\<close>

text \<open>Seamless adjacency: a musical clip that starts at the tick where another ends starts at the
  sample where the other ends, through every tempo change and rounding, and its length in samples
  is not negative.\<close>

theorem musical_clips_adjacent:
  assumes "wf_time doc" and "c_startTick c = Some (Fin a)" and "c_lengthTick c = Some (Fin l)"
    and "0 \<le> l" and "c_startTick c' = Some (Fin (a + l))"
  shows "clipEndSamples c doc = clipStartSamples c' doc \<and>
    (\<exists>n. clipLengthSamples c doc = Inr (js_int n) \<and> 0 \<le> n)"
  using assms position_mono [OF assms(1), of a "a + l"]
  by (auto simp: clipEnd_musical clipStart_musical clipLength_musical simp del: of_int_diff)

definition blank_clip :: clip where
  "blank_clip = \<lparr>c_id = ''c'', c_name = None, c_assetHash = [], c_startSample = None,
     c_lengthSamples = None, c_offsetSamples = Some (js_int 0), c_fadeInSamples = None,
     c_fadeOutSamples = None, c_notes = Some [], c_sceneId = None, c_startTick = None,
     c_lengthTick = None\<rparr>"

definition blank_note :: midi_note where
  "blank_note = \<lparr>n_id = None, n_pitch = js_int 60, n_velocity = js_int 100, n_startSample = None,
     n_lengthSamples = None, n_startTick = None, n_lengthTick = None\<rparr>"

lemma wf_time_empty: "wf_time (createEmptyDocument (js_int 48000))"
  by (simp add: wf_time_def createEmptyDocument_def wf_tempo_input_def)

theorem musical_clips_adjacent_witness:
  "clipEndSamples (blank_clip\<lparr>c_startTick := Some (Fin 7), c_lengthTick := Some (Fin 3)\<rparr>)
     (createEmptyDocument (js_int 48000)) =
   clipStartSamples (blank_clip\<lparr>c_startTick := Some (Fin 10)\<rparr>) (createEmptyDocument (js_int 48000))"
  by (rule musical_clips_adjacent [OF wf_time_empty, of _ 7 3, THEN conjunct1]) simp_all

text \<open>A note that lies inside its musical clip in ticks lies inside it in samples: its start is not
  negative and its end does not pass the end of the clip.\<close>

theorem musical_note_inside_clip:
  assumes "wf_time doc" and "c_startTick c = Some (Fin a)" and "c_lengthTick c = Some (Fin l)"
    and "n_startTick n = Some (Fin b)" and "n_lengthTick n = Some (Fin k)"
    and "0 \<le> b" and "0 \<le> k" and "b + k \<le> l"
  shows "\<exists>s len clen. noteStartSamples n c doc = Inr (js_int s) \<and>
    noteLengthSamples n c doc = Inr (js_int len) \<and> clipLengthSamples c doc = Inr (js_int clen) \<and>
    0 \<le> s \<and> 0 \<le> len \<and> s + len \<le> clen"
  using assms position_mono [OF assms(1), of a "a + b"] position_mono [OF assms(1), of "a + b" "a + b + k"]
    position_mono [OF assms(1), of "a + b + k" "a + l"]
  by (simp add: noteStart_musical noteLength_musical clipLength_musical del: of_int_diff)

theorem musical_note_inside_clip_witness:
  "\<exists>s len clen.
     noteStartSamples (blank_note\<lparr>n_startTick := Some (Fin 5), n_lengthTick := Some (Fin 90)\<rparr>)
       (blank_clip\<lparr>c_startTick := Some (Fin 7), c_lengthTick := Some (Fin 100)\<rparr>)
       (createEmptyDocument (js_int 48000)) = Inr (js_int s) \<and>
     noteLengthSamples (blank_note\<lparr>n_startTick := Some (Fin 5), n_lengthTick := Some (Fin 90)\<rparr>)
       (blank_clip\<lparr>c_startTick := Some (Fin 7), c_lengthTick := Some (Fin 100)\<rparr>)
       (createEmptyDocument (js_int 48000)) = Inr (js_int len) \<and>
     clipLengthSamples (blank_clip\<lparr>c_startTick := Some (Fin 7), c_lengthTick := Some (Fin 100)\<rparr>)
       (createEmptyDocument (js_int 48000)) = Inr (js_int clen) \<and>
     0 \<le> s \<and> 0 \<le> len \<and> s + len \<le> clen"
  by (rule musical_note_inside_clip [OF wf_time_empty, of _ 7 100 _ 5 90]) simp_all

end
