(* ===== verification/Automation.thy ===== *)
theory Automation
  imports Schema
begin

text \<open>
  The envelope, \<open>web/src/document/automation.ts\<close>: \<open>automationValueAt\<close> with its scan over the points,
  its bounds and its value at the points of a sorted lane.
\<close>

section \<open>The code\<close>

text \<open>\<open>a.v + (b.v - a.v) * ((t - a.t) / dt)\<close>\<close>

definition interpolate :: "auto_point \<Rightarrow> auto_point \<Rightarrow> jsnum \<Rightarrow> jsnum" where
  "interpolate a b t =
     js_add (pt_v a) (js_mul (js_sub (pt_v b) (pt_v a))
       (js_div (js_sub t (pt_t a)) (js_sub (pt_t b) (pt_t a))))"

text \<open>The loop over \<open>i\<close>, for the point \<open>a\<close> before the rest.\<close>

fun scan_points :: "jsnum \<Rightarrow> jsnum \<Rightarrow> auto_point \<Rightarrow> auto_point list \<Rightarrow> jsnum" where
  "scan_points t lastv a [] = lastv"
| "scan_points t lastv a (b # bs) =
     (if js_lt t (pt_t b)
      then (if js_le (js_sub (pt_t b) (pt_t a)) (js_int 0) then pt_v b else interpolate a b t)
      else scan_points t lastv b bs)"

definition automationValueAt :: "lane \<Rightarrow> jsnum \<Rightarrow> jsnum option" where
  "automationValueAt lane t =
     (if \<not> l_enabled lane then None
      else case l_points lane of
        [] \<Rightarrow> None
      | p # ps \<Rightarrow>
          if js_le t (pt_t p) then Some (pt_v p)
          else if js_le (pt_t (last (p # ps))) t then Some (pt_v (last (p # ps)))
          else Some (scan_points t (pt_v (last (p # ps))) p ps))"

section \<open>Lemmas\<close>

text \<open>Finite points; values between two bounds.\<close>

definition points_within :: "rat \<Rightarrow> rat \<Rightarrow> auto_point list \<Rightarrow> bool" where
  "points_within lo hi ps \<longleftrightarrow>
     (\<forall>p\<in>set ps. js_finite (pt_t p) \<and> js_between (Fin lo) (Fin hi) (pt_v p))"

definition points_sorted :: "auto_point list \<Rightarrow> bool" where
  "points_sorted ps \<longleftrightarrow> sorted_wrt (\<lambda>p q. js_le (pt_t p) (pt_t q)) ps"

lemma js_between_FinE:
  assumes "js_between (Fin lo) (Fin hi) v"
  obtains x where "v = Fin x" and "lo \<le> x" and "x \<le> hi"
  using assms by (cases v) (auto simp: js_between_def js_le_def js_eq_def)

lemma js_between_Fin [simp]: "js_between (Fin lo) (Fin hi) (Fin x) \<longleftrightarrow> lo \<le> x \<and> x \<le> hi"
  by (simp add: js_between_def)

lemma js_finiteE: "js_finite v \<Longrightarrow> (\<And>x. v = Fin x \<Longrightarrow> P) \<Longrightarrow> P"
  by (cases v) simp_all

lemma affine_between:
  fixes u v :: rat
  assumes "0 \<le> k" and "k \<le> 1"
  shows "min u v \<le> u + (v - u) * k" and "u + (v - u) * k \<le> max u v"
proof -
  have eq: "u + (v - u) * k = (1 - k) * u + k * v" by (simp add: algebra_simps)
  have "(1 - k) * min u v + k * min u v \<le> (1 - k) * u + k * v"
    using assms by (intro add_mono mult_left_mono) simp_all
  then show "min u v \<le> u + (v - u) * k" unfolding eq by (simp add: algebra_simps)
  have "(1 - k) * u + k * v \<le> (1 - k) * max u v + k * max u v"
    using assms by (intro add_mono mult_left_mono) simp_all
  then show "u + (v - u) * k \<le> max u v" unfolding eq by (simp add: algebra_simps)
qed

lemma interpolate_Fin:
  "pt_t a = Fin s \<Longrightarrow> pt_t b = Fin s' \<Longrightarrow> pt_v a = Fin u \<Longrightarrow> pt_v b = Fin v \<Longrightarrow> s < s' \<Longrightarrow>
   interpolate a b (Fin x) = Fin (u + (v - u) * ((x - s) / (s' - s)))"
  by (simp add: interpolate_def js_sub_def)

lemma interpolate_between:
  assumes "pt_t a = Fin s" and "pt_t b = Fin s'" and "s \<le> x" and "x < s'"
    and "js_between (Fin lo) (Fin hi) (pt_v a)" and "js_between (Fin lo) (Fin hi) (pt_v b)"
  shows "js_between (Fin lo) (Fin hi) (interpolate a b (Fin x))"
proof -
  obtain u where u: "pt_v a = Fin u" "lo \<le> u" "u \<le> hi" using assms(5) by (rule js_between_FinE)
  obtain v where v: "pt_v b = Fin v" "lo \<le> v" "v \<le> hi" using assms(6) by (rule js_between_FinE)
  have "0 \<le> (x - s) / (s' - s)" "(x - s) / (s' - s) \<le> 1"
    using assms(3,4) by (simp_all add: divide_le_eq)
  from affine_between [OF this, of u v] u v
  have "lo \<le> u + (v - u) * ((x - s) / (s' - s)) \<and> u + (v - u) * ((x - s) / (s' - s)) \<le> hi"
    by linarith
  then show ?thesis
    using assms(1-4) u v by (simp add: interpolate_Fin)
qed

lemma scan_points_between:
  assumes "points_within lo hi (a # ps)" and "js_between (Fin lo) (Fin hi) lastv"
    and "js_le (pt_t a) (Fin x)"
  shows "js_between (Fin lo) (Fin hi) (scan_points (Fin x) lastv a ps)"
  using assms
proof (induction ps arbitrary: a)
  case (Cons b bs)
  have fin: "js_finite (pt_t a)" "js_finite (pt_t b)" "js_between (Fin lo) (Fin hi) (pt_v a)"
      "js_between (Fin lo) (Fin hi) (pt_v b)" "points_within lo hi (b # bs)"
    using Cons.prems(1) by (simp_all add: points_within_def)
  obtain s s' where s: "pt_t a = Fin s" "pt_t b = Fin s'"
    using fin(1,2) by (auto elim!: js_finiteE)
  show ?case
  proof (cases "x < s'")
    case True
    then show ?thesis
      using fin Cons.prems(3) interpolate_between [OF s _ _ fin(3,4), of x]
      by (simp add: s js_sub_def)
  next
    case False
    then show ?thesis
      using Cons.IH [OF fin(5) Cons.prems(2)] by (simp add: s)
  qed
qed simp

lemma points_within_last: "points_within lo hi (p # ps) \<Longrightarrow> js_between (Fin lo) (Fin hi) (pt_v (last (p # ps)))"
  by (auto simp: points_within_def)

text \<open>On a sorted lane the scan returns the value of a point at its own time.\<close>

lemma scan_points_at:
  assumes "points_within lo hi (a # ps)" and "points_sorted (a # ps)" and "i + 1 < length ps"
    and "pt_t (ps ! i) = Fin x" and "js_lt (Fin x) (pt_t (ps ! (i + 1)))"
  shows "scan_points (Fin x) lastv a ps = pt_v (ps ! i)"
  using assms
proof (induction ps arbitrary: a i)
  case (Cons b bs)
  have "js_le (pt_t b) (Fin x)"
  proof (cases i)
    case (Suc k)
    then have "bs ! k \<in> set bs" using Cons.prems(3) by simp
    then have "js_le (pt_t b) (pt_t (bs ! k))" using Cons.prems(2) by (simp add: points_sorted_def)
    then show ?thesis using Cons.prems(4) by (simp add: Suc)
  qed (use Cons.prems(4) in simp)
  then have no: "\<not> js_lt (Fin x) (pt_t b)"
    using Cons.prems(1) by (auto simp: points_within_def elim!: js_finiteE)
  show ?case
  proof (cases i)
    case 0
    then obtain c cs where bs: "bs = c # cs" using Cons.prems(3) by (cases bs) auto
    obtain s' where s': "pt_t c = Fin s'" "x < s'"
      using Cons.prems(1,5) by (auto simp: points_within_def bs 0 elim!: js_finiteE)
    obtain u v where uv: "pt_v b = Fin u" "pt_v c = Fin v"
      using Cons.prems(1) by (auto simp: points_within_def bs elim!: js_between_FinE)
    have b: "pt_t b = Fin x" using Cons.prems(4) by (simp add: 0)
    show ?thesis
      using s' uv b by (simp add: bs 0 js_sub_def interpolate_Fin [of b x c s' u v])
  next
    case (Suc k)
    then show ?thesis
      using Cons.IH [of b k] Cons.prems no by (simp add: points_within_def points_sorted_def)
  qed
qed simp

section \<open>Properties\<close>

text \<open>The envelope never leaves the range of its points: with finite points whose values lie between
  two bounds, an enabled lane that has points has a value at every finite time, and that value lies
  between the bounds; in any order of the points.\<close>

theorem automationValueAt_between:
  assumes "points_within lo hi (l_points lane)"
  shows "(case automationValueAt lane (Fin x) of
      None \<Rightarrow> \<not> l_enabled lane \<or> l_points lane = []
    | Some v \<Rightarrow> js_between (Fin lo) (Fin hi) v)"
proof (cases "l_points lane")
  case (Cons p ps)
  obtain s where s: "pt_t p = Fin s" using assms by (auto simp: Cons points_within_def elim!: js_finiteE)
  have "js_between (Fin lo) (Fin hi) (pt_v p)" using assms by (simp add: Cons points_within_def)
  moreover have "js_between (Fin lo) (Fin hi) (pt_v (last (p # ps)))"
    by (rule points_within_last) (use assms in \<open>simp add: Cons\<close>)
  moreover from this have "js_between (Fin lo) (Fin hi) (scan_points (Fin x) (pt_v (last (p # ps))) p ps)"
    if "s < x"
    by (rule scan_points_between [rotated]) (use assms that in \<open>simp_all add: Cons s\<close>)
  ultimately show ?thesis
    by (simp add: automationValueAt_def Cons s)
qed (simp add: automationValueAt_def)

definition example_lane :: lane where
  "example_lane = \<lparr>l_id = ''lane'', l_target = \<lparr>lt_processorId = None, lt_param = ''gain''\<rparr>,
     l_points = [\<lparr>pt_t = Fin 10, pt_v = Fin 0\<rparr>, \<lparr>pt_t = Fin 20, pt_v = Fin 1\<rparr>,
       \<lparr>pt_t = Fin 40, pt_v = Fin (1/2)\<rparr>],
     l_enabled = True, l_timeBase = None\<rparr>"

theorem automationValueAt_between_witness:
  "automationValueAt example_lane (Fin 25) = Some (Fin (7/8)) \<and>
   (case automationValueAt example_lane (Fin 25) of
      None \<Rightarrow> False | Some v \<Rightarrow> js_between (Fin 0) (Fin 1) v)"
  using automationValueAt_between [of 0 1 example_lane 25]
  by (simp add: points_within_def example_lane_def automationValueAt_def interpolate_def js_sub_def)

text \<open>An enabled lane with sorted finite points passes through its points: at the time of a point that
  no other shares with it, the value is the value of that point.\<close>

theorem automationValueAt_point:
  assumes "l_enabled lane" and "points_within lo hi (l_points lane)" and "points_sorted (l_points lane)"
    and "i < length (l_points lane)"
    and "\<forall>j<length (l_points lane). j \<noteq> i \<longrightarrow> pt_t (l_points lane ! j) \<noteq> pt_t (l_points lane ! i)"
  shows "automationValueAt lane (pt_t (l_points lane ! i)) = Some (pt_v (l_points lane ! i))"
proof -
  obtain p ps where P: "l_points lane = p # ps" using assms(4) by (cases "l_points lane") auto
  have "js_finite (pt_t q)" if "q \<in> set (p # ps)" for q
    using that assms(2) by (auto simp: P points_within_def)
  then obtain x s z where x: "pt_t ((p # ps) ! i) = Fin x" and s: "pt_t p = Fin s"
      and z: "pt_t (last (p # ps)) = Fin z"
    using assms(4) unfolding P by (metis js_finiteE last_in_set list.distinct(1) list.set_intros(1) nth_mem)
  have mono: "js_le (pt_t ((p # ps) ! j)) (pt_t ((p # ps) ! k))" if "j < k" "k < length (p # ps)" for j k
    using assms(3) that unfolding P points_sorted_def by (metis sorted_wrt_nth_less)
  have last: "last (p # ps) = (p # ps) ! length ps" by (simp add: last_conv_nth)
  have zl: "pt_t ((p # ps) ! length ps) = Fin z" using z unfolding last .
  show ?thesis
  proof (cases i)
    case 0
    then show ?thesis using assms(1) by (simp add: automationValueAt_def P s)
  next
    case (Suc k)
    then have k: "k < length ps" using assms(4) by (simp add: P)
    have "s < x"
      using mono [of 0 i] assms(5) [rule_format, of 0] k x s
      by (auto simp: P Suc order_less_le)
    show ?thesis
    proof (cases "i = length ps")
      case True
      then have "z = x" using x z unfolding last by simp
      then show ?thesis
        using assms(1) True \<open>s < x\<close> x z
        by (simp add: automationValueAt_def P s del: last.simps) (simp add: last del: last.simps)
    next
      case False
      then have k1: "k + 1 < length ps" using k Suc by simp
      have lt: "js_lt (Fin x) (pt_t (ps ! (k + 1)))" 
        using mono [of i "i + 1"] assms(5) [rule_format, of "i + 1"] k1 x
        by (auto simp: P Suc js_le_def js_eq_def)
      have "x < z"
        using mono [of i "length ps"] assms(5) [rule_format, of "length ps"] False k x zl
        by (auto simp: P Suc order_less_le)
      have "scan_points (Fin x) (pt_v (last (p # ps))) p ps = pt_v (ps ! k)"
        by (rule scan_points_at [of lo hi]) (use assms(2,3) k1 lt x in \<open>simp_all add: P Suc\<close>)
      then show ?thesis
        using assms(1) \<open>s < x\<close> \<open>x < z\<close> x s z by (simp add: automationValueAt_def P Suc)
    qed
  qed
qed

theorem automationValueAt_point_witness:
  "automationValueAt example_lane (Fin 20) = Some (Fin 1)"
  using automationValueAt_point [of example_lane 0 1 1]
  by (simp add: example_lane_def points_within_def points_sorted_def less_Suc_eq all_conj_distrib)

end
