(* ===== verification/Validate.thy ===== *)
theory Validate
  imports Schema
begin

text \<open>
  The defensive layer over a document that a peer may have written: the coercions of
  \<open>web/src/document/sanitize.ts\<close> and the fault list of \<open>web/src/document/validate.ts\<close>. A value of
  type \<open>unknown\<close> is an option: \<open>None\<close> stands for anything that is not a number.
\<close>

section \<open>Coercions\<close>

definition MAX_SAMPLES :: int where
  "MAX_SAMPLES = 48000 * 60 * 60 * 24"

definition clampSamples :: "jsnum option \<Rightarrow> jsnum" where
  "clampSamples n =
     (let v = (case n of Some v \<Rightarrow> if js_finite v then v else js_int 0 | None \<Rightarrow> js_int 0)
      in js_clamp (js_int 0) (js_int MAX_SAMPLES) v)"

definition clampTick :: "jsnum option \<Rightarrow> jsnum" where
  "clampTick n =
     (let v = (case n of Some v \<Rightarrow> if js_finite v then js_round v else js_int 0 | None \<Rightarrow> js_int 0)
      in js_clamp (js_int 0) (js_int MAX_TICK) v)"

definition clipDomainViolation :: "jsnum option \<Rightarrow> jsnum option \<Rightarrow> bool" where
  "clipDomainViolation startSample startTick \<longleftrightarrow> startTick \<noteq> None \<and> startSample \<noteq> None"

text \<open>
  \<open>CSS.escape\<close> is the platform's; without it the three characters that end a quoted attribute
  selector are dropped.
\<close>

definition cssId :: "(string \<Rightarrow> string) option \<Rightarrow> string \<Rightarrow> string" where
  "cssId escape i =
     (case escape of
        Some f \<Rightarrow> f i
      | None \<Rightarrow> filter (\<lambda>c. \<not> (c = CHR 0x22 \<or> c = CHR 0x5C \<or> c = CHR '']'')) i)"

section \<open>Faults\<close>

text \<open>
  A fault is the kind of the message and the place it names; the wording and the numbers printed in
  it are left out.
\<close>

datatype fault =
    SchemaBelowOne
  | SchemaUnknown
  | SampleRateNotPositive
  | TrackIdEmpty nat
  | TrackIdDuplicate nat
  | TrackGainRange nat
  | TrackPanRange nat
  | ClipIdEmpty nat nat
  | ClipIdDuplicate nat nat
  | ClipTickNegative nat nat
  | ClipLengthTick nat nat
  | ClipStart nat nat
  | ClipLength nat nat
  | ClipOffset nat nat
  | DeviceIdEmpty nat nat
  | DeviceTypeEmpty nat nat

text \<open>\<open>if (b) errors.push(e)\<close>\<close>

definition fault_if :: "bool \<Rightarrow> 'a \<Rightarrow> 'a list" where
  "fault_if b e = (if b then [e] else [])"

lemma fault_if_Nil [simp]: "fault_if b e = [] \<longleftrightarrow> \<not> b"
  by (simp add: fault_if_def)

text \<open>
  \<open>if (!id) empty; else if (ids.has(id)) duplicate; else ids.add(id)\<close>, with the set of ids seen.
\<close>

definition check_id :: "string set \<Rightarrow> string \<Rightarrow> fault \<Rightarrow> fault \<Rightarrow> fault list \<times> string set" where
  "check_id ids i e_empty e_dup =
     (if i = [] then ([e_empty], ids)
      else if i \<in> ids then ([e_dup], ids)
      else ([], insert i ids))"

definition clip_faults :: "nat \<Rightarrow> nat \<Rightarrow> clip \<Rightarrow> fault list" where
  "clip_faults i j c =
     (case c_startTick c of
        Some st \<Rightarrow>
          fault_if (\<not> js_le (js_int 0) st) (ClipTickNegative i j) @
          (case c_lengthTick c of
             Some l \<Rightarrow> fault_if (\<not> js_lt (js_int 0) l) (ClipLengthTick i j) | None \<Rightarrow> [])
      | None \<Rightarrow>
          fault_if (\<not> (case c_startSample c of Some s \<Rightarrow> js_le (js_int 0) s | None \<Rightarrow> False))
            (ClipStart i j)) @
     (if c_startTick c = None \<or> c_lengthTick c = None
      then fault_if (\<not> (case c_lengthSamples c of Some l \<Rightarrow> js_lt (js_int 0) l | None \<Rightarrow> False))
             (ClipLength i j)
      else []) @
     (case c_offsetSamples c of
        Some off \<Rightarrow> fault_if (\<not> js_le (js_int 0) off) (ClipOffset i j) | None \<Rightarrow> [])"

fun clips_faults :: "nat \<Rightarrow> nat \<Rightarrow> string set \<Rightarrow> clip list \<Rightarrow> fault list \<times> string set" where
  "clips_faults i j ids [] = ([], ids)"
| "clips_faults i j ids (c # cs) =
     (let (e, ids1) = check_id ids (c_id c) (ClipIdEmpty i j) (ClipIdDuplicate i j);
          (es, ids2) = clips_faults i (Suc j) ids1 cs
      in (e @ clip_faults i j c @ es, ids2))"

fun chain_faults :: "nat \<Rightarrow> nat \<Rightarrow> processor list \<Rightarrow> fault list" where
  "chain_faults i j [] = []"
| "chain_faults i j (p # ps) =
     fault_if (p_id p = []) (DeviceIdEmpty i j) @ fault_if (p_type p = []) (DeviceTypeEmpty i j) @
     chain_faults i (Suc j) ps"

definition gain_pan_faults :: "nat \<Rightarrow> track \<Rightarrow> fault list" where
  "gain_pan_faults i t =
     fault_if (\<not> (js_le (js_int 0) (t_gain t) \<and> js_le (t_gain t) (js_int 2))) (TrackGainRange i) @
     (case t_pan t of
        Some p \<Rightarrow> fault_if (\<not> (js_le (js_int (- 1)) p \<and> js_le p (js_int 1))) (TrackPanRange i)
      | None \<Rightarrow> [])"

fun tracks_faults :: "nat \<Rightarrow> string set \<Rightarrow> string set \<Rightarrow> track list \<Rightarrow> fault list" where
  "tracks_faults i trackIds clipIds [] = []"
| "tracks_faults i trackIds clipIds (t # ts) =
     (let (e, trackIds1) = check_id trackIds (t_id t) (TrackIdEmpty i) (TrackIdDuplicate i);
          (ces, clipIds1) = clips_faults i 0 clipIds (t_clips t)
      in e @ gain_pan_faults i t @ ces @ chain_faults i 0 (t_chain t) @
         tracks_faults (Suc i) trackIds1 clipIds1 ts)"

definition validateDocument :: "project \<Rightarrow> fault list" where
  "validateDocument doc =
     fault_if (\<not> js_le (js_int 1) (d_schemaVersion doc)) SchemaBelowOne @
     fault_if (js_lt (js_int SCHEMA_VERSION) (d_schemaVersion doc)) SchemaUnknown @
     fault_if (\<not> js_lt (js_int 0) (d_sampleRate doc)) SampleRateNotPositive @
     tracks_faults 0 {} {} (d_tracks doc)"

section \<open>What a sound document is\<close>

definition valid_clip :: "clip \<Rightarrow> bool" where
  "valid_clip c \<longleftrightarrow>
     (case c_startTick c of
        Some st \<Rightarrow> js_le (js_int 0) st \<and> pred_option (js_lt (js_int 0)) (c_lengthTick c)
      | None \<Rightarrow> (\<exists>s. c_startSample c = Some s \<and> js_le (js_int 0) s)) \<and>
     (c_startTick c = None \<or> c_lengthTick c = None \<longrightarrow>
        (\<exists>l. c_lengthSamples c = Some l \<and> js_lt (js_int 0) l)) \<and>
     pred_option (js_le (js_int 0)) (c_offsetSamples c)"

definition valid_track :: "track \<Rightarrow> bool" where
  "valid_track t \<longleftrightarrow>
     js_between (js_int 0) (js_int 2) (t_gain t) \<and>
     pred_option (js_between (js_int (- 1)) (js_int 1)) (t_pan t) \<and>
     (\<forall>c\<in>set (t_clips t). valid_clip c) \<and>
     (\<forall>p\<in>set (t_chain t). p_id p \<noteq> [] \<and> p_type p \<noteq> [])"

text \<open>The ids of a kind: none empty, no two equal.\<close>

definition good_ids :: "string list \<Rightarrow> bool" where
  "good_ids is \<longleftrightarrow> distinct is \<and> [] \<notin> set is"

definition all_clip_ids :: "track list \<Rightarrow> string list" where
  "all_clip_ids ts = concat (map (\<lambda>t. map c_id (t_clips t)) ts)"

definition valid_document :: "project \<Rightarrow> bool" where
  "valid_document doc \<longleftrightarrow>
     js_between (js_int 1) (js_int 2) (d_schemaVersion doc) \<and> js_lt (js_int 0) (d_sampleRate doc) \<and>
     good_ids (map t_id (d_tracks doc)) \<and> good_ids (all_clip_ids (d_tracks doc)) \<and>
     (\<forall>t\<in>set (d_tracks doc). valid_track t)"

section \<open>Lemmas\<close>

lemma clip_faults_Nil: "clip_faults i j c = [] \<longleftrightarrow> valid_clip c"
  by (auto simp: clip_faults_def valid_clip_def split: option.splits)

lemma chain_faults_Nil: "chain_faults i j ps = [] \<longleftrightarrow> (\<forall>p\<in>set ps. p_id p \<noteq> [] \<and> p_type p \<noteq> [])"
  by (induction ps arbitrary: j) auto

lemma gain_pan_faults_Nil:
  "gain_pan_faults i t = [] \<longleftrightarrow> js_between (js_int 0) (js_int 2) (t_gain t) \<and>
     pred_option (js_between (js_int (- 1)) (js_int 1)) (t_pan t)"
  by (auto simp: gain_pan_faults_def js_between_def split: option.splits)

lemma check_id_Nil:
  "fst (check_id ids i e d) = [] \<longleftrightarrow> i \<noteq> [] \<and> i \<notin> ids"
  "i \<noteq> [] \<Longrightarrow> i \<notin> ids \<Longrightarrow> check_id ids i e d = ([], insert i ids)"
  by (simp_all add: check_id_def)

lemma clips_faults_Nil:
  "fst (clips_faults i j ids cs) = [] \<longleftrightarrow>
     good_ids (map c_id cs) \<and> set (map c_id cs) \<inter> ids = {} \<and> (\<forall>c\<in>set cs. valid_clip c)"
proof (induction cs arbitrary: j ids)
  case (Cons c cs)
  show ?case
  proof (cases "c_id c \<noteq> [] \<and> c_id c \<notin> ids")
    case True
    then have "fst (clips_faults i j ids (c # cs)) = [] \<longleftrightarrow>
        valid_clip c \<and> fst (clips_faults i (Suc j) (insert (c_id c) ids) cs) = []"
      by (simp add: check_id_Nil(2) split_beta clip_faults_Nil)
    then show ?thesis using True by (auto simp: Cons.IH good_ids_def)
  next
    case False
    then have "fst (check_id ids (c_id c) (ClipIdEmpty i j) (ClipIdDuplicate i j)) \<noteq> []"
      by (simp add: check_id_Nil(1))
    then have "fst (clips_faults i j ids (c # cs)) \<noteq> []" by (simp add: split_beta)
    then show ?thesis using False by (auto simp: good_ids_def)
  qed
qed (simp add: good_ids_def)

lemma clips_faults_ids:
  "fst (clips_faults i j ids cs) = [] \<Longrightarrow> snd (clips_faults i j ids cs) = ids \<union> set (map c_id cs)"
proof (induction cs arbitrary: j ids)
  case (Cons c cs)
  then have "c_id c \<noteq> [] \<and> c_id c \<notin> ids"
    using clips_faults_Nil [of i j ids "c # cs"] by (auto simp: good_ids_def)
  then show ?case using Cons by (simp add: check_id_Nil(2) split_beta)
qed simp

lemma good_ids_append:
  "good_ids (xs @ ys) \<longleftrightarrow> good_ids xs \<and> good_ids ys \<and> set xs \<inter> set ys = {}"
  by (auto simp: good_ids_def)

lemma good_ids_Cons: "good_ids (x # xs) \<longleftrightarrow> x \<noteq> [] \<and> x \<notin> set xs \<and> good_ids xs"
  by (auto simp: good_ids_def)

lemma tracks_faults_Nil:
  "tracks_faults i tids cids ts = [] \<longleftrightarrow>
     good_ids (map t_id ts) \<and> set (map t_id ts) \<inter> tids = {} \<and>
     good_ids (all_clip_ids ts) \<and> set (all_clip_ids ts) \<inter> cids = {} \<and> (\<forall>t\<in>set ts. valid_track t)"
proof (induction ts arbitrary: i tids cids)
  case (Cons t ts)
  let ?cs = "clips_faults i 0 cids (t_clips t)"
  have split: "tracks_faults i tids cids (t # ts) = [] \<longleftrightarrow>
      t_id t \<noteq> [] \<and> t_id t \<notin> tids \<and> gain_pan_faults i t = [] \<and> fst ?cs = [] \<and>
      chain_faults i 0 (t_chain t) = [] \<and>
      tracks_faults (Suc i) (insert (t_id t) tids) (snd ?cs) ts = []"
    by (auto simp: split_beta check_id_def)
  have ids: "all_clip_ids (t # ts) = map c_id (t_clips t) @ all_clip_ids ts"
    by (simp add: all_clip_ids_def)
  show ?case
  proof (cases "fst ?cs = []")
    case True
    note snd = clips_faults_ids [OF this]
    show ?thesis
      using True
      unfolding split snd Cons.IH gain_pan_faults_Nil chain_faults_Nil clips_faults_Nil ids
        good_ids_append
      by (auto simp: good_ids_Cons valid_track_def)
  next
    case False
    have "good_ids (map c_id (t_clips t)) \<and> set (map c_id (t_clips t)) \<inter> cids = {} \<and>
        (\<forall>c\<in>set (t_clips t). valid_clip c)"
      if "good_ids (all_clip_ids (t # ts))" "set (all_clip_ids (t # ts)) \<inter> cids = {}" "valid_track t"
      using that by (auto simp: ids good_ids_append valid_track_def)
    then show ?thesis
      using False unfolding split clips_faults_Nil by auto
  qed
qed (simp add: good_ids_def all_clip_ids_def)

lemma validate_iff: "validateDocument doc = [] \<longleftrightarrow> valid_document doc"
  unfolding validateDocument_def valid_document_def
  by (auto simp: tracks_faults_Nil js_between_def SCHEMA_VERSION_def)
    (cases "d_schemaVersion doc", auto simp: js_le_def js_eq_def)+

section \<open>Properties\<close>

text \<open>C12. The fault list is empty exactly on the sound documents: a known schema version, a positive sample
  rate, track ids and clip ids that are not empty and differ across the whole document, gains, pans
  and clip times in range, devices with an id and a type. So no fault escapes the list and no sound
  document is reported.\<close>

theorem validateDocument_complete:
  "validateDocument doc = [] \<longleftrightarrow> valid_document doc"
  by (rule validate_iff)

text \<open>Whatever a hostile document holds, the coerced sample count is a finite number of
  \<open>[0, MAX_SAMPLES]\<close> and the coerced tick a whole number of \<open>[0, MAX_TICK]\<close>; coercing twice changes
  nothing more.\<close>

theorem clamp_hostile_values:
  "js_between (js_int 0) (js_int MAX_SAMPLES) (clampSamples n) \<and>
   js_int_from 0 (clampTick n) \<and> js_le (clampTick n) (js_int MAX_TICK) \<and>
   clampSamples (Some (clampSamples n)) = clampSamples n \<and>
   clampTick (Some (clampTick n)) = clampTick n"
proof -
  have tick: "js_clamp (js_int 0) (js_int MAX_TICK) (js_int k) = js_int (max 0 (min MAX_TICK k))" for k
    by (rule js_clamp_js_int) (simp add: MAX_TICK_def)
  have "\<exists>k. clampTick n = js_int (max 0 (min MAX_TICK k))"
  proof (cases "\<exists>x. n = Some (Fin x)")
    case True
    then obtain x where "n = Some (Fin x)" ..
    then have "clampTick n = js_clamp (js_int 0) (js_int MAX_TICK) (js_int \<lfloor>x + 1/2\<rfloor>)"
      by (simp add: clampTick_def)
    then show ?thesis using tick by metis
  next
    case False
    then have "\<not> js_finite v" if "n = Some v" for v using that by (cases v) auto
    then have "clampTick n = js_clamp (js_int 0) (js_int MAX_TICK) (js_int 0)"
      by (auto simp: clampTick_def split: option.splits)
    then show ?thesis using tick by metis
  qed
  then obtain k where k: "clampTick n = js_int k" "0 \<le> k" "k \<le> MAX_TICK"
    by (metis MAX_TICK_def max.bounded_iff max.cobounded1 min.cobounded1 zero_le_numeral
        zero_le_power max_def)
  have "clampTick (Some (js_int k)) = js_int k"
    using tick [of k] k by (simp add: clampTick_def)
  moreover have "js_between (js_int 0) (js_int MAX_SAMPLES) (clampSamples n)"
    unfolding clampSamples_def Let_def
    by (rule js_clamp_between) (auto simp: MAX_SAMPLES_def js_le_def split: option.splits)
  moreover from this have "clampSamples (Some (clampSamples n)) = clampSamples n"
    by (cases "clampSamples n") (auto simp: clampSamples_def js_clamp_id js_between_def js_le_def js_eq_def)
  ultimately show ?thesis using k by simp
qed

end
