(* ===== verification/Undo.thy ===== *)
theory Undo
  imports Schema
begin

text \<open>
  The undo journal, \<open>web/src/document/undo.ts\<close>: the typed inverse operations, the key of the target an
  inverse restores, and the journal with its two bounded stacks, its open group and its replay
  route. A stack is a list whose last element is the top, as the array of the source is.
\<close>

section \<open>Inverse operations\<close>

record clip_timing =
  ti_startSample :: "jsnum option"
  ti_lengthSamples :: "jsnum option"
  ti_offsetSamples :: "jsnum option"
  ti_startTick :: "jsnum option"
  ti_lengthTick :: "jsnum option"

record clip_bounds =
  b_startSample :: jsnum
  b_lengthSamples :: jsnum
  b_offsetSamples :: jsnum

record note_patch =
  np_pitch :: "jsnum option"
  np_velocity :: "jsnum option"
  np_startSample :: "jsnum option"
  np_lengthSamples :: "jsnum option"
  np_startTick :: "jsnum option"
  np_lengthTick :: "jsnum option"

text \<open>
  \<open>InverseOp\<close>, the constructors in its order; a \<open>trackId\<close> that may be null is an option (\<open>None\<close> is
  the master).
\<close>

datatype inverse_op =
    SetTrackGain string jsnum
  | SetTrackPan string jsnum
  | SetTrackOrder string jsnum
  | ClearTrackOrder string
  | RenameTrack string string
  | RenameClip string string string
  | SetMasterGain jsnum
  | SetTempo jsnum
  | SetProcessorBypass string string bool
  | SetProcessorParam string string string jsnum
  | RemoveProcessorParam string string string
  | SetClipStart string string jsnum
  | SetClipBounds string string clip_bounds
  | SetClipTiming string string clip_timing
  | SetClipFades string string jsnum jsnum
  | AddClip string clip
  | DeleteClip string string
  | SetClipScene string string string
  | AddTrack track
  | DeleteTrack string
  | AddProcessor string processor "int option"
  | RemoveProcessor string string
  | MoveProcessor string string jsnum
  | ToggleNote string string midi_note
  | UpdateNote string string string note_patch
  | RenameScene string string
  | DeleteScene string
  | RestoreScene scene int "(string \<times> clip) list"
  | DeleteAutomationLane "string option" string
  | RestoreAutomationLane "string option" lane int
  | SetAutomationLaneEnabled "string option" string bool
  | AddAutomationPoint "string option" string jsnum jsnum
  | MoveAutomationPoint "string option" string int jsnum jsnum
  | DeleteAutomationPoint "string option" string int

text \<open>
  A target key is the template literal's parts, before they are joined by colons: two keys are
  equal when all their parts are.
\<close>

datatype key_part = KStr string | KNum "jsnum option"

type_synonym target_key = "key_part list"

definition scope :: "string option \<Rightarrow> key_part" where
  "scope trackId = KStr (or_else trackId ''master'')"

fun targetKey :: "inverse_op \<Rightarrow> target_key" where
  "targetKey (SetTrackGain t _) = [KStr ''gain'', KStr t]"
| "targetKey (SetTrackPan t _) = [KStr ''pan'', KStr t]"
| "targetKey (SetTrackOrder t _) = [KStr ''order'', KStr t]"
| "targetKey (ClearTrackOrder t) = [KStr ''order'', KStr t]"
| "targetKey (RenameTrack t _) = [KStr ''trackname'', KStr t]"
| "targetKey (RenameClip t c _) = [KStr ''clipname'', KStr t, KStr c]"
| "targetKey (SetMasterGain _) = [KStr ''master'']"
| "targetKey (SetTempo _) = [KStr ''tempo'']"
| "targetKey (SetProcessorBypass t p _) = [KStr ''byp'', KStr t, KStr p]"
| "targetKey (SetProcessorParam t p k _) = [KStr ''param'', KStr t, KStr p, KStr k]"
| "targetKey (RemoveProcessorParam t p k) = [KStr ''param'', KStr t, KStr p, KStr k]"
| "targetKey (SetClipStart t c _) = [KStr ''clipstart'', KStr t, KStr c]"
| "targetKey (SetClipBounds t c _) = [KStr ''clipbounds'', KStr t, KStr c]"
| "targetKey (SetClipTiming t c _) = [KStr ''clipstart'', KStr t, KStr c]"
| "targetKey (SetClipFades t c _ _) = [KStr ''clipfades'', KStr t, KStr c]"
| "targetKey (AddClip t c) = [KStr ''clip'', KStr t, KStr (c_id c)]"
| "targetKey (DeleteClip t c) = [KStr ''clip'', KStr t, KStr c]"
| "targetKey (SetClipScene t c _) = [KStr ''clipscene'', KStr t, KStr c]"
| "targetKey (AddTrack t) = [KStr ''track'', KStr (t_id t)]"
| "targetKey (DeleteTrack t) = [KStr ''track'', KStr t]"
| "targetKey (AddProcessor t p _) = [KStr ''proc'', KStr t, KStr (p_id p)]"
| "targetKey (RemoveProcessor t p) = [KStr ''proc'', KStr t, KStr p]"
| "targetKey (MoveProcessor t p _) = [KStr ''procmove'', KStr t, KStr p]"
| "targetKey (ToggleNote t c n) = [KStr ''note'', KStr t, KStr c, KNum (Some (n_pitch n)),
     KNum (case n_startTick n of Some x \<Rightarrow> Some x | None \<Rightarrow> n_startSample n)]"
| "targetKey (UpdateNote t c n _) = [KStr ''noteid'', KStr t, KStr c, KStr n]"
| "targetKey (RenameScene s _) = [KStr ''scenename'', KStr s]"
| "targetKey (DeleteScene s) = [KStr ''scene'', KStr s]"
| "targetKey (RestoreScene s _ _) = [KStr ''scene'', KStr (sc_id s)]"
| "targetKey (DeleteAutomationLane t l) = [KStr ''alane'', scope t, KStr l]"
| "targetKey (RestoreAutomationLane t l _) = [KStr ''alane'', scope t, KStr (l_id l)]"
| "targetKey (SetAutomationLaneEnabled t l _) = [KStr ''alaneon'', scope t, KStr l]"
| "targetKey (AddAutomationPoint t l x v) =
     [KStr ''apoint'', scope t, KStr l, KNum (Some x), KNum (Some v)]"
| "targetKey (MoveAutomationPoint t l _ x v) =
     [KStr ''apoint'', scope t, KStr l, KNum (Some x), KNum (Some v)]"
| "targetKey (DeleteAutomationPoint t l i) =
     [KStr ''apoint-i'', scope t, KStr l, KNum (Some (js_int i))]"

section \<open>The journal\<close>

record undo_group =
  g_ops :: "inverse_op list"
  g_seen :: "target_key set"

datatype route = Normal | ToRedo | ToUndo

record journal =
  j_undo :: "undo_group list"
  j_redo :: "undo_group list"
  j_grouping :: "undo_group option"
  j_route :: route

definition MAX_ENTRIES :: nat where
  "MAX_ENTRIES = 100"

definition empty_journal :: journal where
  "empty_journal = \<lparr>j_undo = [], j_redo = [], j_grouping = None, j_route = Normal\<rparr>"

text \<open>\<open>stack.push(g); if (stack.length > MAX_ENTRIES) stack.shift();\<close>\<close>

definition push_entry :: "undo_group \<Rightarrow> undo_group list \<Rightarrow> undo_group list" where
  "push_entry g stack =
     (let s = stack @ [g] in if length s > MAX_ENTRIES then tl s else s)"

text \<open>The stack chosen by the route receives the entry.\<close>

definition push_routed :: "undo_group \<Rightarrow> journal \<Rightarrow> journal" where
  "push_routed g j =
     (if j_route j = ToRedo then j\<lparr>j_redo := push_entry g (j_redo j)\<rparr>
      else j\<lparr>j_undo := push_entry g (j_undo j)\<rparr>)"

definition add_to_group :: "inverse_op \<Rightarrow> undo_group \<Rightarrow> undo_group" where
  "add_to_group op g =
     (if targetKey op \<in> g_seen g then g
      else \<lparr>g_ops = g_ops g @ [op], g_seen = insert (targetKey op) (g_seen g)\<rparr>)"

definition capture :: "inverse_op \<Rightarrow> journal \<Rightarrow> journal" where
  "capture op j =
     (let j = (if j_route j = Normal then j\<lparr>j_redo := []\<rparr> else j) in
      case j_grouping j of
        Some g \<Rightarrow> j\<lparr>j_grouping := Some (add_to_group op g)\<rparr>
      | None \<Rightarrow> push_routed \<lparr>g_ops = [op], g_seen = {targetKey op}\<rparr> j)"

definition beginGroup :: "journal \<Rightarrow> journal" where
  "beginGroup j =
     (if j_grouping j \<noteq> None then j else j\<lparr>j_grouping := Some \<lparr>g_ops = [], g_seen = {}\<rparr>\<rparr>)"

definition endGroup :: "journal \<Rightarrow> journal" where
  "endGroup j =
     (case j_grouping j of
        None \<Rightarrow> j
      | Some g \<Rightarrow>
          let j = j\<lparr>j_grouping := None\<rparr> in
          if g_ops g = [] then j else push_routed g j)"

definition popUndo :: "journal \<Rightarrow> inverse_op list option \<times> journal" where
  "popUndo j =
     (if j_undo j = [] then (None, j)
      else (Some (rev (g_ops (last (j_undo j)))), j\<lparr>j_undo := butlast (j_undo j)\<rparr>))"

definition popRedo :: "journal \<Rightarrow> inverse_op list option \<times> journal" where
  "popRedo j =
     (if j_redo j = [] then (None, j)
      else (Some (rev (g_ops (last (j_redo j)))), j\<lparr>j_redo := butlast (j_redo j)\<rparr>))"

text \<open>
  \<open>routeReplay\<close> around \<open>fn\<close>: what it does to the journal before, and after in the \<open>finally\<close> block
  whether \<open>fn\<close> returns or throws.
\<close>

definition openReplay :: "route \<Rightarrow> journal \<Rightarrow> journal" where
  "openReplay direction j = beginGroup (j\<lparr>j_route := direction\<rparr>)"

definition closeReplay :: "journal \<Rightarrow> journal" where
  "closeReplay j = (endGroup j)\<lparr>j_route := Normal\<rparr>"

definition clear :: "journal \<Rightarrow> journal" where
  "clear j = j\<lparr>j_undo := [], j_redo := [], j_grouping := None, j_route := Normal\<rparr>"

definition undoDepth :: "journal \<Rightarrow> nat" where
  "undoDepth j = length (j_undo j)"

definition redoDepth :: "journal \<Rightarrow> nat" where
  "redoDepth j = length (j_redo j)"

section \<open>The journal as a state machine\<close>

text \<open>Every call of the journal's interface is a step.\<close>

inductive journal_step :: "journal \<Rightarrow> journal \<Rightarrow> bool" where
  "journal_step j (capture op j)"
| "journal_step j (beginGroup j)"
| "journal_step j (endGroup j)"
| "journal_step j (snd (popUndo j))"
| "journal_step j (snd (popRedo j))"
| "journal_step j (openReplay direction j)"
| "journal_step j (closeReplay j)"
| "journal_step j (clear j)"

inductive journal_reachable :: "journal \<Rightarrow> bool" where
  "journal_reachable empty_journal"
| "journal_reachable j \<Longrightarrow> journal_step j j' \<Longrightarrow> journal_reachable j'"

text \<open>A group holds one operation per key it has seen; a stack holds at most 100 entries, none empty.\<close>

definition wf_group :: "undo_group \<Rightarrow> bool" where
  "wf_group g \<longleftrightarrow> distinct (map targetKey (g_ops g)) \<and> g_seen g = set (map targetKey (g_ops g))"

definition wf_stack :: "undo_group list \<Rightarrow> bool" where
  "wf_stack st \<longleftrightarrow> length st \<le> MAX_ENTRIES \<and> (\<forall>g\<in>set st. wf_group g \<and> g_ops g \<noteq> [])"

definition wf_journal :: "journal \<Rightarrow> bool" where
  "wf_journal j \<longleftrightarrow> wf_stack (j_undo j) \<and> wf_stack (j_redo j) \<and> pred_option wf_group (j_grouping j)"

lemma wf_stack_simps [simp]: "wf_stack []"
  by (simp add: wf_stack_def)

lemma wf_stack_push: "wf_stack st \<Longrightarrow> wf_group g \<Longrightarrow> g_ops g \<noteq> [] \<Longrightarrow> wf_stack (push_entry g st)"
  by (cases st) (auto simp: wf_stack_def push_entry_def Let_def)

lemma wf_stack_pop: "wf_stack st \<Longrightarrow> wf_stack (butlast st)"
  by (auto simp: wf_stack_def dest: in_set_butlastD)

lemma wf_group_new [simp]: "wf_group \<lparr>g_ops = [], g_seen = {}\<rparr>"
  "wf_group \<lparr>g_ops = [op], g_seen = {targetKey op}\<rparr>"
  by (simp_all add: wf_group_def)

lemma wf_group_add: "wf_group g \<Longrightarrow> wf_group (add_to_group op g)"
  by (auto simp: wf_group_def add_to_group_def)

lemma wf_push_routed:
  "wf_journal j \<Longrightarrow> wf_group g \<Longrightarrow> g_ops g \<noteq> [] \<Longrightarrow> wf_journal (push_routed g j)"
  by (simp add: wf_journal_def push_routed_def wf_stack_push)

lemma wf_journal_route [simp]: "wf_journal (j\<lparr>j_route := r\<rparr>) = wf_journal j"
  by (simp add: wf_journal_def)

lemma wf_capture:
  assumes "wf_journal j"
  shows "wf_journal (capture op j)"
proof -
  let ?j = "if j_route j = Normal then j\<lparr>j_redo := []\<rparr> else j"
  have j: "wf_journal ?j" using assms by (simp add: wf_journal_def)
  show ?thesis
  proof (cases "j_grouping ?j")
    case None
    then show ?thesis using wf_push_routed [OF j, of "\<lparr>g_ops = [op], g_seen = {targetKey op}\<rparr>"]
      by (simp add: capture_def Let_def)
  next
    case (Some g)
    then show ?thesis using j wf_group_add [of g op] by (auto simp: capture_def Let_def wf_journal_def)
  qed
qed

lemma wf_endGroup: "wf_journal j \<Longrightarrow> wf_journal (endGroup j)"
  by (auto simp: endGroup_def Let_def wf_journal_def push_routed_def wf_stack_push split: option.splits)

lemma wf_beginGroup: "wf_journal j \<Longrightarrow> wf_journal (beginGroup j)"
  by (simp add: beginGroup_def wf_journal_def)

lemma wf_pops: "wf_journal j \<Longrightarrow> wf_journal (snd (popUndo j))" "wf_journal j \<Longrightarrow> wf_journal (snd (popRedo j))"
  by (simp_all add: popUndo_def popRedo_def wf_journal_def wf_stack_pop)

lemmas wf_journal_ops = wf_capture wf_endGroup wf_beginGroup wf_pops

lemma wf_journal_step:
  assumes "journal_step j j'" and "wf_journal j"
  shows "wf_journal j'"
  using assms
  by cases (simp_all add: wf_journal_ops openReplay_def closeReplay_def clear_def, simp add: wf_journal_def)

section \<open>Captures\<close>

text \<open>What a group keeps of a sequence of captures: the first operation of each key.\<close>

fun first_captures :: "target_key set \<Rightarrow> inverse_op list \<Rightarrow> inverse_op list" where
  "first_captures seen [] = []"
| "first_captures seen (op # ops) =
     (if targetKey op \<in> seen then first_captures seen ops
      else op # first_captures (insert (targetKey op) seen) ops)"

lemma fold_add_to_group:
  "g_ops (fold add_to_group ops g) = g_ops g @ first_captures (g_seen g) ops"
  by (induction ops arbitrary: g) (simp_all add: add_to_group_def)

lemma capture_group:
  "j_grouping j = Some g \<Longrightarrow>
   capture op j = j\<lparr>j_redo := (if j_route j = Normal then [] else j_redo j), j_grouping := Some (add_to_group op g)\<rparr>"
  by (simp add: capture_def Let_def)

lemma fold_capture_group:
  "j_grouping j = Some g \<Longrightarrow> ops \<noteq> [] \<Longrightarrow>
   fold capture ops j =
     j\<lparr>j_redo := (if j_route j = Normal then [] else j_redo j), j_grouping := Some (fold add_to_group ops g)\<rparr>"
proof (induction ops arbitrary: j g)
  case (Cons op ops)
  show ?case
  proof (cases "ops = []")
    case False
    then show ?thesis
      using Cons.IH [of "capture op j" "add_to_group op g"] by (simp add: capture_group [OF Cons.prems(1)])
  qed (simp add: capture_group [OF Cons.prems(1)])
qed simp

lemma first_captures_nonempty: "ops \<noteq> [] \<Longrightarrow> first_captures {} ops \<noteq> []"
  by (cases ops) simp_all

lemma popUndo_push:
  "popUndo (j\<lparr>j_undo := push_entry g st\<rparr>) =
     (Some (rev (g_ops g)), j\<lparr>j_undo := butlast (push_entry g st)\<rparr>)"
  by (cases st) (simp_all add: popUndo_def push_entry_def Let_def MAX_ENTRIES_def)

lemma popRedo_push:
  "popRedo (j\<lparr>j_redo := push_entry g st\<rparr>) =
     (Some (rev (g_ops g)), j\<lparr>j_redo := butlast (push_entry g st)\<rparr>)"
  by (cases st) (simp_all add: popRedo_def push_entry_def Let_def MAX_ENTRIES_def)

lemma butlast_push: "length st < MAX_ENTRIES \<Longrightarrow> butlast (push_entry g st) = st"
  by (simp add: push_entry_def)

section \<open>Properties\<close>

text \<open>C6. Whatever the calls made on it, in whatever order, the journal stays well-formed: each stack holds at
  most 100 entries, no entry is empty, and an entry or an open group holds at most one operation
  per target.\<close>

theorem journal_invariant:
  assumes "journal_reachable j"
  shows "wf_journal j \<and> undoDepth j \<le> 100 \<and> redoDepth j \<le> 100"
proof -
  have "wf_journal j"
    using assms by induction (simp add: wf_journal_def empty_journal_def, rule wf_journal_step)
  then show ?thesis by (simp add: wf_journal_def wf_stack_def undoDepth_def redoDepth_def MAX_ENTRIES_def)
qed

theorem journal_invariant_witness:
  "wf_journal (capture (SetMasterGain (Fin 1)) empty_journal) \<and>
   undoDepth (capture (SetMasterGain (Fin 1)) empty_journal) = 1"
proof -
  have "journal_reachable (capture (SetMasterGain (Fin 1)) empty_journal)"
    by (rule journal_reachable.intros(2) [OF journal_reachable.intros(1) journal_step.intros(1)])
  from journal_invariant [OF this] show ?thesis
    by (simp add: undoDepth_def capture_def push_routed_def push_entry_def empty_journal_def
        MAX_ENTRIES_def)
qed

text \<open>C11. One gesture is one entry: between \<open>beginGroup\<close> and \<open>endGroup\<close>, however many captures are made, the
  undo stack receives one entry, which holds the first capture of each target in order; the next
  \<open>popUndo\<close> returns them last first, and the redo stack has been emptied.\<close>

theorem gesture_is_one_entry:
  assumes "j_grouping j = None" and "j_route j = Normal" and "ops \<noteq> []"
  shows "\<exists>j' j''. endGroup (fold capture ops (beginGroup j)) = j' \<and>
    popUndo j' = (Some (rev (first_captures {} ops)), j'') \<and>
    j_redo j' = [] \<and> j_grouping j' = None \<and>
    undoDepth j' = (if undoDepth j < MAX_ENTRIES then undoDepth j + 1 else undoDepth j)"
proof -
  let ?g = "fold add_to_group ops \<lparr>g_ops = [], g_seen = {}\<rparr>"
  have ops: "g_ops ?g = first_captures {} ops" by (simp add: fold_add_to_group)
  then have ne: "g_ops ?g \<noteq> []" using assms(3) first_captures_nonempty by simp
  have "endGroup (fold capture ops (beginGroup j)) =
      (j\<lparr>j_redo := [], j_grouping := None\<rparr>)\<lparr>j_undo := push_entry ?g (j_undo j)\<rparr>"
    using assms ne
    by (simp add: beginGroup_def fold_capture_group endGroup_def push_routed_def Let_def)
  then show ?thesis
    using popUndo_push [of ?g "j_undo j" "j\<lparr>j_redo := [], j_grouping := None\<rparr>"]
    by (simp add: ops undoDepth_def push_entry_def Let_def)
qed

theorem gesture_is_one_entry_witness:
  "\<exists>j' j''. endGroup (fold capture [SetMasterGain (Fin 1), SetTrackGain ''t'' (Fin 0), SetMasterGain (Fin 2)]
      (beginGroup empty_journal)) = j' \<and>
    popUndo j' = (Some [SetTrackGain ''t'' (Fin 0), SetMasterGain (Fin 1)], j'') \<and> undoDepth j' = 1"
  using gesture_is_one_entry [of empty_journal
      "[SetMasterGain (Fin 1), SetTrackGain ''t'' (Fin 0), SetMasterGain (Fin 2)]"]
  by (simp add: empty_journal_def undoDepth_def MAX_ENTRIES_def)

end
