(* ===== verification/Focus.thy ===== *)
theory Focus
  imports Schema
begin

text \<open>
  How a mutator reaches its target: \<open>d.tracks.find(...)\<close>, then \<open>?.clips.find(...)\<close> and so on, and the
  write to the object found. The interface \<open>focus\<close> states what the reads promise after a write;
  \<open>child\<close> goes one level down; both are interpreted on every path the mutators take.
\<close>

section \<open>The interface\<close>

text \<open>\<open>get\<close> reads the target, \<open>upd\<close> writes it; \<open>key\<close> is what identifies it and no write changes.\<close>

locale focus =
  fixes get :: "'d \<Rightarrow> 'x option"
    and upd :: "('x \<Rightarrow> 'x) \<Rightarrow> 'd \<Rightarrow> 'd"
    and key :: "'x \<Rightarrow> 'k"
  assumes get_upd: "(\<And>x. key (f x) = key x) \<Longrightarrow> get (upd f d) = map_option f (get d)"
    and upd_upd: "(\<And>x. key (f x) = key x) \<Longrightarrow> upd g (upd f d) = upd (\<lambda>x. g (f x)) d"
    and upd_cong: "get d = Some x \<Longrightarrow> f x = g x \<Longrightarrow> upd f d = upd g d"
    and upd_ident: "upd (\<lambda>x. x) d = d"
    and upd_none: "get d = None \<Longrightarrow> upd f d = d"
begin

lemma upd_same: "get d = Some x \<Longrightarrow> f x = x \<Longrightarrow> upd f d = d"
  using upd_cong [of d x f "\<lambda>x. x"] by (simp add: upd_ident)

text \<open>A write that the next one reverts at the target leaves the document as it was.\<close>

lemma restore:
  "get d = Some x \<Longrightarrow> (\<And>x. key (f x) = key x) \<Longrightarrow> g (f x) = x \<Longrightarrow> upd g (upd f d) = d"
  by (simp add: upd_upd upd_same)

text \<open>A write that the next one covers does not matter.\<close>

lemma overwrite:
  "(\<And>x. key (f x) = key x) \<Longrightarrow> (\<And>x. g (f x) = g x) \<Longrightarrow> upd g (upd f d) = upd g d"
  by (simp add: upd_upd)

lemma get_upd_Some:
  "(\<And>x. key (f x) = key x) \<Longrightarrow> get d = Some x \<Longrightarrow> get (upd f d) = Some (f x)"
  by (simp add: get_upd)

end

text \<open>
  A list inside the target, and the first element of it with a given key. The list may be behind an
  optional field: \<open>put\<close> then writes nothing when it is absent, which the code's \<open>?.\<close> does too.
\<close>

locale child = focus get upd key
  for get :: "'d \<Rightarrow> 'x option"
    and upd :: "('x \<Rightarrow> 'x) \<Rightarrow> 'd \<Rightarrow> 'd"
    and key :: "'x \<Rightarrow> 'k" +
  fixes sel :: "'x \<Rightarrow> 'y list"
    and put :: "('y list \<Rightarrow> 'y list) \<Rightarrow> 'x \<Rightarrow> 'x"
    and ckey :: "'y \<Rightarrow> 'c"
    and k :: "'c"
  assumes sel_put: "f [] = [] \<Longrightarrow> sel (put f x) = f (sel x)"
    and put_put: "put g (put f x) = put (\<lambda>ys. g (f ys)) x"
    and put_cong: "f (sel x) = g (sel x) \<Longrightarrow> put f x = put g x"
    and put_ident: "put (\<lambda>ys. ys) x = x"
    and key_put: "key (put f x) = key x"
begin

lemma focus_child:
  "focus (\<lambda>d. Option.bind (get d) (\<lambda>x. List.find (\<lambda>y. ckey y = k) (sel x)))
     (\<lambda>f. upd (put (update_first (\<lambda>y. ckey y = k) f))) ckey"
proof
  let ?P = "\<lambda>y. ckey y = k"
  fix f g :: "'y \<Rightarrow> 'y" and d
  show "upd (put (update_first ?P (\<lambda>x. x))) d = d"
  proof -
    have "put (update_first ?P (\<lambda>x. x)) x = x" for x
    proof -
      have "update_first ?P (\<lambda>x. x) = (\<lambda>ys. ys)"
      proof
        show "update_first ?P (\<lambda>x. x) ys = ys" for ys by (induction ys) simp_all
      qed
      then show ?thesis by (simp add: put_ident)
    qed
    then have "put (update_first ?P (\<lambda>x. x)) = (\<lambda>x. x)" by blast
    then show ?thesis by (simp add: upd_ident)
  qed
  show "upd (put (update_first ?P f)) d = d"
    if "Option.bind (get d) (\<lambda>x. List.find ?P (sel x)) = None"
  proof (cases "get d")
    case (Some x)
    with that have "update_first ?P f (sel x) = sel x" by (simp add: update_first_none)
    then have "put (update_first ?P f) x = x"
      using put_cong [of "update_first ?P f" x "\<lambda>ys. ys"] by (simp add: put_ident)
    with Some show ?thesis by (rule upd_same)
  qed (rule upd_none)
  show "upd (put (update_first ?P f)) d = upd (put (update_first ?P g)) d"
    if target: "Option.bind (get d) (\<lambda>x. List.find ?P (sel x)) = Some y" and "f y = g y" for y
  proof -
    obtain x where x: "get d = Some x" "List.find ?P (sel x) = Some y"
      using target by (cases "get d") simp_all
    have "update_first ?P f ys = update_first ?P g ys" if "List.find ?P ys = Some y" for ys
      using that \<open>f y = g y\<close> by (induction ys) (auto split: if_splits)
    then show ?thesis by (intro upd_cong [OF x(1)] put_cong) (simp add: x(2))
  qed
  assume keep: "\<And>y. ckey (f y) = ckey y"
  have "get (upd (put (update_first ?P f)) d) = map_option (put (update_first ?P f)) (get d)"
    by (rule get_upd) (rule key_put)
  then show "Option.bind (get (upd (put (update_first ?P f)) d)) (\<lambda>x. List.find ?P (sel x)) =
      map_option f (Option.bind (get d) (\<lambda>x. List.find ?P (sel x)))"
    by (cases "get d") (simp_all add: sel_put find_update_first keep)
  have "update_first ?P g (update_first ?P f ys) = update_first ?P (\<lambda>y. g (f y)) ys" for ys
    using update_first_update_first [of ?P f g ys] keep by (simp add: comp_def)
  then show "upd (put (update_first ?P g)) (upd (put (update_first ?P f)) d) =
      upd (put (update_first ?P (\<lambda>y. g (f y)))) d"
    by (simp add: upd_upd key_put put_put)
qed

end

section \<open>The paths of the code\<close>

definition find_track :: "string \<Rightarrow> project \<Rightarrow> track option" where
  "find_track i d = List.find (\<lambda>t. t_id t = i) (d_tracks d)"

definition upd_track :: "string \<Rightarrow> (track \<Rightarrow> track) \<Rightarrow> project \<Rightarrow> project" where
  "upd_track i f d = d\<lparr>d_tracks := update_first (\<lambda>t. t_id t = i) f (d_tracks d)\<rparr>"

definition find_clip :: "string \<Rightarrow> string \<Rightarrow> project \<Rightarrow> clip option" where
  "find_clip t i d = Option.bind (find_track t d) (\<lambda>t. List.find (\<lambda>c. c_id c = i) (t_clips t))"

definition upd_clip :: "string \<Rightarrow> string \<Rightarrow> (clip \<Rightarrow> clip) \<Rightarrow> project \<Rightarrow> project" where
  "upd_clip t i f = upd_track t (\<lambda>t. t\<lparr>t_clips := update_first (\<lambda>c. c_id c = i) f (t_clips t)\<rparr>)"

definition find_proc :: "string \<Rightarrow> string \<Rightarrow> project \<Rightarrow> processor option" where
  "find_proc t i d = Option.bind (find_track t d) (\<lambda>t. List.find (\<lambda>p. p_id p = i) (t_chain t))"

definition upd_proc :: "string \<Rightarrow> string \<Rightarrow> (processor \<Rightarrow> processor) \<Rightarrow> project \<Rightarrow> project" where
  "upd_proc t i f = upd_track t (\<lambda>t. t\<lparr>t_chain := update_first (\<lambda>p. p_id p = i) f (t_chain t)\<rparr>)"

definition find_note :: "string \<Rightarrow> string \<Rightarrow> string \<Rightarrow> project \<Rightarrow> midi_note option" where
  "find_note t c i d =
     Option.bind (find_clip t c d) (\<lambda>c. List.find (\<lambda>n. n_id n = Some i) (or_else (c_notes c) []))"

definition upd_note :: "string \<Rightarrow> string \<Rightarrow> string \<Rightarrow> (midi_note \<Rightarrow> midi_note) \<Rightarrow> project \<Rightarrow> project" where
  "upd_note t c i f = upd_clip t c
     (\<lambda>c. c\<lparr>c_notes := map_option (update_first (\<lambda>n. n_id n = Some i) f) (c_notes c)\<rparr>)"

definition find_scene :: "string \<Rightarrow> project \<Rightarrow> scene option" where
  "find_scene i d = List.find (\<lambda>s. sc_id s = i) (or_else (d_scenes d) [])"

definition upd_scene :: "string \<Rightarrow> (scene \<Rightarrow> scene) \<Rightarrow> project \<Rightarrow> project" where
  "upd_scene i f d = d\<lparr>d_scenes := map_option (update_first (\<lambda>s. sc_id s = i) f) (d_scenes d)\<rparr>"

text \<open>The lanes of a track, or of the master (\<open>None\<close>): \<open>lanesIn\<close> and \<open>ensureLanes\<close>.\<close>

definition lanesIn :: "string option \<Rightarrow> project \<Rightarrow> lane list option" where
  "lanesIn trackId d =
     (case trackId of None \<Rightarrow> d_automation d | Some t \<Rightarrow> Option.bind (find_track t d) t_automation)"

definition upd_lanes :: "string option \<Rightarrow> (lane list \<Rightarrow> lane list) \<Rightarrow> project \<Rightarrow> project" where
  "upd_lanes trackId f d =
     (case trackId of
        None \<Rightarrow> d\<lparr>d_automation := map_option f (d_automation d)\<rparr>
      | Some t \<Rightarrow> upd_track t (\<lambda>t. t\<lparr>t_automation := map_option f (t_automation t)\<rparr>) d)"

definition ensureLanes :: "string option \<Rightarrow> (lane list \<Rightarrow> lane list) \<Rightarrow> project \<Rightarrow> project" where
  "ensureLanes trackId f d =
     (case trackId of
        None \<Rightarrow> d\<lparr>d_automation := Some (f (or_else (d_automation d) []))\<rparr>
      | Some t \<Rightarrow> upd_track t (\<lambda>t. t\<lparr>t_automation := Some (f (or_else (t_automation t) []))\<rparr>) d)"

definition find_lane :: "string option \<Rightarrow> string \<Rightarrow> project \<Rightarrow> lane option" where
  "find_lane trackId i d =
     Option.bind (lanesIn trackId d) (List.find (\<lambda>l. l_id l = i))"

definition upd_lane :: "string option \<Rightarrow> string \<Rightarrow> (lane \<Rightarrow> lane) \<Rightarrow> project \<Rightarrow> project" where
  "upd_lane trackId i f = upd_lanes trackId (update_first (\<lambda>l. l_id l = i) f)"

section \<open>Interpretations\<close>

text \<open>The document itself, with its list of tracks, its scenes and its master lanes.\<close>

interpretation tracks: child Some "\<lambda>f. f" "\<lambda>_. ()" d_tracks "\<lambda>f d. d\<lparr>d_tracks := f (d_tracks d)\<rparr>" t_id i for i
  by unfold_locales simp_all

interpretation track: focus "find_track i" "upd_track i" t_id for i
  using tracks.focus_child [of i] by (simp add: find_track_def [abs_def] upd_track_def [abs_def])

interpretation scenes: child Some "\<lambda>f. f" "\<lambda>_. ()" "\<lambda>d. or_else (d_scenes d) []"
  "\<lambda>f d. d\<lparr>d_scenes := map_option f (d_scenes d)\<rparr>" sc_id i for i
  by unfold_locales (auto simp: or_else_def option.map_comp comp_def option.map_ident split: option.splits)

interpretation scene: focus "find_scene i" "upd_scene i" sc_id for i
  using scenes.focus_child [of i] by (simp add: find_scene_def [abs_def] upd_scene_def [abs_def])

interpretation clips: child "find_track t" "upd_track t" t_id t_clips
  "\<lambda>f t. t\<lparr>t_clips := f (t_clips t)\<rparr>" c_id i for t i
  by unfold_locales simp_all

interpretation clip: focus "find_clip t i" "upd_clip t i" c_id for t i
  using clips.focus_child [of t i] by (simp add: find_clip_def [abs_def] upd_clip_def [abs_def])

interpretation procs: child "find_track t" "upd_track t" t_id t_chain
  "\<lambda>f t. t\<lparr>t_chain := f (t_chain t)\<rparr>" p_id i for t i
  by unfold_locales simp_all

interpretation proc: focus "find_proc t i" "upd_proc t i" p_id for t i
  using procs.focus_child [of t i] by (simp add: find_proc_def [abs_def] upd_proc_def [abs_def])

interpretation note_list: child "find_clip t c" "upd_clip t c" c_id "\<lambda>c. or_else (c_notes c) []"
  "\<lambda>f c. c\<lparr>c_notes := map_option f (c_notes c)\<rparr>" n_id "Some i" for t c i
  by unfold_locales (auto simp: or_else_def option.map_comp comp_def option.map_ident split: option.splits)

interpretation note_focus: focus "find_note t c i" "upd_note t c i" n_id for t c i
  using note_list.focus_child [of t c i] by (simp add: find_note_def [abs_def] upd_note_def [abs_def])

interpretation master_lanes: child Some "\<lambda>f. f" "\<lambda>_. ()" "\<lambda>d. or_else (d_automation d) []"
  "\<lambda>f d. d\<lparr>d_automation := map_option f (d_automation d)\<rparr>" l_id i for i
  by unfold_locales (auto simp: or_else_def option.map_comp comp_def option.map_ident split: option.splits)

interpretation track_lanes: child "find_track t" "upd_track t" t_id "\<lambda>t. or_else (t_automation t) []"
  "\<lambda>f t. t\<lparr>t_automation := map_option f (t_automation t)\<rparr>" l_id i for t i
  by unfold_locales (auto simp: or_else_def option.map_comp comp_def option.map_ident split: option.splits)

lemma find_lane_master: "find_lane None i = (\<lambda>d. List.find (\<lambda>l. l_id l = i) (or_else (d_automation d) []))"
  by (auto simp: find_lane_def lanesIn_def or_else_def fun_eq_iff split: option.splits)

lemma find_lane_track:
  "find_lane (Some t) i =
     (\<lambda>d. Option.bind (find_track t d) (\<lambda>t. List.find (\<lambda>l. l_id l = i) (or_else (t_automation t) [])))"
proof
  fix d
  have "Option.bind (t_automation tr) (List.find (\<lambda>l. l_id l = i)) =
      List.find (\<lambda>l. l_id l = i) (or_else (t_automation tr) [])" for tr
    by (cases "t_automation tr") simp_all
  then show "find_lane (Some t) i d =
      Option.bind (find_track t d) (\<lambda>t. List.find (\<lambda>l. l_id l = i) (or_else (t_automation t) []))"
    by (cases "find_track t d") (simp_all add: find_lane_def lanesIn_def)
qed

lemma focus_lane: "focus (find_lane trackId i) (upd_lane trackId i) l_id"
proof (cases trackId)
  case None
  have "upd_lane None i = (\<lambda>f d. d\<lparr>d_automation := map_option (update_first (\<lambda>l. l_id l = i) f) (d_automation d)\<rparr>)"
    by (simp add: upd_lane_def upd_lanes_def fun_eq_iff)
  then show ?thesis
    using master_lanes.focus_child [of i] by (simp add: None find_lane_master)
next
  case (Some t)
  have "upd_lane (Some t) i =
      (\<lambda>f. upd_track t (\<lambda>t. t\<lparr>t_automation := map_option (update_first (\<lambda>l. l_id l = i) f) (t_automation t)\<rparr>))"
    by (simp add: upd_lane_def upd_lanes_def fun_eq_iff)
  then show ?thesis
    using track_lanes.focus_child [of t i] by (simp add: Some find_lane_track)
qed

interpretation lane: focus "find_lane trackId i" "upd_lane trackId i" l_id for trackId i
  by (rule focus_lane)

end
