(* ===== verification/Mutators.thy ===== *)
theory Mutators
  imports Focus Undo Geometry Validate
begin

text \<open>
  The mutators of \<open>web/src/document/project.ts\<close>, on a document. Each reads the document, may return
  early, captures the inverse of what it is about to do and hands a callback to
  \<open>Automerge.change\<close>; so a mutator is a function from the document to \<open>None\<close> (the early return) or
  to the captured inverse and the callback. A conversion of samples to ticks may throw: the
  mutators that call it give a result. \<open>plain\<close>, the JSON copy of a captured object, is the identity,
  as it is on finite numbers.
\<close>

type_synonym step = "(inverse_op \<times> (project \<Rightarrow> project)) option"

section \<open>Helpers\<close>

definition timingOf :: "clip \<Rightarrow> clip_timing" where
  "timingOf c =
     \<lparr>ti_startSample = c_startSample c, ti_lengthSamples = c_lengthSamples c,
      ti_offsetSamples = c_offsetSamples c, ti_startTick = c_startTick c, ti_lengthTick = c_lengthTick c\<rparr>"

definition clampT :: "jsnum \<Rightarrow> jsnum" where
  "clampT t = js_round_from (js_int 0) t"

definition clampV :: "jsnum \<Rightarrow> jsnum" where
  "clampV v = js_clamp (js_int 0) (js_int 1) v"

text \<open>\<open>name.trim().slice(0, 64)\<close>\<close>

definition clean_name :: "string \<Rightarrow> string" where
  "clean_name n = take 64 (trim n)"

text \<open>\<open>index >= 0 && index <= length ? index : length\<close>\<close>

definition index_or_end :: "int \<Rightarrow> 'a list \<Rightarrow> nat" where
  "index_or_end i xs = (if 0 \<le> i \<and> i \<le> int (length xs) then nat i else length xs)"

text \<open>\<open>===\<close> on fields that may be absent.\<close>

fun opt_eq :: "jsnum option \<Rightarrow> jsnum option \<Rightarrow> bool" where
  "opt_eq None None = True"
| "opt_eq (Some a) (Some b) = js_eq a b"
| "opt_eq _ _ = False"

section \<open>Tracks, master and tempo\<close>

definition setTrackGain :: "string \<Rightarrow> jsnum \<Rightarrow> project \<Rightarrow> step" where
  "setTrackGain trackId gain doc =
     (case find_track trackId doc of
        None \<Rightarrow> None
      | Some track \<Rightarrow>
          Some (SetTrackGain trackId (t_gain track),
            upd_track trackId (\<lambda>t. t\<lparr>t_gain := js_clamp (js_int 0) (js_int 2) gain\<rparr>)))"

definition setTrackPan :: "string \<Rightarrow> jsnum \<Rightarrow> project \<Rightarrow> step" where
  "setTrackPan trackId pan doc =
     (case find_track trackId doc of
        None \<Rightarrow> None
      | Some track \<Rightarrow>
          Some (SetTrackPan trackId (or_else (t_pan track) (js_int 0)),
            upd_track trackId (\<lambda>t. t\<lparr>t_pan := Some (js_clamp (js_int (- 1)) (js_int 1) pan)\<rparr>)))"

definition setTrackOrder :: "string \<Rightarrow> jsnum \<Rightarrow> project \<Rightarrow> step" where
  "setTrackOrder trackId order doc =
     (case find_track trackId doc of
        None \<Rightarrow> None
      | Some track \<Rightarrow>
          if \<not> js_finite order \<or> opt_eq (t_order track) (Some order) then None
          else Some
            ((case t_order track of
                None \<Rightarrow> ClearTrackOrder trackId
              | Some old \<Rightarrow> SetTrackOrder trackId old),
             upd_track trackId (\<lambda>t. t\<lparr>t_order := Some order\<rparr>)))"

definition clearTrackOrder :: "string \<Rightarrow> project \<Rightarrow> step" where
  "clearTrackOrder trackId doc =
     (case find_track trackId doc of
        None \<Rightarrow> None
      | Some track \<Rightarrow>
          (case t_order track of
             None \<Rightarrow> None
           | Some old \<Rightarrow>
               Some (SetTrackOrder trackId old, upd_track trackId (\<lambda>t. t\<lparr>t_order := None\<rparr>))))"

definition renameTrack :: "string \<Rightarrow> string \<Rightarrow> project \<Rightarrow> step" where
  "renameTrack trackId name doc =
     (let next = clean_name name in
      case find_track trackId doc of
        None \<Rightarrow> None
      | Some track \<Rightarrow>
          if next = [] \<or> next = t_name track then None
          else Some (RenameTrack trackId (t_name track), upd_track trackId (\<lambda>t. t\<lparr>t_name := next\<rparr>)))"

definition renameClip :: "string \<Rightarrow> string \<Rightarrow> string \<Rightarrow> project \<Rightarrow> step" where
  "renameClip trackId clipId name doc =
     (case find_clip trackId clipId doc of
        None \<Rightarrow> None
      | Some clip \<Rightarrow>
          (let next = clean_name name in
           if next = or_else (c_name clip) [] then None
           else Some (RenameClip trackId clipId (or_else (c_name clip) []),
             upd_clip trackId clipId (\<lambda>c. c\<lparr>c_name := (if next = [] then None else Some next)\<rparr>))))"

definition setMasterGain :: "jsnum \<Rightarrow> project \<Rightarrow> step" where
  "setMasterGain gain doc =
     Some (SetMasterGain (or_else (d_masterGain doc) (js_int 1)),
       \<lambda>d. d\<lparr>d_masterGain := Some (js_clamp (js_int 0) (js_int 2) gain)\<rparr>)"

definition setTempoMilliBpm :: "jsnum \<Rightarrow> project \<Rightarrow> step" where
  "setTempoMilliBpm milliBpm doc =
     (let prev = or_else (d_tempoMilliBpm doc) (js_int 120000);
          next = clampMilliBpm milliBpm
      in if js_eq next prev \<and> d_tempoMilliBpm doc \<noteq> None then None
         else Some (SetTempo prev, \<lambda>d. (ensureV2 d)\<lparr>d_tempoMilliBpm := Some next\<rparr>))"

section \<open>Devices\<close>

definition setProcessorBypass :: "string \<Rightarrow> string \<Rightarrow> bool \<Rightarrow> project \<Rightarrow> step" where
  "setProcessorBypass trackId processorId bypass doc =
     (case find_proc trackId processorId doc of
        None \<Rightarrow> None
      | Some proc \<Rightarrow>
          Some (SetProcessorBypass trackId processorId (p_bypass proc),
            upd_proc trackId processorId (\<lambda>p. p\<lparr>p_bypass := bypass\<rparr>)))"

definition has_key :: "string \<Rightarrow> param \<Rightarrow> bool" where
  "has_key k x \<longleftrightarrow> pr_key x = k"

definition setProcessorParam :: "string \<Rightarrow> string \<Rightarrow> string \<Rightarrow> jsnum \<Rightarrow> project \<Rightarrow> step" where
  "setProcessorParam trackId processorId k v doc =
     (case find_proc trackId processorId doc of
        None \<Rightarrow> None
      | Some proc \<Rightarrow>
          Some
            ((case List.find (has_key k) (p_params proc) of
                Some existing \<Rightarrow> SetProcessorParam trackId processorId k (pr_value existing)
              | None \<Rightarrow> RemoveProcessorParam trackId processorId k),
             upd_proc trackId processorId (\<lambda>p. p\<lparr>p_params :=
               (if List.find (has_key k) (p_params p) \<noteq> None
                then update_first (has_key k) (\<lambda>x. x\<lparr>pr_value := v\<rparr>) (p_params p)
                else p_params p @ [\<lparr>pr_key = k, pr_value = v\<rparr>])\<rparr>)))"

definition removeProcessorParam :: "string \<Rightarrow> string \<Rightarrow> string \<Rightarrow> project \<Rightarrow> step" where
  "removeProcessorParam trackId processorId k doc =
     (case find_proc trackId processorId doc of
        None \<Rightarrow> None
      | Some proc \<Rightarrow>
          (case List.find (has_key k) (p_params proc) of
             None \<Rightarrow> None
           | Some existing \<Rightarrow>
               Some (SetProcessorParam trackId processorId k (pr_value existing),
                 upd_proc trackId processorId
                   (\<lambda>p. p\<lparr>p_params := remove_first (has_key k) (p_params p)\<rparr>))))"

definition addProcessor :: "string \<Rightarrow> processor \<Rightarrow> int option \<Rightarrow> project \<Rightarrow> step" where
  "addProcessor trackId proc index doc =
     (case find_track trackId doc of
        None \<Rightarrow> None
      | Some track \<Rightarrow>
          if \<exists>p\<in>set (t_chain track). p_id p = p_id proc then None
          else Some (RemoveProcessor trackId (p_id proc),
            upd_track trackId (\<lambda>t. t\<lparr>t_chain :=
              (case index of
                 Some i \<Rightarrow> splice_in (index_or_end i (t_chain t)) proc (t_chain t)
               | None \<Rightarrow> t_chain t @ [proc])\<rparr>)))"

definition removeProcessor :: "string \<Rightarrow> string \<Rightarrow> project \<Rightarrow> step" where
  "removeProcessor trackId processorId doc =
     (case find_track trackId doc of
        None \<Rightarrow> None
      | Some track \<Rightarrow>
          (case find_index (\<lambda>p. p_id p = processorId) (t_chain track) of
             None \<Rightarrow> None
           | Some index \<Rightarrow>
               Some (AddProcessor trackId (t_chain track ! index) (Some (int index)),
                 upd_track trackId
                   (\<lambda>t. t\<lparr>t_chain := remove_first (\<lambda>p. p_id p = processorId) (t_chain t)\<rparr>))))"

text \<open>The start of \<open>splice\<close>: a number is truncated, NaN counts as 0.\<close>

definition splice_index :: "jsnum \<Rightarrow> nat" where
  "splice_index v = (case v of Fin x \<Rightarrow> nat \<lfloor>x\<rfloor> | _ \<Rightarrow> 0)"

text \<open>The callback of \<open>moveProcessor\<close> on the track: out, then in at the index clamped again.\<close>

definition move_device :: "string \<Rightarrow> processor \<Rightarrow> jsnum \<Rightarrow> track \<Rightarrow> track" where
  "move_device processorId copy to_ix t =
     (case find_index (\<lambda>p. p_id p = processorId) (t_chain t) of
        None \<Rightarrow> t
      | Some i \<Rightarrow>
          (let rest = splice_out i (t_chain t);
               pos = js_clamp (js_int 0) (js_int (int (length rest))) to_ix
           in t\<lparr>t_chain := splice_in (splice_index pos) copy rest\<rparr>))"

definition moveProcessor :: "string \<Rightarrow> string \<Rightarrow> jsnum \<Rightarrow> project \<Rightarrow> step" where
  "moveProcessor trackId processorId toIndex doc =
     (case find_track trackId doc of
        None \<Rightarrow> None
      | Some track \<Rightarrow>
          (case find_index (\<lambda>p. p_id p = processorId) (t_chain track) of
             None \<Rightarrow> None
           | Some origin \<Rightarrow>
               (let to_ix = js_clamp (js_int 0) (js_int (int (length (t_chain track)) - 1)) (js_round toIndex);
                    copy = t_chain track ! origin
                in if js_eq to_ix (js_int (int origin)) then None
                   else Some (MoveProcessor trackId processorId (js_int (int origin)),
                     upd_track trackId (move_device processorId copy to_ix)))))"

section \<open>Clips\<close>

definition setClipTiming :: "string \<Rightarrow> string \<Rightarrow> clip_timing \<Rightarrow> project \<Rightarrow> step" where
  "setClipTiming trackId clipId timing doc =
     (case find_clip trackId clipId doc of
        None \<Rightarrow> None
      | Some clip \<Rightarrow>
          Some (SetClipTiming trackId clipId (timingOf clip),
            \<lambda>d. if find_clip trackId clipId d = None then d
                else upd_clip trackId clipId
                  (\<lambda>c. c\<lparr>c_startSample := map_option (js_round_from (js_int 0)) (ti_startSample timing),
                         c_lengthSamples := map_option (js_round_from (js_int 0)) (ti_lengthSamples timing),
                         c_offsetSamples := map_option (js_round_from (js_int 0)) (ti_offsetSamples timing),
                         c_startTick := map_option (js_round_from (js_int 0)) (ti_startTick timing),
                         c_lengthTick := map_option (js_round_from (js_int 0)) (ti_lengthTick timing)\<rparr>)
                  (if ti_startTick timing \<noteq> None \<or> ti_lengthTick timing \<noteq> None
                   then ensureV2 d else d)))"

text \<open>\<open>clampTick(sampleToTick(this.doc, sample))\<close>\<close>

definition targetTick :: "project \<Rightarrow> jsnum \<Rightarrow> jsnum js_result" where
  "targetTick doc sample = js_bind (sampleToTick doc sample) (\<lambda>t. Inr (clampTick (Some t)))"

definition setClipStart :: "string \<Rightarrow> string \<Rightarrow> jsnum \<Rightarrow> project \<Rightarrow> step js_result" where
  "setClipStart trackId clipId startSample doc =
     (case find_clip trackId clipId doc of
        None \<Rightarrow> Inr None
      | Some clip \<Rightarrow>
          if isMusicalClip clip then
            js_bind (targetTick doc startSample) (\<lambda>st.
              Inr (setClipTiming trackId clipId ((timingOf clip)\<lparr>ti_startTick := Some st\<rparr>) doc))
          else Inr (Some (SetClipStart trackId clipId (or_else (c_startSample clip) (js_int 0)),
            upd_clip trackId clipId
              (\<lambda>c. c\<lparr>c_startSample := Some (js_round_from (js_int 0) startSample)\<rparr>))))"

text \<open>An absent offset is captured as \<open>undefined\<close>, which rounds to NaN like NaN.\<close>

definition setClipBounds :: "string \<Rightarrow> string \<Rightarrow> clip_bounds \<Rightarrow> project \<Rightarrow> step js_result" where
  "setClipBounds trackId clipId bounds doc =
     (case find_clip trackId clipId doc of
        None \<Rightarrow> Inr None
      | Some clip \<Rightarrow>
          if isMusicalClip clip then
            js_bind (targetTick doc (b_startSample bounds)) (\<lambda>st.
            js_bind (case c_lengthTick clip of
                Some _ \<Rightarrow>
                  js_bind (targetTick doc (js_add (b_startSample bounds) (b_lengthSamples bounds))) (\<lambda>en.
                    Inr ((timingOf clip)\<lparr>ti_lengthTick := Some (js_max (js_int 1) (js_sub en st))\<rparr>))
              | None \<Rightarrow>
                  Inr ((timingOf clip)\<lparr>ti_lengthSamples :=
                    Some (js_round_from (js_int 1024) (b_lengthSamples bounds))\<rparr>)) (\<lambda>timing.
              Inr (setClipTiming trackId clipId
                (timing\<lparr>ti_startTick := Some st,
                   ti_offsetSamples := Some (js_round_from (js_int 0) (b_offsetSamples bounds))\<rparr>) doc)))
          else Inr (Some (SetClipBounds trackId clipId
              \<lparr>b_startSample = or_else (c_startSample clip) (js_int 0),
               b_lengthSamples = or_else (c_lengthSamples clip) (js_int 0),
               b_offsetSamples = or_else (c_offsetSamples clip) NaN\<rparr>,
            upd_clip trackId clipId
              (\<lambda>c. c\<lparr>c_startSample := Some (js_round_from (js_int 0) (b_startSample bounds)),
                     c_lengthSamples := Some (js_round_from (js_int 1024) (b_lengthSamples bounds)),
                     c_offsetSamples := Some (js_round_from (js_int 0) (b_offsetSamples bounds))\<rparr>))))"

definition setClipFades :: "string \<Rightarrow> string \<Rightarrow> jsnum \<Rightarrow> jsnum \<Rightarrow> project \<Rightarrow> step" where
  "setClipFades trackId clipId fadeIn fadeOut doc =
     (case find_clip trackId clipId doc of
        None \<Rightarrow> None
      | Some clip \<Rightarrow>
          Some (SetClipFades trackId clipId (or_else (c_fadeInSamples clip) (js_int 0))
              (or_else (c_fadeOutSamples clip) (js_int 0)),
            upd_clip trackId clipId (\<lambda>c.
              let half = js_floor (js_div (or_else (c_lengthSamples c) (js_int 0)) (js_int 2))
              in c\<lparr>c_fadeInSamples := Some (js_clamp (js_int 0) half (js_round fadeIn)),
                   c_fadeOutSamples := Some (js_clamp (js_int 0) half (js_round fadeOut))\<rparr>)))"

definition deleteClip :: "string \<Rightarrow> string \<Rightarrow> project \<Rightarrow> step" where
  "deleteClip trackId clipId doc =
     (case find_clip trackId clipId doc of
        None \<Rightarrow> None
      | Some clip \<Rightarrow>
          Some (AddClip trackId clip,
            upd_track trackId (\<lambda>t. t\<lparr>t_clips := remove_first (\<lambda>c. c_id c = clipId) (t_clips t)\<rparr>)))"

definition addClip :: "string \<Rightarrow> clip \<Rightarrow> project \<Rightarrow> step" where
  "addClip trackId clip doc =
     (case find_track trackId doc of
        None \<Rightarrow> None
      | Some track \<Rightarrow>
          Some (DeleteClip trackId (c_id clip),
            \<lambda>d. if find_track trackId d = None then d
                else upd_track trackId (\<lambda>t. t\<lparr>t_clips := t_clips t @ [clip]\<rparr>)
                  (if isMusicalClip clip then ensureV2 d else d)))"

definition setClipScene :: "string \<Rightarrow> string \<Rightarrow> string \<Rightarrow> project \<Rightarrow> step" where
  "setClipScene trackId clipId sceneId doc =
     (case find_clip trackId clipId doc of
        None \<Rightarrow> None
      | Some clip \<Rightarrow>
          (let old = or_else (c_sceneId clip) [] in
           if old = [] \<or> old = sceneId then None
           else Some (SetClipScene trackId clipId old,
             upd_clip trackId clipId (\<lambda>c. c\<lparr>c_sceneId := Some sceneId\<rparr>))))"

section \<open>Notes\<close>

definition same_note :: "midi_note \<Rightarrow> midi_note \<Rightarrow> bool" where
  "same_note note n \<longleftrightarrow> js_eq (n_pitch n) (n_pitch note) \<and>
     (if n_startTick note \<noteq> None then opt_eq (n_startTick n) (n_startTick note)
      else opt_eq (n_startSample n) (n_startSample note))"

text \<open>The callback of \<open>toggleNote\<close>; \<open>u\<close> is the UUID drawn for a note that has no id yet.\<close>

definition toggle_draft :: "string \<Rightarrow> string \<Rightarrow> string \<Rightarrow> midi_note \<Rightarrow> project \<Rightarrow> project" where
  "toggle_draft u trackId clipId note d =
     (case find_clip trackId clipId d of
        None \<Rightarrow> d
      | Some c \<Rightarrow>
          (let notes = or_else (c_notes c) [] in
           case find_index (same_note note) notes of
             Some i \<Rightarrow> upd_clip trackId clipId (\<lambda>c. c\<lparr>c_notes := Some (splice_out i notes)\<rparr>) d
           | None \<Rightarrow>
               upd_clip trackId clipId
                 (\<lambda>c. c\<lparr>c_notes := Some (notes @
                    [note\<lparr>n_id := Some (or_else (n_id note) (newId ''n'' None u))\<rparr>])\<rparr>)
                 (if n_startTick note \<noteq> None then ensureV2 d else d)))"

definition toggleNote :: "string \<Rightarrow> string \<Rightarrow> string \<Rightarrow> midi_note \<Rightarrow> project \<Rightarrow> step" where
  "toggleNote u trackId clipId note doc =
     (case find_clip trackId clipId doc of
        None \<Rightarrow> None
      | Some clip \<Rightarrow> Some (ToggleNote trackId clipId note, toggle_draft u trackId clipId note))"

text \<open>The value kept where the patch has the field.\<close>

definition if_patched :: "'a option \<Rightarrow> 'b option \<Rightarrow> 'b option" where
  "if_patched p v = (if p = None then None else v)"

definition inverse_patch :: "note_patch \<Rightarrow> midi_note \<Rightarrow> note_patch" where
  "inverse_patch patch n =
     \<lparr>np_pitch = if_patched (np_pitch patch) (Some (n_pitch n)),
      np_velocity = if_patched (np_velocity patch) (Some (n_velocity n)),
      np_startSample = if_patched (np_startSample patch) (n_startSample n),
      np_lengthSamples = if_patched (np_lengthSamples patch) (n_lengthSamples n),
      np_startTick = if_patched (np_startTick patch) (n_startTick n),
      np_lengthTick = if_patched (np_lengthTick patch) (n_lengthTick n)\<rparr>"

text \<open>\<open>typeof v === 'number' ? v : field\<close>\<close>

definition patch_option :: "'a option \<Rightarrow> 'a option \<Rightarrow> 'a option" where
  "patch_option p v = (case p of None \<Rightarrow> v | Some x \<Rightarrow> Some x)"

definition apply_patch :: "note_patch \<Rightarrow> midi_note \<Rightarrow> midi_note" where
  "apply_patch patch n = n\<lparr>
     n_pitch := or_else (np_pitch patch) (n_pitch n),
     n_velocity := or_else (np_velocity patch) (n_velocity n),
     n_startSample := patch_option (np_startSample patch) (n_startSample n),
     n_lengthSamples := patch_option (np_lengthSamples patch) (n_lengthSamples n),
     n_startTick := patch_option (np_startTick patch) (n_startTick n),
     n_lengthTick := patch_option (np_lengthTick patch) (n_lengthTick n)\<rparr>"

definition updateNote :: "string \<Rightarrow> string \<Rightarrow> string \<Rightarrow> note_patch \<Rightarrow> project \<Rightarrow> step" where
  "updateNote trackId clipId noteId patch doc =
     (case find_note trackId clipId noteId doc of
        None \<Rightarrow> None
      | Some before \<Rightarrow>
          Some (UpdateNote trackId clipId noteId (inverse_patch patch before),
            upd_note trackId clipId noteId (apply_patch patch)))"

section \<open>Tracks and scenes as a whole\<close>

definition addTrack :: "track \<Rightarrow> project \<Rightarrow> step" where
  "addTrack track doc =
     Some (DeleteTrack (t_id track), \<lambda>d. d\<lparr>d_tracks := d_tracks d @ [track]\<rparr>)"

definition deleteTrack :: "string \<Rightarrow> project \<Rightarrow> step" where
  "deleteTrack trackId doc =
     (case find_track trackId doc of
        None \<Rightarrow> None
      | Some track \<Rightarrow>
          Some (AddTrack track, \<lambda>d. d\<lparr>d_tracks := remove_first (\<lambda>t. t_id t = trackId) (d_tracks d)\<rparr>))"

text \<open>\<open>addScene\<close> draws its id; here it is an argument.\<close>

definition addScene :: "string \<Rightarrow> string \<Rightarrow> project \<Rightarrow> step" where
  "addScene sceneId name doc =
     Some (DeleteScene sceneId,
       \<lambda>d. d\<lparr>d_scenes := Some (or_else (d_scenes d) [] @ [\<lparr>sc_id = sceneId, sc_name = name\<rparr>])\<rparr>)"

definition renameScene :: "string \<Rightarrow> string \<Rightarrow> project \<Rightarrow> step" where
  "renameScene sceneId name doc =
     (let next = clean_name name in
      case find_scene sceneId doc of
        None \<Rightarrow> None
      | Some scene \<Rightarrow>
          if next = [] \<or> next = sc_name scene then None
          else Some (RenameScene sceneId (sc_name scene),
            upd_scene sceneId (\<lambda>s. s\<lparr>sc_name := next\<rparr>)))"

definition in_scene :: "string \<Rightarrow> clip \<Rightarrow> bool" where
  "in_scene sceneId c \<longleftrightarrow> c_sceneId c = Some sceneId"

definition scene_clips :: "string \<Rightarrow> project \<Rightarrow> (string \<times> clip) list" where
  "scene_clips sceneId doc =
     concat (map (\<lambda>t. map (Pair (t_id t)) (filter (in_scene sceneId) (t_clips t))) (d_tracks doc))"

definition deleteScene :: "string \<Rightarrow> project \<Rightarrow> step" where
  "deleteScene sceneId doc =
     (case find_scene sceneId doc of
        None \<Rightarrow> None
      | Some scene \<Rightarrow>
          (let index = (case find_index (\<lambda>s. sc_id s = sceneId) (or_else (d_scenes doc) []) of
                          Some i \<Rightarrow> int i | None \<Rightarrow> - 1)
           in Some (RestoreScene scene index (scene_clips sceneId doc),
             \<lambda>d. d\<lparr>d_tracks := map (\<lambda>t. t\<lparr>t_clips := filter (\<lambda>c. \<not> in_scene sceneId c) (t_clips t)\<rparr>)
                      (d_tracks d),
                   d_scenes := map_option (remove_first (\<lambda>s. sc_id s = sceneId)) (d_scenes d)\<rparr>)))"

definition restore_slot :: "string \<times> clip \<Rightarrow> project \<Rightarrow> project" where
  "restore_slot x = upd_track (fst x)
     (\<lambda>t. if \<exists>c\<in>set (t_clips t). c_id c = c_id (snd x) then t
          else t\<lparr>t_clips := t_clips t @ [snd x]\<rparr>)"

definition restoreScene :: "scene \<Rightarrow> int \<Rightarrow> (string \<times> clip) list \<Rightarrow> project \<Rightarrow> step" where
  "restoreScene scene index clips doc =
     (if \<exists>s\<in>set (or_else (d_scenes doc) []). sc_id s = sc_id scene then None
      else Some (DeleteScene (sc_id scene),
        \<lambda>d. let scenes = or_else (d_scenes d) []
            in fold restore_slot clips
              (d\<lparr>d_scenes := Some (splice_in (index_or_end index scenes) scene scenes)\<rparr>)))"

section \<open>Automation\<close>

definition track_present :: "string option \<Rightarrow> project \<Rightarrow> bool" where
  "track_present trackId doc \<longleftrightarrow>
     (case trackId of None \<Rightarrow> True | Some t \<Rightarrow> find_track t doc \<noteq> None)"

text \<open>The id is drawn by the caller, which returns it.\<close>

definition addAutomationLane :: "string \<Rightarrow> string option \<Rightarrow> lane_target \<Rightarrow> project \<Rightarrow> step" where
  "addAutomationLane laneId trackId target doc =
     (if \<not> track_present trackId doc then None
      else Some (DeleteAutomationLane trackId laneId,
        ensureLanes trackId (\<lambda>lanes. lanes @
          [\<lparr>l_id = laneId, l_target = target, l_points = [], l_enabled = True, l_timeBase = None\<rparr>])))"

definition deleteAutomationLane :: "string option \<Rightarrow> string \<Rightarrow> project \<Rightarrow> step" where
  "deleteAutomationLane trackId laneId doc =
     (let lanes = or_else (lanesIn trackId doc) [] in
      case find_index (\<lambda>l. l_id l = laneId) lanes of
        None \<Rightarrow> None
      | Some index \<Rightarrow>
          Some (RestoreAutomationLane trackId (lanes ! index) (int index),
            upd_lanes trackId (remove_first (\<lambda>l. l_id l = laneId))))"

definition restoreAutomationLane :: "string option \<Rightarrow> lane \<Rightarrow> int \<Rightarrow> project \<Rightarrow> step" where
  "restoreAutomationLane trackId lane index doc =
     (if \<not> track_present trackId doc then None
      else if \<exists>l\<in>set (or_else (lanesIn trackId doc) []). l_id l = l_id lane then None
      else Some (DeleteAutomationLane trackId (l_id lane),
        ensureLanes trackId (\<lambda>ls. splice_in (index_or_end index ls) lane ls)))"

definition setAutomationLaneEnabled :: "string option \<Rightarrow> string \<Rightarrow> bool \<Rightarrow> project \<Rightarrow> step" where
  "setAutomationLaneEnabled trackId laneId enabled doc =
     (case find_lane trackId laneId doc of
        None \<Rightarrow> None
      | Some lane \<Rightarrow>
          Some (SetAutomationLaneEnabled trackId laneId (l_enabled lane),
            upd_lane trackId laneId (\<lambda>l. l\<lparr>l_enabled := enabled\<rparr>)))"

definition point_at :: "jsnum \<Rightarrow> jsnum \<Rightarrow> auto_point" where
  "point_at t v = \<lparr>pt_t = t, pt_v = v\<rparr>"

definition addAutomationPoint :: "string option \<Rightarrow> string \<Rightarrow> jsnum \<Rightarrow> jsnum \<Rightarrow> project \<Rightarrow> step" where
  "addAutomationPoint trackId laneId t v doc =
     (case find_lane trackId laneId doc of
        None \<Rightarrow> None
      | Some lane \<Rightarrow>
          (let pt = clampT t; pv = clampV v;
               pos = length (filter (\<lambda>p. js_le (pt_t p) pt) (l_points lane))
           in Some (DeleteAutomationPoint trackId laneId (int pos),
             upd_lane trackId laneId (\<lambda>l. l\<lparr>l_points := splice_in pos (point_at pt pv) (l_points l)\<rparr>))))"

text \<open>\<open>points.filter((p, i) => i !== index && p.t <= pt).length\<close>\<close>

definition sorted_index :: "nat \<Rightarrow> jsnum \<Rightarrow> auto_point list \<Rightarrow> nat" where
  "sorted_index index pt ps =
     length (filter (\<lambda>(i, p). i \<noteq> index \<and> js_le (pt_t p) pt) (enumerate 0 ps))"

text \<open>The callback of \<open>moveAutomationPoint\<close> on the lane: rewrite in place, or out and in.\<close>

definition move_point :: "nat \<Rightarrow> nat \<Rightarrow> auto_point \<Rightarrow> lane \<Rightarrow> lane" where
  "move_point index newIndex p l =
     (if length (l_points l) \<le> index then l
      else if newIndex = index then l\<lparr>l_points := (l_points l)[index := p]\<rparr>
      else l\<lparr>l_points := splice_in newIndex p (splice_out index (l_points l))\<rparr>)"

definition moveAutomationPoint :: "string option \<Rightarrow> string \<Rightarrow> int \<Rightarrow> jsnum \<Rightarrow> jsnum \<Rightarrow> project \<Rightarrow> step" where
  "moveAutomationPoint trackId laneId index t v doc =
     (case find_lane trackId laneId doc of
        None \<Rightarrow> None
      | Some lane \<Rightarrow>
          if index < 0 \<or> int (length (l_points lane)) \<le> index then None
          else
            (let old = l_points lane ! nat index; pt = clampT t; pv = clampV v;
                 newIndex = sorted_index (nat index) pt (l_points lane)
             in Some (MoveAutomationPoint trackId laneId (int newIndex) (pt_t old) (pt_v old),
               upd_lane trackId laneId (move_point (nat index) newIndex (point_at pt pv)))))"

definition deleteAutomationPoint :: "string option \<Rightarrow> string \<Rightarrow> int \<Rightarrow> project \<Rightarrow> step" where
  "deleteAutomationPoint trackId laneId index doc =
     (case find_lane trackId laneId doc of
        None \<Rightarrow> None
      | Some lane \<Rightarrow>
          if index < 0 \<or> int (length (l_points lane)) \<le> index then None
          else
            (let p = l_points lane ! nat index
             in Some (AddAutomationPoint trackId laneId (pt_t p) (pt_v p),
               upd_lane trackId laneId (\<lambda>l.
                 if nat index < length (l_points l)
                 then l\<lparr>l_points := splice_out (nat index) (l_points l)\<rparr> else l))))"

section \<open>The dispatch of a replay\<close>

text \<open>The \<open>switch\<close> of \<open>replay\<close>; \<open>u\<close> is the UUID a replayed note toggle may draw.\<close>

fun replay_op :: "string \<Rightarrow> inverse_op \<Rightarrow> project \<Rightarrow> step js_result" where
  "replay_op u (SetTrackGain t g) d = Inr (setTrackGain t g d)"
| "replay_op u (SetTrackPan t p) d = Inr (setTrackPan t p d)"
| "replay_op u (SetTrackOrder t n) d = Inr (setTrackOrder t n d)"
| "replay_op u (ClearTrackOrder t) d = Inr (clearTrackOrder t d)"
| "replay_op u (RenameTrack t n) d = Inr (renameTrack t n d)"
| "replay_op u (RenameClip t c n) d = Inr (renameClip t c n d)"
| "replay_op u (SetMasterGain g) d = Inr (setMasterGain g d)"
| "replay_op u (SetTempo m) d = Inr (setTempoMilliBpm m d)"
| "replay_op u (SetProcessorBypass t p b) d = Inr (setProcessorBypass t p b d)"
| "replay_op u (SetProcessorParam t p k v) d = Inr (setProcessorParam t p k v d)"
| "replay_op u (RemoveProcessorParam t p k) d = Inr (removeProcessorParam t p k d)"
| "replay_op u (SetClipStart t c s) d = setClipStart t c s d"
| "replay_op u (SetClipBounds t c b) d = setClipBounds t c b d"
| "replay_op u (SetClipTiming t c ti) d = Inr (setClipTiming t c ti d)"
| "replay_op u (SetClipFades t c fi fo) d = Inr (setClipFades t c fi fo d)"
| "replay_op u (AddClip t c) d = Inr (addClip t c d)"
| "replay_op u (DeleteClip t c) d = Inr (deleteClip t c d)"
| "replay_op u (SetClipScene t c s) d = Inr (setClipScene t c s d)"
| "replay_op u (AddTrack t) d = Inr (addTrack t d)"
| "replay_op u (DeleteTrack t) d = Inr (deleteTrack t d)"
| "replay_op u (AddProcessor t p i) d = Inr (addProcessor t p i d)"
| "replay_op u (RemoveProcessor t p) d = Inr (removeProcessor t p d)"
| "replay_op u (MoveProcessor t p i) d = Inr (moveProcessor t p i d)"
| "replay_op u (ToggleNote t c n) d = Inr (toggleNote u t c n d)"
| "replay_op u (UpdateNote t c n p) d = Inr (updateNote t c n p d)"
| "replay_op u (RenameScene s n) d = Inr (renameScene s n d)"
| "replay_op u (DeleteScene s) d = Inr (deleteScene s d)"
| "replay_op u (RestoreScene s i cs) d = Inr (restoreScene s i cs d)"
| "replay_op u (DeleteAutomationLane t l) d = Inr (deleteAutomationLane t l d)"
| "replay_op u (RestoreAutomationLane t l i) d = Inr (restoreAutomationLane t l i d)"
| "replay_op u (SetAutomationLaneEnabled t l b) d = Inr (setAutomationLaneEnabled t l b d)"
| "replay_op u (AddAutomationPoint t l x v) d = Inr (addAutomationPoint t l x v d)"
| "replay_op u (MoveAutomationPoint t l i x v) d = Inr (moveAutomationPoint t l i x v d)"
| "replay_op u (DeleteAutomationPoint t l i) d = Inr (deleteAutomationPoint t l i d)"

lemmas track_mutators [mutator_defs] = setTrackGain_def setTrackPan_def setTrackOrder_def
  clearTrackOrder_def renameTrack_def setMasterGain_def setTempoMilliBpm_def addTrack_def deleteTrack_def

lemmas device_mutators [mutator_defs] = setProcessorBypass_def setProcessorParam_def
  removeProcessorParam_def addProcessor_def removeProcessor_def moveProcessor_def

lemmas clip_mutators [mutator_defs] = renameClip_def setClipTiming_def setClipStart_def
  setClipBounds_def setClipFades_def deleteClip_def addClip_def setClipScene_def

lemmas scene_mutators [mutator_defs] = addScene_def renameScene_def deleteScene_def restoreScene_def

lemmas note_mutators [mutator_defs] = toggleNote_def updateNote_def

lemmas lane_mutators [mutator_defs] = addAutomationLane_def deleteAutomationLane_def
  restoreAutomationLane_def setAutomationLaneEnabled_def addAutomationPoint_def
  moveAutomationPoint_def deleteAutomationPoint_def

end
