(* ===== verification/Base64.thy ===== *)
theory Base64
  imports Prelude "HOL-Library.Word"
begin

text \<open>
  The bytes of a change as text, as \<open>encodeBase64\<close> and \<open>decodeBase64\<close> of
  \<open>web/src/network/server_client.ts\<close> write and read them with \<open>btoa\<close> and \<open>atob\<close> of the web platform
  (the latter with the forgiving decode of its standard: white space and padding are optional).
\<close>

type_synonym bytes = "8 word list"

section \<open>btoa and atob\<close>

text \<open>The letters in both cases, the digits, \<open>+\<close> and \<open>/\<close>.\<close>

definition b64_alphabet :: string where
  "b64_alphabet = map char_of ([65..<91] @ [97..<123] @ [48..<58] @ [43, 47 :: nat])"

definition b64_char :: "nat \<Rightarrow> char" where
  "b64_char n = b64_alphabet ! n"

definition b64_value :: "char \<Rightarrow> nat option" where
  "b64_value c = find_index (\<lambda>d. d = c) b64_alphabet"

text \<open>Three octets are four groups of six bits; one or two octets left over are padded with zeros.\<close>

fun sextets :: "nat list \<Rightarrow> nat list" where
  "sextets [] = []"
| "sextets [a] = [a div 4, (a mod 4) * 16]"
| "sextets [a, b] = [a div 4, (a mod 4) * 16 + b div 16, (b mod 16) * 4]"
| "sextets (a # b # c # r) =
     [a div 4, (a mod 4) * 16 + b div 16, (b mod 16) * 4 + c div 64, c mod 64] @ sextets r"

fun octets :: "nat list \<Rightarrow> nat list" where
  "octets (a # b # c # d # r) =
     [a * 4 + b div 16, (b mod 16) * 16 + c div 4, (c mod 4) * 64 + d] @ octets r"
| "octets [a, b, c] = [a * 4 + b div 16, (b mod 16) * 16 + c div 4]"
| "octets [a, b] = [a * 4 + b div 16]"
| "octets _ = []"

definition pad_of :: "nat \<Rightarrow> string" where
  "pad_of n = (if n mod 4 = 2 then ''=='' else if n mod 4 = 3 then ''='' else [])"

definition btoa :: "string \<Rightarrow> string" where
  "btoa s = (let v = sextets (map of_char s) in map b64_char v @ pad_of (length v))"

definition drop_pad :: "string \<Rightarrow> string" where
  "drop_pad s = (if s \<noteq> [] \<and> last s = CHR ''='' then butlast s else s)"

definition ascii_white :: "char \<Rightarrow> bool" where
  "ascii_white c \<longleftrightarrow> of_char c \<in> {9, 10, 12, 13, 32 :: nat}"

fun all_values :: "string \<Rightarrow> nat list option" where
  "all_values [] = Some []"
| "all_values (c # s) = (case b64_value c of
     None \<Rightarrow> None | Some n \<Rightarrow> map_option (\<lambda>v. n # v) (all_values s))"

text \<open>\<open>None\<close> is the exception \<open>InvalidCharacterError\<close>.\<close>

definition atob :: "string \<Rightarrow> string option" where
  "atob s0 =
     (let s1 = filter (\<lambda>c. \<not> ascii_white c) s0;
          s = (if length s1 mod 4 = 0 then drop_pad (drop_pad s1) else s1)
      in if length s mod 4 = 1 then None
         else map_option (\<lambda>v. map char_of (octets v)) (all_values s))"

section \<open>The codec of a change\<close>

definition encodeBase64 :: "bytes \<Rightarrow> string" where
  "encodeBase64 bytes = btoa (map (\<lambda>b. char_of (unat b)) bytes)"

definition decodeBase64 :: "string \<Rightarrow> bytes option" where
  "decodeBase64 b64 = map_option (map (\<lambda>c. of_nat (of_char c))) (atob b64)"

section \<open>Round trip\<close>

lemma find_index_distinct: "distinct xs \<Longrightarrow> i < length xs \<Longrightarrow> find_index (\<lambda>d. d = xs ! i) xs = Some i"
proof (induction xs arbitrary: i)
  case (Cons x xs)
  then show ?case by (cases i) auto
qed simp

lemma b64_alphabet_facts: "distinct b64_alphabet" "length b64_alphabet = 64" "CHR ''='' \<notin> set b64_alphabet"
proof -
  have inj: "inj_on char_of {..<256::nat}"
    by (auto intro!: inj_onI dest!: arg_cong [where f = "of_char :: char \<Rightarrow> nat"] simp: take_bit_eq_mod)
  show "distinct b64_alphabet"
    unfolding b64_alphabet_def distinct_map
    by (intro conjI inj_on_subset [OF inj]) auto
  show "length b64_alphabet = 64" by (simp add: b64_alphabet_def)
  have "of_char (CHR ''='') = (61::nat)" by simp
  then have "CHR ''='' = char_of (61::nat)" by (metis char_of_char)
  then show "CHR ''='' \<notin> set b64_alphabet"
    by (auto simp: b64_alphabet_def dest: inj_onD [OF inj])
qed

lemma b64_alphabet_black: "\<forall>c\<in>set b64_alphabet. \<not> ascii_white c"
  by (auto simp: b64_alphabet_def ascii_white_def)

lemma b64_char_facts:
  assumes "n < 64"
  shows "b64_value (b64_char n) = Some n" and "b64_char n \<noteq> CHR ''=''" and "\<not> ascii_white (b64_char n)"
proof -
  have "n < length b64_alphabet" using assms by (simp add: b64_alphabet_facts)
  then have m: "b64_char n \<in> set b64_alphabet" by (simp add: b64_char_def)
  show "b64_value (b64_char n) = Some n"
    unfolding b64_value_def b64_char_def
    by (rule find_index_distinct [OF b64_alphabet_facts(1) \<open>n < length b64_alphabet\<close>])
  show "b64_char n \<noteq> CHR ''=''" using m b64_alphabet_facts(3) by auto
  show "\<not> ascii_white (b64_char n)" using m b64_alphabet_black by auto
qed

lemma sextets_bound: "\<forall>x\<in>set os. x < 256 \<Longrightarrow> \<forall>x\<in>set (sextets os). x < 64"
proof (induction os rule: sextets.induct)
  case (3 a b)
  then have "a mod 4 * 16 + b div 16 < 64" and "b mod 16 * 4 < 64" by auto
  then show ?case using 3 by auto
next
  case (4 a b c r)
  then have "a mod 4 * 16 + b div 16 < 64" and "b mod 16 * 4 + c div 64 < 64" by auto
  then show ?case using 4 by auto
qed auto

lemma sextets_length: "length (sextets os) mod 4 \<noteq> 1"
  by (induction os rule: sextets.induct) auto

lemma octets_sextets: "\<forall>x\<in>set os. x < 256 \<Longrightarrow> octets (sextets os) = os"
proof (induction os rule: sextets.induct)
  case (3 a b)
  then show ?case by auto
next
  case (4 a b c r)
  then show ?case by auto
qed auto

lemma all_values_chars: "\<forall>x\<in>set v. x < 64 \<Longrightarrow> all_values (map b64_char v) = Some v"
  by (induction v) (auto simp: b64_char_facts)

lemma drop_pad_snoc [simp]: "drop_pad (s @ [CHR ''=''])  = s"
  by (simp add: drop_pad_def)

lemma drop_pad_two [simp]: "drop_pad (s @ ''=='') = s @ ''=''"
  using drop_pad_snoc [of "s @ ''=''"] by (simp only: append.assoc append.simps)

lemma drop_pad_none: "(\<forall>c\<in>set s. c \<noteq> CHR ''='') \<Longrightarrow> drop_pad s = s"
  by (cases s rule: rev_cases) (simp_all add: drop_pad_def)

lemma strip_pad:
  assumes "\<forall>c\<in>set s. c \<noteq> CHR ''=''" and "length s mod 4 \<noteq> 1"
  shows "length (s @ pad_of (length s)) mod 4 = 0"
    and "drop_pad (drop_pad (s @ pad_of (length s))) = s"
proof -
  have "length s mod 4 < 4" by simp
  with assms(2) consider "length s mod 4 = 0" | "length s mod 4 = 2" | "length s mod 4 = 3" by linarith
  note r = this
  show "length (s @ pad_of (length s)) mod 4 = 0"
    using r by cases (simp_all add: pad_of_def, presburger+)
  show "drop_pad (drop_pad (s @ pad_of (length s))) = s"
    using r assms(1) by cases (simp_all only: pad_of_def, simp_all add: drop_pad_none)
qed

lemma atob_btoa: "atob (btoa s) = Some s"
proof -
  define v where "v = sextets (map of_char s :: nat list)"
  have small: "\<forall>x\<in>set (map of_char s :: nat list). x < 256" by auto
  have v: "\<forall>x\<in>set v. x < 64" unfolding v_def by (rule sextets_bound [OF small])
  then have eq: "\<forall>c\<in>set (map b64_char v). c \<noteq> CHR ''=''" and wh: "\<forall>c\<in>set (map b64_char v). \<not> ascii_white c"
    by (auto simp: b64_char_facts)
  have "\<forall>c\<in>set (pad_of (length v)). \<not> ascii_white c" by (auto simp: pad_of_def ascii_white_def)
  with wh have "filter (\<lambda>c. \<not> ascii_white c) (btoa s) = map b64_char v @ pad_of (length v)"
    by (auto simp: btoa_def v_def [symmetric] Let_def filter_id_conv)
  moreover have "octets v = map of_char s"
    unfolding v_def by (rule octets_sextets [OF small])
  ultimately show ?thesis
    using strip_pad [OF eq] all_values_chars [OF v] sextets_length [of "map of_char s"]
    by (simp add: atob_def v_def [symmetric] Let_def comp_def)
qed

lemma byte_char: "of_nat (of_char (char_of (unat b) :: char)) = (b :: 8 word)"
proof -
  have "unat b < 256" using unsigned_less [where 'a = nat, of b] by simp
  then show ?thesis by simp
qed

lemma decode_encode [simp]: "decodeBase64 (encodeBase64 bs) = Some bs"
  by (simp only: decodeBase64_def encodeBase64_def atob_btoa option.map map_map comp_def byte_char map_ident)

text \<open>A change survives the text form of its queue: whatever its bytes, decoding the base64 text
  gives the change back.
\<close>

theorem base64_roundtrip: "decodeBase64 (encodeBase64 bytes) = Some bytes"
  by simp

end
