(* ===== verification/Project.thy ===== *)
theory Project
  imports Mutators Base64
begin

text \<open>
  The class \<open>Project\<close> of \<open>web/src/document/project.ts\<close>: the Automerge document, the queue of changes
  waiting to be sent, the undo journal; loading, merging and applying what comes from the network,
  the composite gestures, undo and redo. Automerge is a library and stays a parameter: a record of
  its functions, of which the properties assume the documented behaviour \<open>change_law\<close>.
\<close>

section \<open>Automerge\<close>

text \<open>\<open>'d\<close> is its document; \<open>None\<close> stands for a call that throws.\<close>

record 'd automerge =
  am_view :: "'d \<Rightarrow> project"
  am_change :: "'d \<Rightarrow> (project \<Rightarrow> project) \<Rightarrow> 'd"
  am_getLastLocalChange :: "'d \<Rightarrow> bytes option"
  am_load :: "bytes \<Rightarrow> 'd option"
  am_save :: "'d \<Rightarrow> bytes"
  am_getHeads :: "'d \<Rightarrow> string list"
  am_merge :: "'d \<Rightarrow> 'd \<Rightarrow> 'd option"
  am_applyChange :: "'d \<Rightarrow> bytes \<Rightarrow> 'd option"
  am_getMissingDeps :: "'d \<Rightarrow> string list"
  am_getChanges :: "'d \<Rightarrow> 'd \<Rightarrow> bytes list"
  am_seed :: 'd

text \<open>\<open>change(doc, f)\<close> returns the document whose content is the old one edited by \<open>f\<close>.\<close>

definition change_law :: "'d automerge \<Rightarrow> bool" where
  "change_law A \<longleftrightarrow> (\<forall>x f. am_view A (am_change A x f) = f (am_view A x))"

section \<open>State\<close>

record 'd project_state =
  ps_doc :: 'd
  ps_pending :: "bytes list"
  ps_journal :: journal

definition getDocument :: "'d automerge \<Rightarrow> 'd project_state \<Rightarrow> project" where
  "getDocument A s = am_view A (ps_doc s)"

definition new_project :: "'d automerge \<Rightarrow> 'd project_state" where
  "new_project A = \<lparr>ps_doc = am_seed A, ps_pending = [], ps_journal = empty_journal\<rparr>"

definition capturePending :: "'d automerge \<Rightarrow> 'd project_state \<Rightarrow> 'd project_state" where
  "capturePending A s =
     (case am_getLastLocalChange A (ps_doc s) of
        None \<Rightarrow> s
      | Some c \<Rightarrow> s\<lparr>ps_pending := ps_pending s @ [c]\<rparr>)"

definition getLastChange :: "'d project_state \<Rightarrow> bytes option \<times> 'd project_state" where
  "getLastChange s =
     (case ps_pending s of
        [] \<Rightarrow> (None, s)
      | c # cs \<Rightarrow> (Some c, s\<lparr>ps_pending := cs\<rparr>))"

text \<open>What every mutator does after its early returns: capture, change, queue.\<close>

definition commit ::
  "'d automerge \<Rightarrow> inverse_op \<Rightarrow> (project \<Rightarrow> project) \<Rightarrow> 'd project_state \<Rightarrow> 'd project_state" where
  "commit A iop f s =
     capturePending A (s\<lparr>ps_journal := capture iop (ps_journal s), ps_doc := am_change A (ps_doc s) f\<rparr>)"

definition perform :: "'d automerge \<Rightarrow> (project \<Rightarrow> step) \<Rightarrow> 'd project_state \<Rightarrow> 'd project_state" where
  "perform A m s =
     (case m (getDocument A s) of None \<Rightarrow> s | Some (iop, f) \<Rightarrow> commit A iop f s)"

text \<open>A mutator that throws leaves the state as it was.\<close>

definition perform_result ::
  "'d automerge \<Rightarrow> (project \<Rightarrow> step js_result) \<Rightarrow> 'd project_state \<Rightarrow> 'd project_state \<times> js_error option" where
  "perform_result A m s =
     (case m (getDocument A s) of
        Inl e \<Rightarrow> (s, Some e)
      | Inr st \<Rightarrow> (perform A (\<lambda>_. st) s, None))"

section \<open>Loading, merging, applying\<close>

definition load :: "'d automerge \<Rightarrow> bytes \<Rightarrow> 'd project_state \<Rightarrow> 'd project_state" where
  "load A data s =
     \<lparr>ps_doc = (case am_load A data of Some d \<Rightarrow> d | None \<Rightarrow> am_seed A),
      ps_pending = [], ps_journal = clear (ps_journal s)\<rparr>"

definition isPristineSeed :: "'d automerge \<Rightarrow> 'd project_state \<Rightarrow> bool" where
  "isPristineSeed A s =
     (case (am_getHeads A (ps_doc s), am_getHeads A (am_seed A)) of
        ([h], h' # _) \<Rightarrow> h = h' | _ \<Rightarrow> False)"

datatype merge_result = New | Same | Error

definition mergeRemote :: "'d automerge \<Rightarrow> bytes \<Rightarrow> 'd project_state \<Rightarrow> merge_result \<times> 'd project_state" where
  "mergeRemote A data s =
     (case am_load A data of
        None \<Rightarrow> (Error, s)
      | Some remote \<Rightarrow>
          (case am_merge A (ps_doc s) remote of
             None \<Rightarrow> (Error, s)
           | Some d \<Rightarrow>
               (if am_getHeads A (ps_doc s) \<noteq> am_getHeads A d then New else Same, s\<lparr>ps_doc := d\<rparr>)))"

definition applyChange :: "'d automerge \<Rightarrow> bytes \<Rightarrow> 'd project_state \<Rightarrow> bool \<times> 'd project_state" where
  "applyChange A change s =
     (case am_applyChange A (ps_doc s) change of
        None \<Rightarrow> (False, s)
      | Some d \<Rightarrow>
          (length (am_getMissingDeps A d) \<le> length (am_getMissingDeps A (ps_doc s)), s\<lparr>ps_doc := d\<rparr>))"

definition getMissingChanges :: "'d automerge \<Rightarrow> bytes \<Rightarrow> 'd project_state \<Rightarrow> bytes list" where
  "getMissingChanges A remoteBytes s =
     (case am_load A remoteBytes of None \<Rightarrow> [] | Some remote \<Rightarrow> am_getChanges A remote (ps_doc s))"

definition toBytes :: "'d automerge \<Rightarrow> 'd project_state \<Rightarrow> bytes" where
  "toBytes A s = am_save A (ps_doc s)"

section \<open>Groups, undo and redo\<close>

definition on_journal :: "(journal \<Rightarrow> journal) \<Rightarrow> 'd project_state \<Rightarrow> 'd project_state" where
  "on_journal f s = s\<lparr>ps_journal := f (ps_journal s)\<rparr>"

definition beginUndoGroup :: "'d project_state \<Rightarrow> 'd project_state" where
  "beginUndoGroup = on_journal beginGroup"

definition endUndoGroup :: "'d project_state \<Rightarrow> 'd project_state" where
  "endUndoGroup = on_journal endGroup"

text \<open>
  \<open>replay\<close>: the operations in order, until one throws. \<open>us\<close> holds the UUIDs that may be drawn, one
  for each operation. \<open>emit\<close>, which sends the pending changes, belongs to the caller.
\<close>

fun replay ::
  "'d automerge \<Rightarrow> string list \<Rightarrow> inverse_op list \<Rightarrow> 'd project_state \<Rightarrow> 'd project_state \<times> js_error option" where
  "replay A us [] s = (s, None)"
| "replay A us (op # ops) s =
     (case perform_result A (replay_op (case us of u # _ \<Rightarrow> u | [] \<Rightarrow> []) op) s of
        (s', Some e) \<Rightarrow> (s', Some e)
      | (s', None) \<Rightarrow> replay A (tl us) ops s')"

definition routeReplay ::
  "route \<Rightarrow> ('d project_state \<Rightarrow> 'd project_state \<times> js_error option) \<Rightarrow>
   'd project_state \<Rightarrow> 'd project_state \<times> js_error option" where
  "routeReplay direction fn s =
     (let (s', e) = fn (on_journal (openReplay direction) s)
      in (on_journal closeReplay s', e))"

text \<open>The result tells whether something was undone, or what was thrown on the way.\<close>

definition undo :: "'d automerge \<Rightarrow> string list \<Rightarrow> 'd project_state \<Rightarrow> 'd project_state \<times> bool js_result" where
  "undo A us s =
     (case popUndo (ps_journal s) of
        (None, _) \<Rightarrow> (s, Inr False)
      | (Some ops, j) \<Rightarrow>
          (let (s', e) = routeReplay ToRedo (replay A us ops) (s\<lparr>ps_journal := j\<rparr>)
           in (s', case e of None \<Rightarrow> Inr True | Some e \<Rightarrow> Inl e)))"

definition redo :: "'d automerge \<Rightarrow> string list \<Rightarrow> 'd project_state \<Rightarrow> 'd project_state \<times> bool js_result" where
  "redo A us s =
     (case popRedo (ps_journal s) of
        (None, _) \<Rightarrow> (s, Inr False)
      | (Some ops, j) \<Rightarrow>
          (let (s', e) = routeReplay ToUndo (replay A us ops) (s\<lparr>ps_journal := j\<rparr>)
           in (s', case e of None \<Rightarrow> Inr True | Some e \<Rightarrow> Inl e)))"

section \<open>Composite gestures\<close>

text \<open>\<open>if (n)\<close> for a number: 0 and NaN are falsy.\<close>

definition js_truthy :: "jsnum \<Rightarrow> bool" where
  "js_truthy v \<longleftrightarrow> v \<noteq> NaN \<and> v \<noteq> js_int 0"

text \<open>
  \<open>splitClip\<close>: \<open>u\<close> is the UUID of the right half. On an absolute clip none of the calls throws, so the
  error of \<open>setClipBounds\<close> is dropped.
\<close>

definition splitClip ::
  "'d automerge \<Rightarrow> string \<Rightarrow> string \<Rightarrow> string \<Rightarrow> jsnum \<Rightarrow> 'd project_state \<Rightarrow> string option \<times> 'd project_state" where
  "splitClip A u trackId clipId atSample s =
     (case find_clip trackId clipId (getDocument A s) of
        None \<Rightarrow> (None, s)
      | Some clip \<Rightarrow>
          if c_assetHash clip = [] then (None, s)
          else if isMusicalClip clip then (None, s)
          else
            (let cut = js_round atSample;
                 startS = or_else (c_startSample clip) (js_int 0);
                 lenS = or_else (c_lengthSamples clip) (js_int 0);
                 left = js_sub cut startS;
                 right = js_sub (js_add startS lenS) cut;
                 off = or_else (c_offsetSamples clip) NaN
             in if js_lt left (js_int 1024) \<or> js_lt right (js_int 1024) then (None, s)
                else
                  (let rightId = newId ''clip'' None u;
                       fadeIn = or_else (c_fadeInSamples clip) (js_int 0);
                       fadeOut = or_else (c_fadeOutSamples clip) (js_int 0);
                       rightClip = \<lparr>c_id = rightId, c_name = c_name clip, c_assetHash = c_assetHash clip,
                         c_startSample = Some cut, c_lengthSamples = Some right,
                         c_offsetSamples = Some (js_add off left), c_fadeInSamples = None,
                         c_fadeOutSamples = (if js_truthy fadeOut then Some fadeOut else None),
                         c_notes = None, c_sceneId = None, c_startTick = None, c_lengthTick = None\<rparr>;
                       s = beginUndoGroup s;
                       s = fst (perform_result A (setClipBounds trackId clipId
                             \<lparr>b_startSample = startS, b_lengthSamples = left, b_offsetSamples = off\<rparr>) s);
                       s = (if js_truthy fadeIn \<or> js_truthy fadeOut
                            then perform A (setClipFades trackId clipId fadeIn (js_int 0)) s else s);
                       s = perform A (addClip trackId rightClip) s
                   in (Some rightId, endUndoGroup s))))"

definition moveClipToTrack ::
  "'d automerge \<Rightarrow> string \<Rightarrow> string \<Rightarrow> string \<Rightarrow> jsnum option \<Rightarrow> 'd project_state \<Rightarrow>
   'd project_state \<times> js_error option" where
  "moveClipToTrack A fromTrackId clipId toTrackId startSample s =
     (let doc = getDocument A s in
      case find_clip fromTrackId clipId doc of
        None \<Rightarrow> (s, None)
      | Some clip \<Rightarrow>
          if find_track toTrackId doc = None then (s, None)
          else
            (case clipStartSamples clip doc of
               Inl e \<Rightarrow> (s, Some e)
             | Inr curStart \<Rightarrow>
                 (let dest = js_round_from (js_int 0) (or_else startSample curStart)
                  in if fromTrackId = toTrackId \<and> js_eq dest curStart then (s, None)
                     else
                       (case (if isMusicalClip clip
                              then js_bind (targetTick doc dest) (\<lambda>t. Inr (clip\<lparr>c_startTick := Some t\<rparr>))
                              else Inr (clip\<lparr>c_startSample := Some dest\<rparr>)) of
                          Inl e \<Rightarrow> (s, Some e)
                        | Inr copy \<Rightarrow>
                            (let s = beginUndoGroup s;
                                 s = perform A (deleteClip fromTrackId clipId) s;
                                 s = perform A (addClip toTrackId copy) s
                             in (endUndoGroup s, None))))))"

definition addMidiClip ::
  "'d automerge \<Rightarrow> string \<Rightarrow> string \<Rightarrow> jsnum \<Rightarrow> jsnum \<Rightarrow> 'd project_state \<Rightarrow>
   string js_result \<times> 'd project_state" where
  "addMidiClip A u trackId startSample lengthSamples s =
     (let i = newId ''clip'' None u; doc = getDocument A s in
      case js_bind (targetTick doc startSample) (\<lambda>st.
           js_bind (targetTick doc (js_add startSample lengthSamples)) (\<lambda>en. Inr (st, en))) of
        Inl e \<Rightarrow> (Inl e, s)
      | Inr (st, en) \<Rightarrow>
          (Inr i, perform A (addClip trackId
            \<lparr>c_id = i, c_name = None, c_assetHash = [], c_startSample = None, c_lengthSamples = None,
             c_offsetSamples = Some (js_int 0), c_fadeInSamples = None, c_fadeOutSamples = None,
             c_notes = Some [], c_sceneId = None, c_startTick = Some st,
             c_lengthTick = Some (js_max (js_int 960) (js_sub en st))\<rparr>) s))"

definition addSessionClip ::
  "'d automerge \<Rightarrow> string \<Rightarrow> string \<Rightarrow> string \<Rightarrow> 'd project_state \<Rightarrow> string \<times> 'd project_state" where
  "addSessionClip A u trackId sceneId s =
     (let i = newId ''clip'' None u
      in (i, perform A (addClip trackId
        \<lparr>c_id = i, c_name = None, c_assetHash = [], c_startSample = Some (js_int 0),
         c_lengthSamples = Some (js_int 96000), c_offsetSamples = Some (js_int 0),
         c_fadeInSamples = None, c_fadeOutSamples = None, c_notes = Some [],
         c_sceneId = Some sceneId, c_startTick = None, c_lengthTick = None\<rparr>) s))"

text \<open>
  The loop of \<open>duplicateScene\<close> over the tracks of the document as it was when the loop began: each
  track's first slot of the scene is copied. \<open>us\<close> holds a UUID for each track.
\<close>

fun copy_slots ::
  "'d automerge \<Rightarrow> string \<Rightarrow> string \<Rightarrow> string list \<Rightarrow> track list \<Rightarrow> 'd project_state \<Rightarrow> 'd project_state" where
  "copy_slots A sceneId copyId us [] s = s"
| "copy_slots A sceneId copyId us (t # ts) s =
     copy_slots A sceneId copyId (tl us) ts
       (case List.find (in_scene sceneId) (t_clips t) of
          None \<Rightarrow> s
        | Some slot \<Rightarrow>
            perform A (addClip (t_id t)
              (slot\<lparr>c_id := newId ''clip'' None (case us of u # _ \<Rightarrow> u | [] \<Rightarrow> []),
                    c_sceneId := Some copyId\<rparr>)) s)"

definition duplicateScene ::
  "'d automerge \<Rightarrow> string \<Rightarrow> string list \<Rightarrow> string \<Rightarrow> 'd project_state \<Rightarrow> string option \<times> 'd project_state" where
  "duplicateScene A u us sceneId s =
     (case find_scene sceneId (getDocument A s) of
        None \<Rightarrow> (None, s)
      | Some scene \<Rightarrow>
          (let copyId = newId ''scene'' None u;
               s = beginUndoGroup s;
               s = perform A (addScene copyId (sc_name scene @ '' (copie)'')) s;
               s = copy_slots A sceneId copyId us (d_tracks (getDocument A s)) s
           in (Some copyId, endUndoGroup s)))"

section \<open>Reads through a change\<close>

lemma commit_simps [simp]:
  "ps_doc (commit A iop f s) = am_change A (ps_doc s) f"
  "ps_journal (commit A iop f s) = capture iop (ps_journal s)"
  by (simp_all add: commit_def capturePending_def split: option.splits)

lemma getDocument_commit [simp]:
  "change_law A \<Longrightarrow> getDocument A (commit A iop f s) = f (getDocument A s)"
  by (simp add: getDocument_def change_law_def)

lemma getDocument_on_journal [simp]: "getDocument A (on_journal f s) = getDocument A s"
  by (simp add: getDocument_def on_journal_def)

lemma getDocument_journal_update [simp]: "getDocument A (s\<lparr>ps_journal := j\<rparr>) = getDocument A s"
  by (simp add: getDocument_def)

lemma on_journal_simps [simp]:
  "ps_journal (on_journal f s) = f (ps_journal s)"
  "ps_doc (on_journal f s) = ps_doc s"
  "ps_pending (on_journal f s) = ps_pending s"
  by (simp_all add: on_journal_def)

end
