(* ===== verification/Reversal.thy ===== *)
theory Reversal
  imports Project
begin

text \<open>
  Undo and redo are exact: which operations the journal can take back without a trace
  (\<open>reversible\<close>), the proof for each kind of operation that the captured inverse restores the
  document and is itself reversible, and, from the interface \<open>undo_contract\<close>, what follows for
  sequences of operations.
\<close>

section \<open>The contract\<close>

text \<open>
  \<open>step op d\<close> is the inverse captured and the new document; a good operation has a good inverse, which
  brings the document back.
\<close>

locale undo_contract =
  fixes step :: "'op \<Rightarrow> 'd \<Rightarrow> ('op \<times> 'd) option"
    and good :: "'op \<Rightarrow> 'd \<Rightarrow> bool"
  assumes reverts: "good op d \<Longrightarrow>
    \<exists>iop d' iop'. step op d = Some (iop, d') \<and> good iop d' \<and> step iop d' = Some (iop', d)"

text \<open>A run of operations: the inverses, the last one first, and the final document.\<close>

fun run_ops :: "('op \<Rightarrow> 'd \<Rightarrow> ('op \<times> 'd) option) \<Rightarrow> 'op list \<Rightarrow> 'd \<Rightarrow> 'op list \<times> 'd" where
  "run_ops step [] d = ([], d)"
| "run_ops step (op # ops) d =
     (case step op d of
        None \<Rightarrow> run_ops step ops d
      | Some (iop, d') \<Rightarrow> (let (iops, d'') = run_ops step ops d' in (iops @ [iop], d'')))"

fun good_run :: "('op \<Rightarrow> 'd \<Rightarrow> ('op \<times> 'd) option) \<Rightarrow> ('op \<Rightarrow> 'd \<Rightarrow> bool) \<Rightarrow> 'op list \<Rightarrow> 'd \<Rightarrow> bool" where
  "good_run step good [] d \<longleftrightarrow> True"
| "good_run step good (op # ops) d \<longleftrightarrow> good op d \<and>
     (\<forall>iop d'. step op d = Some (iop, d') \<longrightarrow> good_run step good ops d')"

lemma run_ops_append:
  "run_ops step (xs @ ys) d =
     (let (ixs, d') = run_ops step xs d; (iys, d'') = run_ops step ys d' in (iys @ ixs, d''))"
proof (induction xs arbitrary: d)
  case (Cons x xs)
  then show ?case
    by (cases "step x d") (auto simp: Let_def split: prod.splits)
qed (simp add: split_beta)

lemma good_run_append:
  "good_run step good xs d \<Longrightarrow> good_run step good ys (snd (run_ops step xs d)) \<Longrightarrow>
   good_run step good (xs @ ys) d"
proof (induction xs arbitrary: d)
  case (Cons x xs)
  then show ?case by (cases "step x d") (auto simp: Let_def split: prod.splits)
qed simp

context undo_contract
begin

text \<open>Undoing a run in reverse order restores the document, and that is a good run again.\<close>

lemma unwind:
  "good_run step good ops d \<Longrightarrow>
   snd (run_ops step (fst (run_ops step ops d)) (snd (run_ops step ops d))) = d \<and>
   good_run step good (fst (run_ops step ops d)) (snd (run_ops step ops d)) \<and>
   length (fst (run_ops step ops d)) = length ops"
proof (induction ops arbitrary: d)
  case (Cons op ops)
  then obtain iop d' iop' where st: "step op d = Some (iop, d')" "good iop d'" "step iop d' = Some (iop', d)"
    using reverts [of op d] by auto
  obtain iops d'' where run: "run_ops step ops d' = (iops, d'')" by (cases "run_ops step ops d'") 
  have IH: "snd (run_ops step iops d'') = d'" "good_run step good iops d''" "length iops = length ops"
    using Cons.IH [of d'] Cons.prems st(1) run by auto
  have "good_run step good (iops @ [iop]) d''"
    by (rule good_run_append) (use IH st in auto)
  moreover have "snd (run_ops step (iops @ [iop]) d'') = d"
    using IH(1) st(3) by (simp add: run_ops_append split_beta)
  ultimately show ?case using st run IH by simp
qed simp

end

section \<open>Reversible operations\<close>

text \<open>
  The conditions under which the inverse restores the very same document. They are those of a
  document the mutators themselves wrote: a clamped field already in range, an additive field
  already present, a name already trimmed. Deletions that the code undoes by appending are exact
  on the last element of their list.
\<close>

definition good_name :: "string \<Rightarrow> bool" where
  "good_name n \<longleftrightarrow> n \<noteq> [] \<and> clean_name n = n"

definition v2_or :: "bool \<Rightarrow> project \<Rightarrow> bool" where
  "v2_or b d \<longleftrightarrow> b \<or> \<not> js_lt (d_schemaVersion d) (js_int 2)"

text \<open>The only element with the key, and the last one.\<close>

definition sole :: "('a \<Rightarrow> bool) \<Rightarrow> 'a list \<Rightarrow> bool" where
  "sole P xs \<longleftrightarrow> (\<exists>i. find_index P xs = Some i \<and> (\<forall>y\<in>set (splice_out i xs). \<not> P y))"

definition sole_last :: "('a \<Rightarrow> bool) \<Rightarrow> 'a list \<Rightarrow> bool" where
  "sole_last P xs \<longleftrightarrow> xs \<noteq> [] \<and> P (last xs) \<and> (\<forall>y\<in>set (butlast xs). \<not> P y)"

definition whole :: "jsnum option \<Rightarrow> bool" where
  "whole v \<longleftrightarrow> pred_option (js_int_from 0) v"

definition whole_timing :: "clip_timing \<Rightarrow> bool" where
  "whole_timing t \<longleftrightarrow> whole (ti_startSample t) \<and> whole (ti_lengthSamples t) \<and> whole (ti_offsetSamples t) \<and>
     whole (ti_startTick t) \<and> whole (ti_lengthTick t)"

definition finite_timing :: "clip_timing \<Rightarrow> bool" where
  "finite_timing t \<longleftrightarrow> pred_option js_finite (ti_startSample t) \<and> pred_option js_finite (ti_lengthSamples t) \<and>
     pred_option js_finite (ti_offsetSamples t) \<and> pred_option js_finite (ti_startTick t) \<and>
     pred_option js_finite (ti_lengthTick t)"

definition no_ticks :: "clip_timing \<Rightarrow> bool" where
  "no_ticks t \<longleftrightarrow> ti_startTick t = None \<and> ti_lengthTick t = None"

definition half_length :: "clip \<Rightarrow> jsnum" where
  "half_length c = js_floor (js_div (or_else (c_lengthSamples c) (js_int 0)) (js_int 2))"

definition good_fade :: "clip \<Rightarrow> jsnum option \<Rightarrow> bool" where
  "good_fade c v \<longleftrightarrow> (\<exists>x. v = Some x \<and> js_int_from 0 x \<and> js_le x (half_length c))"

text \<open>A point as the mutators write them, in a lane they keep sorted.\<close>

definition good_point :: "auto_point \<Rightarrow> bool" where
  "good_point p \<longleftrightarrow> js_int_from 0 (pt_t p) \<and> js_between (js_int 0) (js_int 1) (pt_v p)"

definition good_points :: "auto_point list \<Rightarrow> bool" where
  "good_points ps \<longleftrightarrow> (\<forall>p\<in>set ps. good_point p) \<and> sorted_wrt (\<lambda>p q. js_le (pt_t p) (pt_t q)) ps"

text \<open>No later point shares its time with the one at \<open>i\<close>.\<close>

definition last_at_time :: "nat \<Rightarrow> auto_point list \<Rightarrow> bool" where
  "last_at_time i ps \<longleftrightarrow> i < length ps \<and> (\<forall>q\<in>set (drop (Suc i) ps). js_lt (pt_t (ps ! i)) (pt_t q))"

definition self_eq :: "midi_note \<Rightarrow> bool" where
  "self_eq n \<longleftrightarrow> n_pitch n \<noteq> NaN \<and> n_startTick n \<noteq> Some NaN \<and> n_startSample n \<noteq> Some NaN"

fun reversible :: "inverse_op \<Rightarrow> project \<Rightarrow> bool" where
  "reversible (SetTrackGain t g) d \<longleftrightarrow> g \<noteq> NaN \<and>
     (\<exists>tr. find_track t d = Some tr \<and> js_between (js_int 0) (js_int 2) (t_gain tr))"
| "reversible (SetTrackPan t p) d \<longleftrightarrow> p \<noteq> NaN \<and>
     (\<exists>tr x. find_track t d = Some tr \<and> t_pan tr = Some x \<and> js_between (js_int (- 1)) (js_int 1) x)"
| "reversible (SetTrackOrder t n) d \<longleftrightarrow> js_finite n \<and>
     (\<exists>tr. find_track t d = Some tr \<and> t_order tr \<noteq> Some n \<and> pred_option js_finite (t_order tr))"
| "reversible (ClearTrackOrder t) d \<longleftrightarrow>
     (\<exists>tr x. find_track t d = Some tr \<and> t_order tr = Some x \<and> js_finite x)"
| "reversible (RenameTrack t n) d \<longleftrightarrow> good_name (clean_name n) \<and>
     (\<exists>tr. find_track t d = Some tr \<and> good_name (t_name tr) \<and> t_name tr \<noteq> clean_name n)"
| "reversible (RenameClip t c n) d \<longleftrightarrow> (clean_name n = [] \<or> good_name (clean_name n)) \<and>
     (\<exists>cl. find_clip t c d = Some cl \<and> pred_option good_name (c_name cl) \<and>
        clean_name n \<noteq> or_else (c_name cl) [])"
| "reversible (SetMasterGain g) d \<longleftrightarrow> g \<noteq> NaN \<and>
     (\<exists>x. d_masterGain d = Some x \<and> js_between (js_int 0) (js_int 2) x)"
| "reversible (SetTempo m) d \<longleftrightarrow> js_finite m \<and> v2_or False d \<and>
     (\<exists>x. d_tempoMilliBpm d = Some x \<and> js_finite x \<and> clampMilliBpm x = x \<and> clampMilliBpm m \<noteq> x)"
| "reversible (SetProcessorBypass t p b) d \<longleftrightarrow> find_proc t p d \<noteq> None"
| "reversible (SetProcessorParam t p k v) d \<longleftrightarrow> find_proc t p d \<noteq> None"
| "reversible (RemoveProcessorParam t p k) d \<longleftrightarrow>
     (\<exists>pr. find_proc t p d = Some pr \<and> sole_last (has_key k) (p_params pr))"
| "reversible (SetClipStart t c x) d \<longleftrightarrow> js_finite x \<and>
     (\<exists>cl s. find_clip t c d = Some cl \<and> \<not> isMusicalClip cl \<and> c_startSample cl = Some s \<and> js_int_from 0 s)"
| "reversible (SetClipBounds t c b) d \<longleftrightarrow>
     js_finite (b_startSample b) \<and> js_finite (b_lengthSamples b) \<and> js_finite (b_offsetSamples b) \<and>
     (\<exists>cl s l off. find_clip t c d = Some cl \<and> \<not> isMusicalClip cl \<and> c_startSample cl = Some s \<and>
        c_lengthSamples cl = Some l \<and> c_offsetSamples cl = Some off \<and>
        js_int_from 0 s \<and> js_int_from 1024 l \<and> js_int_from 0 off)"
| "reversible (SetClipTiming t c ti) d \<longleftrightarrow> finite_timing ti \<and>
     (\<exists>cl. find_clip t c d = Some cl \<and> whole_timing (timingOf cl) \<and>
        v2_or (no_ticks ti \<and> no_ticks (timingOf cl)) d)"
| "reversible (SetClipFades t c fi fo) d \<longleftrightarrow> js_finite fi \<and> js_finite fo \<and>
     (\<exists>cl. find_clip t c d = Some cl \<and> whole (c_lengthSamples cl) \<and>
        good_fade cl (c_fadeInSamples cl) \<and> good_fade cl (c_fadeOutSamples cl))"
| "reversible (AddClip t c) d \<longleftrightarrow> v2_or (\<not> isMusicalClip c) d \<and>
     (\<exists>tr. find_track t d = Some tr \<and> (\<forall>x\<in>set (t_clips tr). c_id x \<noteq> c_id c))"
| "reversible (DeleteClip t c) d \<longleftrightarrow>
     (\<exists>tr. find_track t d = Some tr \<and> sole_last (\<lambda>x. c_id x = c) (t_clips tr) \<and>
        v2_or (\<not> isMusicalClip (last (t_clips tr))) d)"
| "reversible (SetClipScene t c s) d \<longleftrightarrow> s \<noteq> [] \<and>
     (\<exists>cl old. find_clip t c d = Some cl \<and> c_sceneId cl = Some old \<and> old \<noteq> [] \<and> old \<noteq> s)"
| "reversible (AddTrack tr) d \<longleftrightarrow> (\<forall>x\<in>set (d_tracks d). t_id x \<noteq> t_id tr)"
| "reversible (DeleteTrack t) d \<longleftrightarrow> sole_last (\<lambda>x. t_id x = t) (d_tracks d)"
| "reversible (AddProcessor t p i) d \<longleftrightarrow>
     (\<exists>tr. find_track t d = Some tr \<and> (\<forall>x\<in>set (t_chain tr). p_id x \<noteq> p_id p))"
| "reversible (RemoveProcessor t p) d \<longleftrightarrow>
     (\<exists>tr. find_track t d = Some tr \<and> sole (\<lambda>x. p_id x = p) (t_chain tr))"
| "reversible (MoveProcessor t p x) d \<longleftrightarrow> js_finite x \<and>
     (\<exists>tr i. find_track t d = Some tr \<and> sole (\<lambda>x. p_id x = p) (t_chain tr) \<and>
        find_index (\<lambda>x. p_id x = p) (t_chain tr) = Some i \<and>
        js_clamp (js_int 0) (js_int (int (length (t_chain tr)) - 1)) (js_round x) \<noteq> js_int (int i))"
| "reversible (ToggleNote t c n) d \<longleftrightarrow> self_eq n \<and> n_id n \<noteq> None \<and> v2_or (n_startTick n = None) d \<and>
     (\<exists>cl ns. find_clip t c d = Some cl \<and> c_notes cl = Some ns \<and>
        ((\<forall>x\<in>set ns. \<not> same_note n x) \<or> sole_last (same_note n) ns \<and> last ns = n))"
| "reversible (UpdateNote t c n p) d \<longleftrightarrow>
     (\<exists>x. find_note t c n d = Some x \<and>
        (n_startSample x = None \<longrightarrow> np_startSample p = None) \<and>
        (n_lengthSamples x = None \<longrightarrow> np_lengthSamples p = None) \<and>
        (n_startTick x = None \<longrightarrow> np_startTick p = None) \<and>
        (n_lengthTick x = None \<longrightarrow> np_lengthTick p = None))"
| "reversible (RenameScene s n) d \<longleftrightarrow> good_name (clean_name n) \<and>
     (\<exists>sc. find_scene s d = Some sc \<and> good_name (sc_name sc) \<and> sc_name sc \<noteq> clean_name n)"
| "reversible (DeleteScene s) d \<longleftrightarrow> sole (\<lambda>x. sc_id x = s) (or_else (d_scenes d) []) \<and> scene_clips s d = []"
| "reversible (RestoreScene sc i cs) d \<longleftrightarrow> cs = [] \<and> scene_clips (sc_id sc) d = [] \<and>
     (\<exists>scs. d_scenes d = Some scs \<and> (\<forall>x\<in>set scs. sc_id x \<noteq> sc_id sc))"
| "reversible (DeleteAutomationLane t l) d \<longleftrightarrow> sole (\<lambda>x. l_id x = l) (or_else (lanesIn t d) [])"
| "reversible (RestoreAutomationLane t l i) d \<longleftrightarrow>
     (\<exists>ls. lanesIn t d = Some ls \<and> (\<forall>x\<in>set ls. l_id x \<noteq> l_id l))"
| "reversible (SetAutomationLaneEnabled t l b) d \<longleftrightarrow> find_lane t l d \<noteq> None"
| "reversible (AddAutomationPoint t l x v) d \<longleftrightarrow> js_finite x \<and> v \<noteq> NaN \<and>
     (\<exists>la. find_lane t l d = Some la \<and> good_points (l_points la))"
| "reversible (MoveAutomationPoint t l i x v) d \<longleftrightarrow> js_finite x \<and> v \<noteq> NaN \<and> 0 \<le> i \<and>
     (\<exists>la. find_lane t l d = Some la \<and> good_points (l_points la) \<and> last_at_time (nat i) (l_points la))"
| "reversible (DeleteAutomationPoint t l i) d \<longleftrightarrow> 0 \<le> i \<and>
     (\<exists>la. find_lane t l d = Some la \<and> good_points (l_points la) \<and> last_at_time (nat i) (l_points la))"

section \<open>Each operation\<close>

text \<open>
  The captured inverse, replayed on the new document, commits, brings the old document back, and is
  reversible where it is replayed.
\<close>

definition round_trip :: "inverse_op \<Rightarrow> project \<Rightarrow> bool" where
  "round_trip op d \<longleftrightarrow>
     (\<exists>iop f iop' g. (\<forall>u. replay_op u op d = Inr (Some (iop, f))) \<and> reversible iop (f d) \<and>
        (\<forall>u. replay_op u iop (f d) = Inr (Some (iop', g))) \<and> g (f d) = d)"

lemma round_tripI:
  "(\<And>u. replay_op u op d = Inr (Some (iop, f))) \<Longrightarrow> reversible iop (f d) \<Longrightarrow>
   (\<And>u. replay_op u iop (f d) = Inr (Some (iop', g))) \<Longrightarrow> g (f d) = d \<Longrightarrow> round_trip op d"
  unfolding round_trip_def by blast

lemma clamp_range: "v \<noteq> NaN \<Longrightarrow> lo \<le> hi \<Longrightarrow> js_between (js_int lo) (js_int hi) (js_clamp (js_int lo) (js_int hi) v)"
  by (rule js_clamp_between) simp_all

lemma between_not_NaN [simp]: "js_between lo hi v \<Longrightarrow> v \<noteq> NaN"
  by (cases hi) (auto simp: js_between_def js_le_def js_eq_def)

lemma clamp_01 [simp]: "v \<noteq> NaN \<Longrightarrow> js_between (Fin 0) (Fin 1) (js_clamp (Fin 0) (Fin 1) v)"
  using clamp_range [of v 0 1] by simp

lemma clamp_02 [simp]: "v \<noteq> NaN \<Longrightarrow> js_between (Fin 0) (Fin 2) (js_clamp (Fin 0) (Fin 2) v)"
  using clamp_range [of v 0 2] by simp

lemma clamp_11 [simp]: "v \<noteq> NaN \<Longrightarrow> js_between (Fin (- 1)) (Fin 1) (js_clamp (Fin (- 1)) (Fin 1) v)"
  using clamp_range [of v "- 1" 1] by simp

lemma rt_SetTrackGain: "reversible (SetTrackGain t g) d \<Longrightarrow> round_trip (SetTrackGain t g) d"
  by (auto simp: setTrackGain_def track.get_upd js_clamp_id track.restore
      intro!: round_tripI)

lemma rt_SetTrackPan: "reversible (SetTrackPan t g) d \<Longrightarrow> round_trip (SetTrackPan t g) d"
  by (auto simp: setTrackPan_def track.get_upd js_clamp_id track.restore
      intro!: round_tripI)

lemma rt_SetTrackOrder:
  assumes "reversible (SetTrackOrder t n) d"
  shows "round_trip (SetTrackOrder t n) d"
proof -
  obtain tr where tr: "find_track t d = Some tr" "js_finite n" "t_order tr \<noteq> Some n" "pred_option js_finite (t_order tr)"
    using assms by auto
  show ?thesis
  proof (cases "t_order tr")
    case None
    with tr show ?thesis
      by (auto simp: setTrackOrder_def clearTrackOrder_def track.get_upd track.restore intro!: round_tripI)
  next
    case (Some x)
    with tr show ?thesis
      by (auto simp: setTrackOrder_def clearTrackOrder_def track.get_upd track.restore js_eq_def intro!: round_tripI)
  qed
qed

lemma rt_ClearTrackOrder: "reversible (ClearTrackOrder t) d \<Longrightarrow> round_trip (ClearTrackOrder t) d"
  by (auto simp: setTrackOrder_def clearTrackOrder_def track.get_upd track.restore intro!: round_tripI)

lemma good_name_Nil [simp]: "\<not> good_name []"
  by (simp add: good_name_def)

lemma good_nameD: "good_name n \<Longrightarrow> clean_name n = n \<and> n \<noteq> []"
  by (simp add: good_name_def)

lemma rt_RenameTrack: "reversible (RenameTrack t n) d \<Longrightarrow> round_trip (RenameTrack t n) d"
  by (auto simp: renameTrack_def Let_def track.get_upd track.restore good_nameD intro!: round_tripI)

lemma clean_name_Nil [simp]: "clean_name [] = []"
  by (simp add: clean_name_def trim_def)

lemma rt_RenameClip:
  assumes "reversible (RenameClip t c n) d"
  shows "round_trip (RenameClip t c n) d"
proof -
  obtain cl where cl: "find_clip t c d = Some cl" "pred_option good_name (c_name cl)"
      "clean_name n \<noteq> or_else (c_name cl) []" "clean_name n = [] \<or> good_name (clean_name n)"
    using assms by auto
  show ?thesis
  proof (cases "c_name cl")
    case None
    with cl have "clean_name n \<noteq> []" "clean_name (clean_name n) = clean_name n"
      by (auto simp: good_nameD)
    with cl None show ?thesis
      by (auto simp: renameClip_def Let_def clip.get_upd clip.restore simp del: eq_commute intro!: round_tripI)
  next
    case (Some x)
    with cl show ?thesis
      by (cases "clean_name n = []")
        (auto simp: renameClip_def Let_def clip.get_upd clip.restore good_nameD intro!: round_tripI)
  qed
qed

lemma rt_SetMasterGain: "reversible (SetMasterGain g) d \<Longrightarrow> round_trip (SetMasterGain g) d"
  by (auto simp: setMasterGain_def js_clamp_id intro!: round_tripI)

lemma clampMilliBpm_finite:
  assumes "js_finite v"
  shows "js_finite (clampMilliBpm v) \<and> clampMilliBpm (clampMilliBpm v) = clampMilliBpm v"
proof -
  have "js_int_from MIN_MILLI_BPM (clampMilliBpm v)" "js_le (clampMilliBpm v) (js_int MAX_MILLI_BPM)"
    using clampMilliBpm_range [OF assms] by simp_all
  then show ?thesis by (auto simp: clampMilliBpm_id elim!: js_int_fromE)
qed

lemma js_finite_not_NaN: "js_finite v \<Longrightarrow> v \<noteq> NaN"
  by auto

lemma rt_SetTempo:
  assumes "reversible (SetTempo m) d"
  shows "round_trip (SetTempo m) d"
proof -
  obtain x where x: "js_finite m" "v2_or False d" "d_tempoMilliBpm d = Some x" "js_finite x"
      "clampMilliBpm x = x" "clampMilliBpm m \<noteq> x"
    using assms by auto
  have v2: "ensureV2 d' = d'" if "d_schemaVersion d' = d_schemaVersion d" for d'
    using x(2) that by (simp add: v2_or_def ensureV2_def)
  from x clampMilliBpm_finite [OF x(1)] show ?thesis
    by (auto simp: setTempoMilliBpm_def v2 v2_or_def js_eq_def intro!: round_tripI)
qed

lemma rt_SetProcessorBypass:
  "reversible (SetProcessorBypass t p b) d \<Longrightarrow> round_trip (SetProcessorBypass t p b) d"
  by (auto simp: setProcessorBypass_def proc.get_upd proc.restore intro!: round_tripI)

lemma rt_SetClipScene: "reversible (SetClipScene t c s) d \<Longrightarrow> round_trip (SetClipScene t c s) d"
  by (auto simp: setClipScene_def clip.get_upd clip.restore Let_def intro!: round_tripI)

lemma rt_SetAutomationLaneEnabled:
  "reversible (SetAutomationLaneEnabled t l b) d \<Longrightarrow> round_trip (SetAutomationLaneEnabled t l b) d"
  by (auto simp: setAutomationLaneEnabled_def lane.get_upd lane.restore intro!: round_tripI)

lemma rt_RenameScene: "reversible (RenameScene t n) d \<Longrightarrow> round_trip (RenameScene t n) d"
  by (auto simp: renameScene_def Let_def scene.get_upd scene.restore good_nameD intro!: round_tripI)

subsection \<open>Lists with one element of a key\<close>

lemma sole_last_facts:
  assumes "sole_last P xs"
  shows "List.find P xs = Some (last xs)" and "remove_first P xs = butlast xs"
    and "xs \<noteq> []" and "\<forall>y\<in>set (butlast xs). \<not> P y" and "P (last xs)"
proof -
  have xs: "xs = butlast xs @ [last xs]" and P: "P (last xs)" and no: "\<forall>y\<in>set (butlast xs). \<not> P y"
    using assms by (simp_all add: sole_last_def)
  have none: "List.find P (butlast xs) = None" using no by (simp add: find_None_iff)
  have "List.find P (butlast xs @ [last xs]) = Some (last xs)" using P none by (simp add: find_append)
  then show "List.find P xs = Some (last xs)" using xs by simp
  have "remove_first P (butlast xs @ [last xs]) = butlast xs"
    using no P by (rule remove_first_append_fresh)
  then show "remove_first P xs = butlast xs" using xs by simp
  show "xs \<noteq> []" "\<forall>y\<in>set (butlast xs). \<not> P y" "P (last xs)"
    using assms by (simp_all add: sole_last_def)
qed

lemma sole_last_append: "\<forall>y\<in>set xs. \<not> P y \<Longrightarrow> P x \<Longrightarrow> sole_last P (xs @ [x])"
  by (simp add: sole_last_def)

lemma soleE:
  assumes "sole P xs"
  obtains i where "find_index P xs = Some i" and "i < length xs" and "P (xs ! i)"
    and "\<forall>y\<in>set (splice_out i xs). \<not> P y" and "remove_first P xs = splice_out i xs"
    and "splice_in i (xs ! i) (splice_out i xs) = xs" and "i \<le> length (splice_out i xs)"
proof -
  obtain i where i: "find_index P xs = Some i" "\<forall>y\<in>set (splice_out i xs). \<not> P y"
    using assms by (auto simp: sole_def)
  then have "i < length xs" "P (xs ! i)" using find_index_SomeD by fastforce+
  with i show ?thesis by (intro that [of i]) (auto simp: remove_first_def)
qed

lemma sole_splice_in:
  assumes "\<forall>y\<in>set xs. \<not> P y" and "P x" and "i \<le> length xs"
  shows "sole P (splice_in i x xs)" and "remove_first P (splice_in i x xs) = xs"
    and "find_index P (splice_in i x xs) = Some i" and "splice_in i x xs ! i = x"
  using find_index_splice_in_fresh [OF assms] assms by (simp_all add: sole_def remove_first_def)

lemma sole_append:
  "\<forall>y\<in>set xs. \<not> P y \<Longrightarrow> P x \<Longrightarrow> sole P (xs @ [x])"
  using sole_splice_in(1) [of xs P x "length xs"] by simp

lemma index_or_end_le [simp]: "index_or_end i xs \<le> length xs"
  by (auto simp: index_or_end_def)

lemma index_or_end_int [simp]: "i \<le> length xs \<Longrightarrow> index_or_end (int i) xs = i"
  by (simp add: index_or_end_def)

lemma append_splice: "xs @ [x] = splice_in (length xs) x xs"
  by simp

subsection \<open>The lazy bump\<close>

lemma schema_upd [simp]:
  "d_schemaVersion (upd_track t f d) = d_schemaVersion d"
  "d_schemaVersion (upd_clip t c h d) = d_schemaVersion d"
  "v2_or b (upd_track t f d) = v2_or b d"
  "v2_or b (upd_clip t c h d) = v2_or b d"
  by (simp_all add: upd_track_def upd_clip_def v2_or_def)

lemma v2_or_ensure: "v2_or b d \<Longrightarrow> \<not> b \<Longrightarrow> ensureV2 d = d"
  by (simp add: v2_or_def ensureV2_def)

subsection \<open>Devices, clips and tracks\<close>

lemma remove_first_snoc: "List.find P xs = None \<Longrightarrow> P x \<Longrightarrow> remove_first P (xs @ [x]) = xs"
  by (rule remove_first_append_fresh) (auto simp: find_None_iff)

lemma find_snoc: "List.find P xs = None \<Longrightarrow> P x \<Longrightarrow> List.find P (xs @ [x]) = Some x"
  by (simp add: find_append)

lemma has_key_new [simp]: "has_key k \<lparr>pr_key = k, pr_value = v\<rparr>"
  by (simp add: has_key_def)

lemma update_param_facts:
  "List.find (has_key k) xs = Some x \<Longrightarrow>
   List.find (has_key k) (update_first (has_key k) (\<lambda>x. x\<lparr>pr_value := v\<rparr>) xs) = Some (x\<lparr>pr_value := v\<rparr>)"
  "List.find (has_key k) xs = Some x \<Longrightarrow>
   update_first (has_key k) (\<lambda>x. x\<lparr>pr_value := pr_value x'\<rparr>)
     (update_first (has_key k) (\<lambda>x. x\<lparr>pr_value := v\<rparr>) xs) =
   update_first (has_key k) (\<lambda>x. x\<lparr>pr_value := pr_value x'\<rparr>) xs"
  using find_update_first [of "has_key k" "\<lambda>x. x\<lparr>pr_value := v\<rparr>" xs]
    update_first_update_first [of "has_key k" "\<lambda>x. x\<lparr>pr_value := v\<rparr>" "\<lambda>x. x\<lparr>pr_value := pr_value x'\<rparr>" xs]
  by (simp_all add: has_key_def comp_def)

lemma rt_SetProcessorParam:
  assumes "reversible (SetProcessorParam t p k v) d"
  shows "round_trip (SetProcessorParam t p k v) d"
proof -
  obtain pr where pr: "find_proc t p d = Some pr" using assms by auto
  show ?thesis
  proof (cases "List.find (has_key k) (p_params pr)")
    case None
    then have fresh: "\<forall>y\<in>set (p_params pr). \<not> has_key k y" by (simp add: find_None_iff)
    then show ?thesis
      using None pr by (simp add: round_trip_def setProcessorParam_def removeProcessorParam_def proc.get_upd
          proc.restore find_snoc remove_first_snoc sole_last_append)
  next
    case (Some x)
    then have "update_first (has_key k) (\<lambda>y. y\<lparr>pr_value := pr_value x\<rparr>) (p_params pr) = p_params pr"
      by (rule update_first_same) simp
    then show ?thesis
      using Some pr by (simp add: round_trip_def setProcessorParam_def proc.get_upd proc.restore
          update_param_facts)
  qed
qed

lemma rt_RemoveProcessorParam:
  assumes "reversible (RemoveProcessorParam t p k) d"
  shows "round_trip (RemoveProcessorParam t p k) d"
proof -
  obtain pr where pr: "find_proc t p d = Some pr" "sole_last (has_key k) (p_params pr)"
    using assms by auto
  note sole = sole_last_facts [OF pr(2)]
  have none: "List.find (has_key k) (butlast (p_params pr)) = None"
    using sole(4) by (simp add: find_None_iff)
  have "\<lparr>pr_key = k, pr_value = pr_value (last (p_params pr))\<rparr> = last (p_params pr)"
    using sole(5) by (simp add: has_key_def)
  then have last_eq: "butlast (p_params pr) @ [\<lparr>pr_key = k, pr_value = pr_value (last (p_params pr))\<rparr>] = p_params pr"
    using sole(3) by simp
  show ?thesis
    using pr(1) sole(1,2) none last_eq
    by (simp add: round_trip_def setProcessorParam_def removeProcessorParam_def proc.get_upd proc.restore)
qed

lemma js_round_from_whole: "js_int_from 0 v \<Longrightarrow> js_round_from (Fin 0) v = v"
  using js_round_from_id [of 0 v] by simp

lemma js_round_from_finite: "js_finite v \<Longrightarrow> js_int_from 0 (js_round_from (Fin 0) v)"
  using js_round_from_int [of v 0] by simp

lemma js_round_from_1024: "js_int_from 1024 v \<Longrightarrow> js_round_from (Fin 1024) v = v"
  "js_finite v \<Longrightarrow> js_int_from 1024 (js_round_from (Fin 1024) v)"
  using js_round_from_id [of 1024 v] js_round_from_int [of v 1024] by simp_all

lemma js_int_from_finite: "js_int_from lo v \<Longrightarrow> js_finite v"
  by (auto elim: js_int_fromE)

lemma rt_SetClipStart: "reversible (SetClipStart t c x) d \<Longrightarrow> round_trip (SetClipStart t c x) d"
  by (auto simp: round_trip_def setClipStart_def isMusicalClip_def clip.get_upd clip.restore
      js_round_from_whole js_round_from_finite js_int_from_finite)

lemma rt_SetClipBounds: "reversible (SetClipBounds t c b) d \<Longrightarrow> round_trip (SetClipBounds t c b) d"
  by (auto simp: round_trip_def setClipBounds_def isMusicalClip_def clip.get_upd clip.restore
      js_round_from_whole js_round_from_finite js_int_from_finite js_round_from_1024)

lemma whole_round: "whole v \<Longrightarrow> map_option (js_round_from (Fin 0)) v = v"
  by (cases v) (simp_all add: whole_def js_round_from_whole)

lemma whole_finite: "whole v \<Longrightarrow> pred_option js_finite v"
  by (cases v) (auto simp: whole_def js_int_from_finite)

lemma finite_whole: "pred_option js_finite v \<Longrightarrow> whole (map_option (js_round_from (Fin 0)) v)"
  by (cases v) (simp_all add: whole_def js_round_from_finite)

text \<open>What \<open>setClipTiming\<close> writes into the clip.\<close>

definition put_timing :: "clip_timing \<Rightarrow> clip \<Rightarrow> clip" where
  "put_timing ti c =
     c\<lparr>c_startSample := map_option (js_round_from (js_int 0)) (ti_startSample ti),
       c_lengthSamples := map_option (js_round_from (js_int 0)) (ti_lengthSamples ti),
       c_offsetSamples := map_option (js_round_from (js_int 0)) (ti_offsetSamples ti),
       c_startTick := map_option (js_round_from (js_int 0)) (ti_startTick ti),
       c_lengthTick := map_option (js_round_from (js_int 0)) (ti_lengthTick ti)\<rparr>"

lemma setClipTiming_alt:
  "find_clip t c d = Some cl \<Longrightarrow>
   setClipTiming t c ti d = Some (SetClipTiming t c (timingOf cl),
     \<lambda>d. if find_clip t c d = None then d
         else upd_clip t c (put_timing ti) (if no_ticks ti then d else ensureV2 d))"
  by (auto simp: setClipTiming_def put_timing_def [abs_def] no_ticks_def fun_eq_iff)

lemma put_timing_facts [simp]:
  "c_id (put_timing ti c) = c_id c"
  by (simp add: put_timing_def)

lemma put_timing_back:
  "whole_timing (timingOf c) \<Longrightarrow> put_timing (timingOf c) (put_timing ti c) = c"
  by (simp add: put_timing_def timingOf_def whole_timing_def whole_round)

lemma timingOf_put:
  "finite_timing ti \<Longrightarrow> whole_timing (timingOf (put_timing ti c)) \<and> no_ticks (timingOf (put_timing ti c)) = no_ticks ti"
  by (simp add: put_timing_def timingOf_def whole_timing_def finite_timing_def finite_whole no_ticks_def)

lemma rt_SetClipTiming:
  assumes "reversible (SetClipTiming t c ti) d"
  shows "round_trip (SetClipTiming t c ti) d"
proof -
  obtain cl where cl: "find_clip t c d = Some cl" "finite_timing ti" "whole_timing (timingOf cl)"
      "v2_or (no_ticks ti \<and> no_ticks (timingOf cl)) d"
    using assms by auto
  let ?d' = "upd_clip t c (put_timing ti) d"
  have v2: "(if no_ticks x then e else ensureV2 e) = e"
    if "x = ti \<or> x = timingOf cl" "d_schemaVersion e = d_schemaVersion d" for x e
    using cl(4) that by (auto simp: v2_or_def ensureV2_def)
  have old: "finite_timing (timingOf cl)"
    using cl(3) by (simp add: whole_timing_def finite_timing_def whole_finite)
  have found: "find_clip t c ?d' = Some (put_timing ti cl)"
    using cl(1) by (simp add: clip.get_upd)
  have rev: "reversible (SetClipTiming t c (timingOf cl)) ?d'"
    using found old timingOf_put [OF cl(2), of cl] cl(4) by auto
  have "upd_clip t c (put_timing (timingOf cl)) ?d' = d"
    by (rule clip.restore [OF cl(1)]) (simp_all add: put_timing_back cl(3))
  then show ?thesis
    using rev by (simp add: round_trip_def setClipTiming_alt [OF cl(1)] setClipTiming_alt [OF found] cl(1) found v2)
qed

lemma half_length_nonneg: "whole (c_lengthSamples c) \<Longrightarrow> js_int_from 0 (half_length c)"
  by (cases "c_lengthSamples c")
    (auto simp: whole_def half_length_def elim!: js_int_fromE)

lemma good_fade_clamp:
  assumes "js_finite v" and "js_int_from 0 h"
  shows "js_int_from 0 (js_clamp (Fin 0) h (js_round v)) \<and> js_le (js_clamp (Fin 0) h (js_round v)) h"
proof -
  obtain m where m: "h = js_int m" "0 \<le> m" using assms(2) by (rule js_int_fromE)
  obtain n where n: "js_round v = js_int n" using assms(1) by (cases v) auto
  show ?thesis using js_clamp_js_int [of 0 m n] m by (simp add: n)
qed

lemma good_fade_keep:
  assumes "js_int_from 0 v" and "js_le v h" and "js_int_from 0 h"
  shows "js_clamp (Fin 0) h (js_round v) = v"
proof -
  obtain m where m: "h = js_int m" "0 \<le> m" using assms(3) by (rule js_int_fromE)
  obtain n where n: "v = js_int n" "0 \<le> n" using assms(1) by (rule js_int_fromE)
  show ?thesis using js_clamp_js_int [of 0 m n] m n assms(2) by simp
qed

text \<open>What \<open>setClipFades\<close> writes into the clip.\<close>

definition put_fades :: "jsnum \<Rightarrow> jsnum \<Rightarrow> clip \<Rightarrow> clip" where
  "put_fades fi fo c =
     c\<lparr>c_fadeInSamples := Some (js_clamp (js_int 0) (half_length c) (js_round fi)),
       c_fadeOutSamples := Some (js_clamp (js_int 0) (half_length c) (js_round fo))\<rparr>"

lemma setClipFades_alt:
  "find_clip t c d = Some cl \<Longrightarrow>
   setClipFades t c fi fo d = Some (SetClipFades t c (or_else (c_fadeInSamples cl) (js_int 0))
     (or_else (c_fadeOutSamples cl) (js_int 0)), upd_clip t c (put_fades fi fo))"
  by (simp add: setClipFades_def put_fades_def [abs_def] half_length_def Let_def)

lemma put_fades_facts [simp]:
  "c_id (put_fades fi fo c) = c_id c" "half_length (put_fades fi fo c) = half_length c"
  "c_lengthSamples (put_fades fi fo c) = c_lengthSamples c"
  by (simp_all add: put_fades_def half_length_def)

lemma put_fades_good:
  assumes "js_finite fi" and "js_finite fo" and "whole (c_lengthSamples c)"
  shows "good_fade c (c_fadeInSamples (put_fades fi fo c))" and "good_fade c (c_fadeOutSamples (put_fades fi fo c))"
  using good_fade_clamp [OF assms(1) half_length_nonneg [OF assms(3)]]
    good_fade_clamp [OF assms(2) half_length_nonneg [OF assms(3)]]
  by (simp_all add: put_fades_def good_fade_def)

lemma good_fade_put [simp]: "good_fade (put_fades fi fo c) = good_fade c"
  by (simp add: good_fade_def fun_eq_iff)

lemma rt_SetClipFades:
  assumes "reversible (SetClipFades t c fi fo) d"
  shows "round_trip (SetClipFades t c fi fo) d"
proof -
  obtain cl x y where cl: "find_clip t c d = Some cl" "js_finite fi" "js_finite fo"
      "whole (c_lengthSamples cl)" "c_fadeInSamples cl = Some x" "c_fadeOutSamples cl = Some y"
      "js_int_from 0 x" "js_le x (half_length cl)" "js_int_from 0 y" "js_le y (half_length cl)"
    using assms by (auto simp: good_fade_def)
  note h = half_length_nonneg [OF cl(4)]
  have found: "find_clip t c (upd_clip t c (put_fades fi fo) d) = Some (put_fades fi fo cl)"
    using cl(1) by (simp add: clip.get_upd)
  have keep: "js_clamp (Fin 0) (half_length cl) (js_round x) = x" "js_clamp (Fin 0) (half_length cl) (js_round y) = y"
    using good_fade_keep [OF cl(7,8) h] good_fade_keep [OF cl(9,10) h] .
  have "put_fades x y (put_fades fi fo cl) = cl"
    using cl(5,6) keep unfolding put_fades_def [of x y] put_fades_facts by (simp add: put_fades_def)
  then have undone: "upd_clip t c (put_fades x y) (upd_clip t c (put_fades fi fo) d) = d"
    by (intro clip.restore [OF cl(1)]) simp_all
  show ?thesis
    using found undone cl put_fades_good [OF cl(2-4)]
    by (simp add: round_trip_def setClipFades_alt [OF cl(1)] setClipFades_alt [OF found] js_int_from_finite)
qed

lemma rt_AddClip:
  assumes "reversible (AddClip t c) d"
  shows "round_trip (AddClip t c) d"
proof -
  obtain tr where tr: "find_track t d = Some tr" "\<forall>x\<in>set (t_clips tr). c_id x \<noteq> c_id c"
      "v2_or (\<not> isMusicalClip c) d"
    using assms by auto
  have v2: "(if isMusicalClip c then ensureV2 d else d) = d"
    using v2_or_ensure [OF tr(3)] by simp
  have "List.find (\<lambda>x. c_id x = c_id c) (t_clips tr) = None"
    using tr(2) by (simp add: find_None_iff)
  then show ?thesis
    using tr
    by (simp add: round_trip_def addClip_def deleteClip_def v2 track.get_upd track.restore find_clip_def
        find_snoc remove_first_snoc sole_last_append)
qed

lemma rt_DeleteClip:
  assumes "reversible (DeleteClip t c) d"
  shows "round_trip (DeleteClip t c) d"
proof -
  obtain tr where tr: "find_track t d = Some tr" "sole_last (\<lambda>x. c_id x = c) (t_clips tr)"
      "v2_or (\<not> isMusicalClip (last (t_clips tr))) d"
    using assms by auto
  note sole = sole_last_facts [OF tr(2)]
  have v2: "(if isMusicalClip (last (t_clips tr)) then ensureV2 e else e) = e"
    if "d_schemaVersion e = d_schemaVersion d" for e
    using tr(3) that by (auto simp: v2_or_def ensureV2_def)
  show ?thesis
    using tr(1,3) sole
    by (simp add: round_trip_def addClip_def deleteClip_def v2 track.get_upd track.restore find_clip_def)
qed

lemma rt_AddTrack:
  assumes "reversible (AddTrack tr) d"
  shows "round_trip (AddTrack tr) d"
proof -
  have "\<forall>x\<in>set (d_tracks d). t_id x \<noteq> t_id tr" using assms by simp
  moreover from this have "List.find (\<lambda>x. t_id x = t_id tr) (d_tracks d) = None"
    by (simp add: find_None_iff)
  ultimately show ?thesis
    by (simp add: round_trip_def addTrack_def deleteTrack_def find_track_def find_snoc remove_first_snoc
        sole_last_append)
qed

lemma rt_DeleteTrack:
  assumes "reversible (DeleteTrack t) d"
  shows "round_trip (DeleteTrack t) d"
proof -
  have "sole_last (\<lambda>x. t_id x = t) (d_tracks d)" using assms by simp
  note sole = sole_last_facts [OF this]
  then show ?thesis
    by (simp add: round_trip_def addTrack_def deleteTrack_def find_track_def)
qed

lemma rt_AddProcessor:
  assumes "reversible (AddProcessor t p i) d"
  shows "round_trip (AddProcessor t p i) d"
proof -
  obtain tr where tr: "find_track t d = Some tr" "\<forall>x\<in>set (t_chain tr). p_id x \<noteq> p_id p"
    using assms by auto
  show ?thesis
  proof (cases i)
    case None
    show ?thesis
      using tr sole_splice_in [of "t_chain tr" "\<lambda>x. p_id x = p_id p" p "length (t_chain tr)"]
      by (simp add: round_trip_def addProcessor_def removeProcessor_def track.get_upd track.restore None)
  next
    case (Some k)
    show ?thesis
      using tr sole_splice_in [of "t_chain tr" "\<lambda>x. p_id x = p_id p" p "index_or_end k (t_chain tr)"]
      by (simp add: round_trip_def addProcessor_def removeProcessor_def track.get_upd track.restore Some)
  qed
qed

lemma rt_RemoveProcessor:
  assumes "reversible (RemoveProcessor t p) d"
  shows "round_trip (RemoveProcessor t p) d"
proof -
  obtain tr where tr: "find_track t d = Some tr" "sole (\<lambda>x. p_id x = p) (t_chain tr)"
    using assms by auto
  from soleE [OF tr(2)] obtain i where i: "find_index (\<lambda>x. p_id x = p) (t_chain tr) = Some i"
    "i < length (t_chain tr)" "p_id (t_chain tr ! i) = p"
    "\<forall>y\<in>set (splice_out i (t_chain tr)). p_id y \<noteq> p"
    "remove_first (\<lambda>x. p_id x = p) (t_chain tr) = splice_out i (t_chain tr)"
    "splice_in i (t_chain tr ! i) (splice_out i (t_chain tr)) = t_chain tr"
    "i \<le> length (splice_out i (t_chain tr))" .
  then show ?thesis
    using tr(1)
    by (simp add: round_trip_def addProcessor_def removeProcessor_def track.get_upd track.restore)
qed

subsection \<open>Moves of devices\<close>

lemma moveProcessor_alt:
  "find_track t d = Some tr \<Longrightarrow> find_index (\<lambda>x. p_id x = p) (t_chain tr) = Some i \<Longrightarrow>
   js_clamp (js_int 0) (js_int (int (length (t_chain tr)) - 1)) (js_round x) = js_int k \<Longrightarrow> k \<noteq> int i \<Longrightarrow>
   moveProcessor t p x d = Some (MoveProcessor t p (js_int (int i)),
     upd_track t (move_device p (t_chain tr ! i) (js_int k)))"
  by (simp add: moveProcessor_def Let_def js_eq_def del: of_int_diff of_int_of_nat_eq)

lemma clamp_int_id:
  "0 \<le> k \<Longrightarrow> k \<le> n \<Longrightarrow> js_clamp (js_int 0) (js_int n) (js_int k) = js_int k"
  using js_clamp_js_int [of 0 n k] by (simp add: max_def min_def)

lemma move_device_at:
  assumes "find_index (\<lambda>x. p_id x = p) (t_chain tr) = Some i" and "0 \<le> k" and "k < int (length (t_chain tr))"
  shows "move_device p q (js_int k) tr = tr\<lparr>t_chain := splice_in (nat k) q (splice_out i (t_chain tr))\<rparr>"
proof -
  have "i < length (t_chain tr)" using find_index_SomeD [OF assms(1)] by simp
  then have "int (length (splice_out i (t_chain tr))) = int (length (t_chain tr)) - 1" by auto
  then have "js_clamp (js_int 0) (js_int (int (length (splice_out i (t_chain tr))))) (js_int k) = js_int k"
    using assms(2,3) by (intro clamp_int_id) simp_all
  then show ?thesis
    unfolding move_device_def assms(1) by (simp only: Let_def option.case splice_index_def jsnum.case floor_of_int)
qed

lemma clamp_index:
  assumes "js_finite x" and "0 < n"
  obtains k where "js_clamp (js_int 0) (js_int (int n - 1)) (js_round x) = js_int k" and "0 \<le> k" and "k < int n"
proof -
  obtain m where m: "js_round x = js_int m" using assms(1) by (cases x) auto
  have "js_clamp (js_int 0) (js_int (int n - 1)) (js_round x) = js_int (max 0 (min (int n - 1) m))"
    unfolding m by (rule js_clamp_js_int) (use assms(2) in simp)
  then show ?thesis by (rule that) (use assms(2) in auto)
qed

lemma upd_track_chain_id [simp]: "t_id (move_device p q k t) = t_id t"
  by (simp add: move_device_def Let_def split: option.splits)

lemma rt_MoveProcessor:
  assumes "reversible (MoveProcessor t p x) d"
  shows "round_trip (MoveProcessor t p x) d"
proof -
  let ?P = "\<lambda>x. p_id x = p"
  obtain tr i where tr: "find_track t d = Some tr" "sole ?P (t_chain tr)" "js_finite x"
      "find_index ?P (t_chain tr) = Some i"
      "js_clamp (js_int 0) (js_int (int (length (t_chain tr)) - 1)) (js_round x) \<noteq> js_int (int i)"
    using assms by auto
  from soleE [OF tr(2)] tr(4) have i: "i < length (t_chain tr)" "?P (t_chain tr ! i)"
      "\<forall>y\<in>set (splice_out i (t_chain tr)). \<not> ?P y"
      "splice_in i (t_chain tr ! i) (splice_out i (t_chain tr)) = t_chain tr"
    by (metis option.inject)+
  then have "0 < length (t_chain tr)" by linarith
  from clamp_index [OF tr(3) this] obtain k where
    k: "js_clamp (js_int 0) (js_int (int (length (t_chain tr)) - 1)) (js_round x) = js_int k" "0 \<le> k"
      "k < int (length (t_chain tr))" .
  let ?xs = "splice_in (nat k) (t_chain tr ! i) (splice_out i (t_chain tr))"
  have le: "nat k \<le> length (splice_out i (t_chain tr))" using k i(1) by simp
  note new = sole_splice_in [OF i(3,2) le]
  have len: "length ?xs = length (t_chain tr)" using le i(1) by simp
  define tr' where "tr' = tr\<lparr>t_chain := ?xs\<rparr>"
  have moved: "move_device p (t_chain tr ! i) (js_int k) tr = tr'"
    unfolding tr'_def by (rule move_device_at [OF tr(4) k(2,3)])
  have found: "find_track t (upd_track t (move_device p (t_chain tr ! i) (js_int k)) d) = Some tr'"
    using tr(1) by (simp add: track.get_upd moved)
  have ne: "k \<noteq> int i" using k(1) tr(5) by auto
  have clamp_i: "js_clamp (js_int 0) (js_int (int (length (t_chain tr')) - 1)) (js_round (js_int (int i))) = js_int (int i)"
  proof -
    have "length (t_chain tr') = length (t_chain tr)" using len by (simp add: tr'_def)
    then show ?thesis
      using clamp_int_id [of "int i" "int (length (t_chain tr)) - 1"] i(1) by (simp only: js_round_js_int)
  qed
  have "move_device p (t_chain tr ! i) (js_int (int i)) tr' = tr"
    using move_device_at [of p tr' "nat k" "int i" "t_chain tr ! i"] new(3) i(1,4) len le
    by (simp add: tr'_def)
  then have undone: "upd_track t (move_device p (t_chain tr ! i) (js_int (int i)))
      (upd_track t (move_device p (t_chain tr ! i) (js_int k)) d) = d"
    by (intro track.restore [OF tr(1)]) (simp_all add: moved)
  note step1 = moveProcessor_alt [OF tr(1,4) k(1) ne]
  have nth: "t_chain tr' ! nat k = t_chain tr ! i" using new(4) by (simp add: tr'_def)
  have fi: "find_index ?P (t_chain tr') = Some (nat k)" using new(3) by (simp add: tr'_def)
  have "int i \<noteq> int (nat k)" using ne k(2) by simp
  note step2 = moveProcessor_alt [OF found fi clamp_i this, unfolded nth]
  have "reversible (MoveProcessor t p (js_int (int i)))
      (upd_track t (move_device p (t_chain tr ! i) (js_int k)) d)"
    using found new(1) fi clamp_i ne k(2) by (simp add: tr'_def)
  then show ?thesis
    unfolding round_trip_def using step1 step2 undone by auto
qed

subsection \<open>Notes\<close>

lemma apply_patch_id [simp]: "n_id (apply_patch p n) = n_id n"
  by (simp add: apply_patch_def)

lemma patch_back:
  "(v = None \<Longrightarrow> p = None) \<Longrightarrow> patch_option (if_patched p v) (patch_option p v) = v"
  by (cases p; cases v) (auto simp: patch_option_def if_patched_def)

lemma apply_inverse_patch:
  assumes "n_startSample x = None \<longrightarrow> np_startSample p = None"
    and "n_lengthSamples x = None \<longrightarrow> np_lengthSamples p = None"
    and "n_startTick x = None \<longrightarrow> np_startTick p = None"
    and "n_lengthTick x = None \<longrightarrow> np_lengthTick p = None"
  shows "apply_patch (inverse_patch p x) (apply_patch p x) = x"
proof -
  have "or_else (if_patched q (Some v)) (or_else q v) = v" for q :: "jsnum option" and v
    by (cases q) (simp_all add: if_patched_def)
  then show ?thesis
    using assms by (simp add: apply_patch_def inverse_patch_def patch_back)
qed

lemma patched_domain:
  "(patch_option p v = None) = (p = None \<and> v = None)"
  "(if_patched p v = None) = (p = None \<or> v = None)"
  by (auto simp: patch_option_def if_patched_def split: option.splits)

lemma rt_UpdateNote: "reversible (UpdateNote t c n p) d \<Longrightarrow> round_trip (UpdateNote t c n p) d"
  by (auto simp: round_trip_def updateNote_def note_focus.get_upd note_focus.restore apply_inverse_patch)
    (auto simp: apply_patch_def inverse_patch_def patched_domain)

lemma sole_last_index:
  assumes "sole_last P xs"
  shows "find_index P xs = Some (length xs - 1)" and "splice_out (length xs - 1) xs = butlast xs"
proof -
  have xs: "xs = butlast xs @ [last xs]" and P: "P (last xs)" and no: "\<forall>y\<in>set (butlast xs). \<not> P y"
    using assms by (simp_all add: sole_last_def)
  then have "find_index P (butlast xs) = None" by (simp add: find_index_None_iff)
  then have "find_index P (butlast xs @ [last xs]) = Some (length (butlast xs))"
    using P by (simp add: find_index_append)
  then show "find_index P xs = Some (length xs - 1)" using xs by simp
  show "splice_out (length xs - 1) xs = butlast xs" by (simp add: splice_out_def butlast_conv_take)
qed

lemma same_note_self: "self_eq n \<Longrightarrow> same_note n n"
  by (cases "n_startTick n"; cases "n_startSample n") (auto simp: same_note_def self_eq_def js_eq_def)

lemma toggle_draft_u: "n_id n = Some i \<Longrightarrow> toggle_draft u t c n = toggle_draft [] t c n"
  by (simp add: toggle_draft_def fun_eq_iff Let_def split: option.split)

lemma toggle_draft_add:
  assumes "find_clip t c d = Some cl" and "c_notes cl = Some ns" and "\<forall>x\<in>set ns. \<not> same_note n x"
    and "n_id n = Some i" and "v2_or (n_startTick n = None) d"
  shows "toggle_draft u t c n d = upd_clip t c (\<lambda>c. c\<lparr>c_notes := Some (ns @ [n])\<rparr>) d"
proof -
  have "find_index (same_note n) ns = None" using assms(3) by (simp add: find_index_None_iff)
  moreover have "ensureV2 d = d" if "n_startTick n \<noteq> None"
    using assms(5) that by (simp add: v2_or_def ensureV2_def)
  ultimately show ?thesis
    using assms(1,2,4) by (cases n) (simp add: toggle_draft_def)
qed

lemma toggle_draft_remove:
  assumes "find_clip t c d = Some cl" and "c_notes cl = Some ns" and "sole_last (same_note n) ns"
  shows "toggle_draft u t c n d = upd_clip t c (\<lambda>c. c\<lparr>c_notes := Some (butlast ns)\<rparr>) d"
  using assms sole_last_index [OF assms(3)] by (simp add: toggle_draft_def)

lemma v2_or_upd_clip [simp]: "v2_or b (upd_clip t c f d) = v2_or b d"
  by (simp add: upd_clip_def)

lemma rt_ToggleNote:
  assumes "reversible (ToggleNote t c n) d"
  shows "round_trip (ToggleNote t c n) d"
proof -
  obtain cl ns i where cl: "find_clip t c d = Some cl" "c_notes cl = Some ns" "self_eq n" "n_id n = Some i"
      "v2_or (n_startTick n = None) d"
      "(\<forall>x\<in>set ns. \<not> same_note n x) \<or> sole_last (same_note n) ns \<and> last ns = n"
    using assms by auto
  have trip: "round_trip (ToggleNote t c n) d"
    if new: "toggle_draft [] t c n d = upd_clip t c (\<lambda>c. c\<lparr>c_notes := Some ns'\<rparr>) d"
      and old: "toggle_draft [] t c n (upd_clip t c (\<lambda>c. c\<lparr>c_notes := Some ns'\<rparr>) d) =
        upd_clip t c (\<lambda>c. c\<lparr>c_notes := Some ns\<rparr>) (upd_clip t c (\<lambda>c. c\<lparr>c_notes := Some ns'\<rparr>) d)"
      and state: "(\<forall>x\<in>set ns'. \<not> same_note n x) \<or> sole_last (same_note n) ns' \<and> last ns' = n" for ns'
  proof -
    let ?d' = "upd_clip t c (\<lambda>c. c\<lparr>c_notes := Some ns'\<rparr>) d"
    have found: "find_clip t c ?d' = Some (cl\<lparr>c_notes := Some ns'\<rparr>)"
      using cl(1) by (simp add: clip.get_upd)
    have "upd_clip t c (\<lambda>c. c\<lparr>c_notes := Some ns\<rparr>) ?d' = d"
      by (rule clip.restore [OF cl(1)]) (simp_all add: cl(2) [symmetric])
    then show ?thesis
      using new old state found cl
      by (intro round_tripI [where iop = "ToggleNote t c n" and f = "toggle_draft [] t c n"
            and iop' = "ToggleNote t c n" and g = "toggle_draft [] t c n"])
        (simp_all add: toggleNote_def toggle_draft_u [OF cl(4), of "_ # _"],
          (metis toggle_draft_u)+)
  qed
  from cl(6) show ?thesis
  proof
    assume no: "\<forall>x\<in>set ns. \<not> same_note n x"
    have last: "sole_last (same_note n) (ns @ [n])"
      by (rule sole_last_append [OF no same_note_self [OF cl(3)]])
    have found: "find_clip t c (upd_clip t c (\<lambda>c. c\<lparr>c_notes := Some (ns @ [n])\<rparr>) d) = Some (cl\<lparr>c_notes := Some (ns @ [n])\<rparr>)"
      using cl(1) by (simp add: clip.get_upd)
    show ?thesis
      by (rule trip [of "ns @ [n]"])
        (use toggle_draft_add [OF cl(1,2) no cl(4,5)] toggle_draft_remove [OF found _ last] last in simp_all)
  next
    assume here: "sole_last (same_note n) ns \<and> last ns = n"
    note facts = sole_last_facts [OF here [THEN conjunct1]]
    have found: "find_clip t c (upd_clip t c (\<lambda>c. c\<lparr>c_notes := Some (butlast ns)\<rparr>) d) = Some (cl\<lparr>c_notes := Some (butlast ns)\<rparr>)"
      using cl(1) by (simp add: clip.get_upd)
    have "butlast ns @ [n] = ns" using here facts(3) append_butlast_last_id by blast
    then show ?thesis
      by (intro trip [of "butlast ns"])
        (use toggle_draft_remove [OF cl(1,2)] toggle_draft_add [OF found _ facts(4) cl(4)] here facts(4) cl(5)
          in simp_all)
  qed
qed

subsection \<open>Scenes\<close>

lemma scene_clips_Nil:
  "scene_clips s d = [] \<longleftrightarrow> (\<forall>t\<in>set (d_tracks d). \<forall>c\<in>set (t_clips t). \<not> in_scene s c)"
  by (auto simp: scene_clips_def filter_empty_conv)

lemma drop_slots_none:
  assumes "scene_clips s d = []"
  shows "map (\<lambda>t. t\<lparr>t_clips := filter (\<lambda>c. \<not> in_scene s c) (t_clips t)\<rparr>) (d_tracks d) = d_tracks d"
proof (rule map_idI)
  fix t assume "t \<in> set (d_tracks d)"
  then have "filter (\<lambda>c. \<not> in_scene s c) (t_clips t) = t_clips t"
    using assms by (auto simp: scene_clips_Nil filter_id_conv)
  then show "t\<lparr>t_clips := filter (\<lambda>c. \<not> in_scene s c) (t_clips t)\<rparr> = t" by simp
qed

lemma scene_clips_upd [simp]: "scene_clips s (d\<lparr>d_scenes := x\<rparr>) = scene_clips s d"
  by (simp add: scene_clips_def)

lemma sole_find: "sole P xs \<Longrightarrow> find_index P xs = Some i \<Longrightarrow> List.find P xs = Some (xs ! i)"
  by (simp add: find_eq_find_index)

lemma rt_DeleteScene:
  assumes "reversible (DeleteScene s) d"
  shows "round_trip (DeleteScene s) d"
proof -
  have s: "sole (\<lambda>x. sc_id x = s) (or_else (d_scenes d) [])" "scene_clips s d = []"
    using assms by auto
  from soleE [OF s(1)] obtain i where i: "find_index (\<lambda>x. sc_id x = s) (or_else (d_scenes d) []) = Some i"
    "i < length (or_else (d_scenes d) [])" "sc_id (or_else (d_scenes d) [] ! i) = s"
    "\<forall>y\<in>set (splice_out i (or_else (d_scenes d) [])). sc_id y \<noteq> s"
    "remove_first (\<lambda>x. sc_id x = s) (or_else (d_scenes d) []) = splice_out i (or_else (d_scenes d) [])"
    "splice_in i (or_else (d_scenes d) [] ! i) (splice_out i (or_else (d_scenes d) [])) = or_else (d_scenes d) []"
    "i \<le> length (splice_out i (or_else (d_scenes d) []))" .
  obtain scs where scs: "d_scenes d = Some scs" using i(2) by (cases "d_scenes d") simp_all
  have "d\<lparr>d_tracks := d_tracks d, d_scenes := Some (splice_out i scs)\<rparr> = d\<lparr>d_scenes := Some (splice_out i scs)\<rparr>"
    by simp
  moreover have "d\<lparr>d_scenes := Some scs\<rparr> = d" using scs by (cases d) simp
  ultimately show ?thesis
    using i s scs sole_find [OF s(1) i(1)]
    by (simp add: round_trip_def deleteScene_def restoreScene_def find_scene_def drop_slots_none)
qed

lemma rt_RestoreScene:
  assumes "reversible (RestoreScene sc i cs) d"
  shows "round_trip (RestoreScene sc i cs) d"
proof -
  obtain scs where s: "cs = []" "scene_clips (sc_id sc) d = []" "d_scenes d = Some scs"
      "\<forall>x\<in>set scs. sc_id x \<noteq> sc_id sc"
    using assms by auto
  let ?k = "index_or_end i scs"
  note new = sole_splice_in [OF s(4), of sc ?k]
  have "d\<lparr>d_scenes := Some scs\<rparr> = d" using s(3) by (cases d) simp
  moreover have "map (\<lambda>t. t\<lparr>t_clips := filter (\<lambda>c. \<not> in_scene (sc_id sc) c) (t_clips t)\<rparr>) (d_tracks d) = d_tracks d"
    by (rule drop_slots_none [OF s(2)])
  ultimately show ?thesis
    using s new sole_find [OF new(1) new(3)]
    by (simp add: round_trip_def deleteScene_def restoreScene_def find_scene_def)
qed

subsection \<open>Lanes\<close>

lemma lanesIn_upd_lanes: "lanesIn t (upd_lanes t f d) = map_option f (lanesIn t d)"
proof (cases t)
  case (Some i)
  then show ?thesis
    by (cases "find_track i d") (simp_all add: lanesIn_def upd_lanes_def track.get_upd)
qed (simp add: lanesIn_def upd_lanes_def)

lemma upd_lanes_upd: "upd_lanes t g (upd_lanes t f d) = upd_lanes t (\<lambda>x. g (f x)) d"
  by (cases t) (simp_all add: upd_lanes_def track.upd_upd option.map_comp comp_def)

lemma upd_lanes_same:
  assumes "lanesIn t d = Some ls" and "f ls = ls"
  shows "upd_lanes t f d = d"
proof (cases t)
  case (Some i)
  then obtain tr where tr: "find_track i d = Some tr" "t_automation tr = Some ls"
    using assms(1) by (cases "find_track i d") (auto simp: lanesIn_def)
  then have "tr\<lparr>t_automation := map_option f (t_automation tr)\<rparr> = tr"
    using assms(2) by (cases tr) simp
  then show ?thesis
    using track.upd_same [OF tr(1), of "\<lambda>t. t\<lparr>t_automation := map_option f (t_automation t)\<rparr>"]
    by (simp add: Some upd_lanes_def)
qed (use assms in \<open>cases d, simp add: lanesIn_def upd_lanes_def\<close>)

lemma ensureLanes_present:
  assumes "lanesIn t d = Some ls"
  shows "ensureLanes t f d = upd_lanes t f d"
proof (cases t)
  case (Some i)
  then obtain tr where tr: "find_track i d = Some tr" "t_automation tr = Some ls"
    using assms(1) by (cases "find_track i d") (auto simp: lanesIn_def)
  have "upd_track i (\<lambda>t. t\<lparr>t_automation := Some (f (or_else (t_automation t) []))\<rparr>) d =
      upd_track i (\<lambda>t. t\<lparr>t_automation := map_option f (t_automation t)\<rparr>) d"
    by (rule track.upd_cong [OF tr(1)]) (simp add: tr(2))
  then show ?thesis
    by (simp add: Some ensureLanes_def upd_lanes_def)
qed (use assms in \<open>simp add: lanesIn_def upd_lanes_def ensureLanes_def\<close>)

lemma lanes_track_present: "lanesIn t d = Some ls \<Longrightarrow> track_present t d"
  by (cases t; cases "find_track (the t) d") (auto simp: lanesIn_def track_present_def)

lemma upd_lanes_restore:
  "lanesIn t d = Some ls \<Longrightarrow> g (f ls) = ls \<Longrightarrow> upd_lanes t g (upd_lanes t f d) = d"
  by (simp add: upd_lanes_upd upd_lanes_same)

lemma rt_DeleteAutomationLane:
  assumes "reversible (DeleteAutomationLane t l) d"
  shows "round_trip (DeleteAutomationLane t l) d"
proof -
  have s: "sole (\<lambda>x. l_id x = l) (or_else (lanesIn t d) [])" using assms by simp
  from soleE [OF s] obtain i where i: "find_index (\<lambda>x. l_id x = l) (or_else (lanesIn t d) []) = Some i"
    "i < length (or_else (lanesIn t d) [])" "l_id (or_else (lanesIn t d) [] ! i) = l"
    "\<forall>y\<in>set (splice_out i (or_else (lanesIn t d) [])). l_id y \<noteq> l"
    "remove_first (\<lambda>x. l_id x = l) (or_else (lanesIn t d) []) = splice_out i (or_else (lanesIn t d) [])"
    "splice_in i (or_else (lanesIn t d) [] ! i) (splice_out i (or_else (lanesIn t d) [])) = or_else (lanesIn t d) []"
    "i \<le> length (splice_out i (or_else (lanesIn t d) []))" .
  obtain ls where ls: "lanesIn t d = Some ls" using i(2) by (cases "lanesIn t d") simp_all
  let ?d' = "upd_lanes t (remove_first (\<lambda>x. l_id x = l)) d"
  have new: "lanesIn t ?d' = Some (splice_out i ls)"
    using ls i(5) by (simp add: lanesIn_upd_lanes)
  have "upd_lanes t (\<lambda>ks. splice_in (index_or_end (int i) ks) (ls ! i) ks) ?d' = d"
    by (rule upd_lanes_restore [OF ls]) (use i ls in simp)
  then show ?thesis
    using i ls new lanes_track_present [OF new]
    by (simp add: round_trip_def deleteAutomationLane_def restoreAutomationLane_def ensureLanes_present [OF new])
qed

lemma rt_RestoreAutomationLane:
  assumes "reversible (RestoreAutomationLane t l i) d"
  shows "round_trip (RestoreAutomationLane t l i) d"
proof -
  obtain ls where ls: "lanesIn t d = Some ls" "\<forall>x\<in>set ls. l_id x \<noteq> l_id l" using assms by auto
  let ?f = "\<lambda>ls. splice_in (index_or_end i ls) l ls"
  note new = sole_splice_in [OF ls(2), of l "index_or_end i ls"]
  have found: "lanesIn t (upd_lanes t ?f d) = Some (?f ls)"
    using ls by (simp add: lanesIn_upd_lanes)
  have "upd_lanes t (remove_first (\<lambda>x. l_id x = l_id l)) (upd_lanes t ?f d) = d"
    by (rule upd_lanes_restore [OF ls(1)]) (use new in simp)
  then show ?thesis
    using ls new found lanes_track_present [OF ls(1)]
    by (simp add: round_trip_def deleteAutomationLane_def restoreAutomationLane_def
        ensureLanes_present [OF ls(1)])
qed

subsection \<open>Points\<close>

lemma good_points_append:
  "good_points (xs @ ys) \<longleftrightarrow> good_points xs \<and> good_points ys \<and>
     (\<forall>p\<in>set xs. \<forall>q\<in>set ys. js_le (pt_t p) (pt_t q))"
  by (auto simp: good_points_def sorted_wrt_append)

lemma good_points_Cons:
  "good_points (p # ps) \<longleftrightarrow> good_point p \<and> (\<forall>q\<in>set ps. js_le (pt_t p) (pt_t q)) \<and> good_points ps"
  by (auto simp: good_points_def)

lemma good_time: "good_point p \<Longrightarrow> js_int_from 0 (pt_t p)"
  by (simp add: good_point_def)

lemma int_le_trans:
  "js_int_from 0 a \<Longrightarrow> js_int_from 0 b \<Longrightarrow> js_int_from 0 c \<Longrightarrow> js_le a b \<Longrightarrow> js_le b c \<Longrightarrow> js_le a c"
  by (auto elim!: js_int_fromE)

lemma int_not_le: "js_int_from 0 a \<Longrightarrow> js_int_from 0 b \<Longrightarrow> (\<not> js_le a b) = js_lt b a"
  by (auto elim!: js_int_fromE)

lemma int_lt_le_trans:
  "js_int_from 0 a \<Longrightarrow> js_int_from 0 b \<Longrightarrow> js_int_from 0 c \<Longrightarrow> js_lt a b \<Longrightarrow> js_le b c \<Longrightarrow> js_lt a c"
  by (auto elim!: js_int_fromE)

lemma int_lt_le: "js_lt a b \<Longrightarrow> js_le a b"
  by (simp add: js_le_def)

text \<open>The sorted index of a time splits a sorted lane: up to it, and after it.\<close>

lemma sorted_split:
  assumes "good_points ps" and "js_int_from 0 t"
  defines "k \<equiv> length (filter (\<lambda>p. js_le (pt_t p) t) ps)"
  shows "k \<le> length ps \<and> (\<forall>p\<in>set (take k ps). js_le (pt_t p) t) \<and> (\<forall>p\<in>set (drop k ps). js_lt t (pt_t p))"
  using assms(1) unfolding k_def
proof (induction ps)
  case (Cons p ps)
  then have p: "good_point p" "\<forall>q\<in>set ps. js_le (pt_t p) (pt_t q)" "good_points ps"
    by (simp_all add: good_points_Cons)
  show ?case
  proof (cases "js_le (pt_t p) t")
    case True
    define m where "m = length (filter (\<lambda>p. js_le (pt_t p) t) ps)"
    have "length (filter (\<lambda>p. js_le (pt_t p) t) (p # ps)) = Suc m" using True by (simp add: m_def)
    then show ?thesis using Cons.IH [OF p(3), folded m_def] True by simp
  next
    case False
    then have lt: "js_lt t (pt_t p)" using int_not_le [OF good_time [OF p(1)] assms(2)] by simp
    have "js_lt t (pt_t q)" if "q \<in> set ps" for q
    proof -
      have q: "js_int_from 0 (pt_t q)" using p(3) that by (auto simp: good_points_def good_point_def)
      have "js_le (pt_t p) (pt_t q)" using p(2) that by simp
      with lt show ?thesis by (rule int_lt_le_trans [OF assms(2) good_time [OF p(1)] q])
    qed
    then have after_t: "\<forall>q\<in>set ps. js_lt t (pt_t q)" by blast
    have "\<not> js_le (pt_t q) t" if "q \<in> set ps" for q
    proof -
      have "js_int_from 0 (pt_t q)" using p(3) that by (auto simp: good_points_def good_point_def)
      then show ?thesis using int_not_le [OF _ assms(2)] after_t that by blast
    qed
    then have "filter (\<lambda>p. js_le (pt_t p) t) ps = []" by (simp add: filter_empty_conv)
    then show ?thesis using False lt after_t by simp
  qed
qed simp

lemma good_splice_in:
  assumes "good_points ps" and "good_point p"
  defines "k \<equiv> length (filter (\<lambda>q. js_le (pt_t q) (pt_t p)) ps)"
  shows "good_points (splice_in k p ps)" and "last_at_time k (splice_in k p ps)" and "k \<le> length ps"
proof -
  note split = sorted_split [OF assms(1) good_time [OF assms(2)], folded k_def]
  then show k: "k \<le> length ps" by simp
  have "good_points (take k ps @ drop k ps)" using assms(1) by simp
  then have ps: "good_points (take k ps)" "good_points (drop k ps)"
      "\<forall>p\<in>set (take k ps). \<forall>q\<in>set (drop k ps). js_le (pt_t p) (pt_t q)"
    unfolding good_points_append by blast+
  then show "good_points (splice_in k p ps)"
    unfolding splice_in_def good_points_append good_points_Cons
    using split assms(2) int_lt_le by auto
  have "drop (Suc k) (splice_in k p ps) = drop k ps" using k by (simp add: splice_in_def min_def)
  then show "last_at_time k (splice_in k p ps)" using split k by (simp add: last_at_time_def)
qed

lemma good_splice_out:
  assumes "good_points ps" and "last_at_time i ps"
  shows "good_points (splice_out i ps)" and "good_point (ps ! i)"
    and "length (filter (\<lambda>q. js_le (pt_t q) (pt_t (ps ! i))) (splice_out i ps)) = i" and "i < length ps"
proof -
  show i: "i < length ps" using assms(2) by (simp add: last_at_time_def)
  have ps: "ps = take i ps @ ps ! i # drop (Suc i) ps" using i by (rule id_take_nth_drop)
  have "good_points (take i ps @ ps ! i # drop (Suc i) ps)" using assms(1) ps by simp
  then have good: "good_points (take i ps)" "good_point (ps ! i)" "good_points (drop (Suc i) ps)"
    "\<forall>p\<in>set (take i ps). js_le (pt_t p) (pt_t (ps ! i))"
    "\<forall>p\<in>set (take i ps). \<forall>q\<in>set (drop (Suc i) ps). js_le (pt_t p) (pt_t q)"
    unfolding good_points_append good_points_Cons by simp_all
  then show "good_points (splice_out i ps)" "good_point (ps ! i)"
    unfolding splice_out_def good_points_append by simp_all
  have "filter (\<lambda>q. js_le (pt_t q) (pt_t (ps ! i))) (take i ps) = take i ps"
    using good(4) by (auto simp: filter_id_conv)
  moreover have "filter (\<lambda>q. js_le (pt_t q) (pt_t (ps ! i))) (drop (Suc i) ps) = []"
  proof -
    have "\<not> js_le (pt_t q) (pt_t (ps ! i))" if "q \<in> set (drop (Suc i) ps)" for q
    proof -
      have "js_int_from 0 (pt_t q)" using good(3) that by (auto simp: good_points_def good_point_def)
      moreover have "js_lt (pt_t (ps ! i)) (pt_t q)" using assms(2) that by (simp add: last_at_time_def)
      ultimately show ?thesis using int_not_le [OF _ good_time [OF good(2)]] by blast
    qed
    then show ?thesis by (simp add: filter_empty_conv)
  qed
  ultimately show "length (filter (\<lambda>q. js_le (pt_t q) (pt_t (ps ! i))) (splice_out i ps)) = i"
    using i by (simp add: splice_out_def)
qed

lemma sorted_index_alt:
  "sorted_index i t ps = length (filter (\<lambda>p. js_le (pt_t p) t) (splice_out i ps))"
proof -
  have shift: "length (filter (\<lambda>(j, p). j \<noteq> i \<and> js_le (pt_t p) t) (enumerate n xs)) =
      length (filter (\<lambda>p. js_le (pt_t p) t) (if i < n then xs else splice_out (i - n) xs))" for n xs
  proof (induction xs arbitrary: n)
    case (Cons x xs)
    show ?case
    proof (cases "i = n")
      case True
      then show ?thesis using Cons [of "Suc n"] by (simp add: splice_out_def)
    next
      case False
      moreover have "splice_out (i - n) (x # xs) = x # splice_out (i - Suc n) xs" if "n < i"
        using that by (simp add: splice_out_def take_Cons' Suc_diff_Suc [symmetric])
      ultimately show ?thesis using Cons [of "Suc n"] by auto
    qed
  qed (simp add: splice_out_def)
  show ?thesis using shift [of 0 ps] by (simp add: sorted_index_def)
qed

lemma clamp_point:
  assumes "js_finite x" and "v \<noteq> NaN"
  shows "good_point (point_at (clampT x) (clampV v))"
  using assms js_round_from_finite [of x] by (simp add: good_point_def point_at_def clampT_def clampV_def)

lemma clamp_good_point: "good_point p \<Longrightarrow> point_at (clampT (pt_t p)) (clampV (pt_v p)) = p"
  by (simp add: good_point_def point_at_def clampT_def clampV_def js_round_from_whole js_clamp_id)

lemma good_point_args: "good_point p \<Longrightarrow> js_finite (pt_t p) \<and> pt_v p \<noteq> NaN"
  unfolding good_point_def using js_int_from_finite between_not_NaN by blast

lemma point_at_t [simp]: "pt_t (point_at t v) = t" "pt_v (point_at t v) = v"
  by (simp_all add: point_at_def)

lemma rt_AddAutomationPoint:
  assumes "reversible (AddAutomationPoint t l x v) d"
  shows "round_trip (AddAutomationPoint t l x v) d"
proof -
  obtain la where la: "find_lane t l d = Some la" "good_points (l_points la)" "js_finite x" "v \<noteq> NaN"
    using assms by auto
  let ?p = "point_at (clampT x) (clampV v)"
  define k where "k = length (filter (\<lambda>q. js_le (pt_t q) (clampT x)) (l_points la))"
  note new = good_splice_in [OF la(2) clamp_point [OF la(3,4)], unfolded point_at_t, folded k_def]
  have "int k < 1 + int (length (l_points la))" using new(3) by simp
  then show ?thesis
    using la(1) new
    by (simp add: round_trip_def addAutomationPoint_def deleteAutomationPoint_def Let_def lane.get_upd
        lane.restore k_def [symmetric])
qed

lemma rt_DeleteAutomationPoint:
  assumes "reversible (DeleteAutomationPoint t l i) d"
  shows "round_trip (DeleteAutomationPoint t l i) d"
proof -
  obtain la where la: "find_lane t l d = Some la" "good_points (l_points la)"
      "last_at_time (nat i) (l_points la)" "0 \<le> i"
    using assms by auto
  note out = good_splice_out [OF la(2,3)]
  let ?p = "l_points la ! nat i"
  have t: "clampT (pt_t ?p) = pt_t ?p"
    using clamp_good_point [OF out(2)] by (metis point_at_t(1))
  show ?thesis
    using la(1,4) out good_point_args [OF out(2)] clamp_good_point [OF out(2)]
    by (simp add: round_trip_def addAutomationPoint_def deleteAutomationPoint_def Let_def lane.get_upd
        lane.restore t nat_less_iff)
qed

lemma move_point_splice:
  assumes "i < length (l_points la)"
  shows "move_point i k p la = la\<lparr>l_points := splice_in k p (splice_out i (l_points la))\<rparr>"
  using assms upd_conv_take_nth_drop [OF assms]
  by (auto simp: move_point_def splice_in_def splice_out_def min_def)

lemma move_point_id [simp]: "l_id (move_point i k p la) = l_id la"
  by (simp add: move_point_def)

lemma rt_MoveAutomationPoint:
  assumes "reversible (MoveAutomationPoint t l i x v) d"
  shows "round_trip (MoveAutomationPoint t l i x v) d"
proof -
  obtain la where la: "find_lane t l d = Some la" "good_points (l_points la)"
      "last_at_time (nat i) (l_points la)" "0 \<le> i" "js_finite x" "v \<noteq> NaN"
    using assms by auto
  let ?p = "point_at (clampT x) (clampV v)" and ?ps = "l_points la" and ?old = "l_points la ! nat i"
  let ?rest = "splice_out (nat i) ?ps"
  define k where "k = sorted_index (nat i) (clampT x) ?ps"
  note out = good_splice_out [OF la(2,3)]
  have "k = length (filter (\<lambda>q. js_le (pt_t q) (pt_t ?p)) ?rest)"
    by (simp add: k_def sorted_index_alt)
  note new = good_splice_in [OF out(1) clamp_point [OF la(5,6)], folded this]
  define la' where "la' = la\<lparr>l_points := splice_in k ?p ?rest\<rparr>"
  have moved: "move_point (nat i) k ?p la = la'"
    using out(4) by (simp add: move_point_splice la'_def)
  let ?d' = "upd_lane t l (move_point (nat i) k ?p) d"
  have found: "find_lane t l ?d' = Some la'"
    using la(1) by (simp add: lane.get_upd moved)
  have len: "k < length (l_points la')" using new(3) by (simp add: la'_def)
  have old: "clampT (pt_t ?old) = pt_t ?old" "point_at (pt_t ?old) (clampV (pt_v ?old)) = ?old"
    using clamp_good_point [OF out(2)] by (metis point_at_t(1))+
  have k': "sorted_index k (pt_t ?old) (l_points la') = nat i"
    using new(3) out(3) by (simp add: sorted_index_alt la'_def)
  have "move_point k (nat i) ?old la' = la"
    using len new(3) out(4) by (simp add: move_point_splice la'_def)
  then have undone: "upd_lane t l (move_point k (nat i) ?old) ?d' = d"
    by (intro lane.restore [OF la(1)]) (simp_all add: moved)
  have step1: "moveAutomationPoint t l i x v d =
      Some (MoveAutomationPoint t l (int k) (pt_t ?old) (pt_v ?old), upd_lane t l (move_point (nat i) k ?p))"
    using la(1,4) out(4) by (simp add: moveAutomationPoint_def Let_def k_def nat_less_iff)
  have step2: "moveAutomationPoint t l (int k) (pt_t ?old) (pt_v ?old) ?d' =
      Some (MoveAutomationPoint t l (int (nat i)) (pt_t (l_points la' ! k)) (pt_v (l_points la' ! k)),
        upd_lane t l (move_point k (nat i) ?old))"
    using found len k' old by (simp add: moveAutomationPoint_def Let_def)
  have "reversible (MoveAutomationPoint t l (int k) (pt_t ?old) (pt_v ?old)) ?d'"
    using found new good_point_args [OF out(2)] by (simp add: la'_def)
  then show ?thesis
    unfolding round_trip_def using step1 step2 undone by auto
qed

subsection \<open>All of them\<close>

lemmas round_trips = rt_SetTrackGain rt_SetTrackPan rt_SetTrackOrder rt_ClearTrackOrder rt_RenameTrack
  rt_RenameClip rt_SetMasterGain rt_SetTempo rt_SetProcessorBypass rt_SetProcessorParam
  rt_RemoveProcessorParam rt_SetClipStart rt_SetClipBounds rt_SetClipTiming rt_SetClipFades rt_AddClip
  rt_DeleteClip rt_SetClipScene rt_AddTrack rt_DeleteTrack rt_AddProcessor rt_RemoveProcessor
  rt_MoveProcessor rt_ToggleNote rt_UpdateNote rt_RenameScene rt_DeleteScene rt_RestoreScene
  rt_DeleteAutomationLane rt_RestoreAutomationLane rt_SetAutomationLaneEnabled rt_AddAutomationPoint
  rt_MoveAutomationPoint rt_DeleteAutomationPoint

lemma reversible_round_trip: "reversible op d \<Longrightarrow> round_trip op d"
  by (cases op) (simp_all only: round_trips)

text \<open>One operation on the document: the captured inverse and the result.\<close>

definition doc_step :: "inverse_op \<Rightarrow> project \<Rightarrow> (inverse_op \<times> project) option" where
  "doc_step op d =
     (case replay_op [] op d of Inr (Some (iop, f)) \<Rightarrow> Some (iop, f d) | _ \<Rightarrow> None)"

interpretation edits: undo_contract doc_step reversible
proof
  fix op d assume "reversible op d"
  then have "round_trip op d" by (rule reversible_round_trip)
  then show "\<exists>iop d' iop'. doc_step op d = Some (iop, d') \<and> reversible iop d' \<and> doc_step iop d' = Some (iop', d)"
    by (force simp: round_trip_def doc_step_def)
qed

section \<open>Sessions\<close>

text \<open>The user performs an operation; undo and redo are then called a number of times.\<close>

definition do_op :: "'d automerge \<Rightarrow> inverse_op \<Rightarrow> 'd project_state \<Rightarrow> 'd project_state" where
  "do_op A op s = fst (perform_result A (replay_op [] op) s)"

fun undo_times :: "'d automerge \<Rightarrow> string list \<Rightarrow> nat \<Rightarrow> 'd project_state \<Rightarrow> 'd project_state" where
  "undo_times A us 0 s = s"
| "undo_times A us (Suc n) s = undo_times A us n (fst (undo A us s))"

fun redo_times :: "'d automerge \<Rightarrow> string list \<Rightarrow> nat \<Rightarrow> 'd project_state \<Rightarrow> 'd project_state" where
  "redo_times A us 0 s = s"
| "redo_times A us (Suc n) s = redo_times A us n (fst (redo A us s))"

text \<open>Between gestures, the journal has no open group and no replay under way.\<close>

definition idle :: "'d project_state \<Rightarrow> bool" where
  "idle s \<longleftrightarrow> j_grouping (ps_journal s) = None \<and> j_route (ps_journal s) = Normal"

definition entry :: "inverse_op \<Rightarrow> undo_group" where
  "entry op = \<lparr>g_ops = [op], g_seen = {targetKey op}\<rparr>"

lemma do_op_reversible:
  assumes "change_law A" and "idle s" and "reversible op (getDocument A s)"
    and "length (j_undo (ps_journal s)) < MAX_ENTRIES"
  shows "\<exists>iop d'. doc_step op (getDocument A s) = Some (iop, d') \<and> getDocument A (do_op A op s) = d' \<and>
    idle (do_op A op s) \<and> j_undo (ps_journal (do_op A op s)) = j_undo (ps_journal s) @ [entry iop] \<and>
    j_redo (ps_journal (do_op A op s)) = []"
proof -
  obtain iop f where f: "replay_op [] op (getDocument A s) = Inr (Some (iop, f))"
    using reversible_round_trip [OF assms(3)] by (auto simp: round_trip_def)
  then have "do_op A op s = commit A iop f s"
    by (simp add: do_op_def perform_result_def perform_def)
  then show ?thesis
    using f assms(1,2,4)
    by (simp add: doc_step_def idle_def capture_def push_routed_def push_entry_def entry_def)
qed

lemma replay_one:
  assumes "change_law A" and "reversible op (getDocument A s)"
  shows "\<exists>iop f. doc_step op (getDocument A s) = Some (iop, f (getDocument A s)) \<and>
    replay A us [op] s = (commit A iop f s, None)"
proof -
  obtain iop f where "\<And>u. replay_op u op (getDocument A s) = Inr (Some (iop, f))"
    using reversible_round_trip [OF assms(2)] by (auto simp: round_trip_def)
  then show ?thesis
    by (auto simp: doc_step_def perform_result_def perform_def)
qed

text \<open>A replay of one operation moves its entry from one stack to the other.\<close>

lemma undo_one:
  assumes "change_law A" and "idle s" and "reversible op (getDocument A s)"
    and "j_undo (ps_journal s) = st @ [entry op]" and "length (j_redo (ps_journal s)) < MAX_ENTRIES"
  shows "\<exists>iop d'. doc_step op (getDocument A s) = Some (iop, d') \<and> snd (undo A us s) = Inr True \<and>
    getDocument A (fst (undo A us s)) = d' \<and> idle (fst (undo A us s)) \<and>
    j_undo (ps_journal (fst (undo A us s))) = st \<and>
    j_redo (ps_journal (fst (undo A us s))) = j_redo (ps_journal s) @ [entry iop]"
proof -
  let ?j = "(ps_journal s)\<lparr>j_undo := st\<rparr>"
  let ?s = "on_journal (openReplay ToRedo) (s\<lparr>ps_journal := ?j\<rparr>)"
  have pop: "popUndo (ps_journal s) = (Some [op], ?j)"
    by (simp add: popUndo_def assms(4) entry_def)
  have "reversible op (getDocument A ?s)" using assms(3) by simp
  from replay_one [OF assms(1) this, of us] obtain iop f
    where f: "doc_step op (getDocument A s) = Some (iop, f (getDocument A s))"
      "replay A us [op] ?s = (commit A iop f ?s, None)" by (auto simp del: replay.simps)
  have "undo A us s = (on_journal closeReplay (commit A iop f ?s), Inr True)"
    by (simp add: undo_def pop routeReplay_def f(2) del: replay.simps)
  then show ?thesis
    using f(1) assms(1,2,5)
    by (simp add: idle_def openReplay_def beginGroup_def closeReplay_def endGroup_def capture_def
        add_to_group_def push_routed_def push_entry_def entry_def)
qed

lemma redo_one:
  assumes "change_law A" and "idle s" and "reversible op (getDocument A s)"
    and "j_redo (ps_journal s) = st @ [entry op]" and "length (j_undo (ps_journal s)) < MAX_ENTRIES"
  shows "\<exists>iop d'. doc_step op (getDocument A s) = Some (iop, d') \<and> snd (redo A us s) = Inr True \<and>
    getDocument A (fst (redo A us s)) = d' \<and> idle (fst (redo A us s)) \<and>
    j_redo (ps_journal (fst (redo A us s))) = st \<and>
    j_undo (ps_journal (fst (redo A us s))) = j_undo (ps_journal s) @ [entry iop]"
proof -
  let ?j = "(ps_journal s)\<lparr>j_redo := st\<rparr>"
  let ?s = "on_journal (openReplay ToUndo) (s\<lparr>ps_journal := ?j\<rparr>)"
  have pop: "popRedo (ps_journal s) = (Some [op], ?j)"
    by (simp add: popRedo_def assms(4) entry_def)
  have "reversible op (getDocument A ?s)" using assms(3) by simp
  from replay_one [OF assms(1) this, of us] obtain iop f
    where f: "doc_step op (getDocument A s) = Some (iop, f (getDocument A s))"
      "replay A us [op] ?s = (commit A iop f ?s, None)" by (auto simp del: replay.simps)
  have "redo A us s = (on_journal closeReplay (commit A iop f ?s), Inr True)"
    by (simp add: redo_def pop routeReplay_def f(2) del: replay.simps)
  then show ?thesis
    using f(1) assms(1,2,5)
    by (simp add: idle_def openReplay_def beginGroup_def closeReplay_def endGroup_def capture_def
        add_to_group_def push_routed_def push_entry_def entry_def)
qed

lemma do_ops_run:
  assumes "change_law A" and "idle s" and "good_run doc_step reversible ops (getDocument A s)"
    and "length (j_undo (ps_journal s)) + length ops \<le> MAX_ENTRIES"
    and "run_ops doc_step ops (getDocument A s) = (iops, d')"
  shows "getDocument A (fold (do_op A) ops s) = d' \<and> idle (fold (do_op A) ops s) \<and>
    j_undo (ps_journal (fold (do_op A) ops s)) = j_undo (ps_journal s) @ map entry (rev iops) \<and>
    j_redo (ps_journal (fold (do_op A) ops s)) = (if ops = [] then j_redo (ps_journal s) else [])"
  using assms(2-)
proof (induction ops arbitrary: s iops)
  case (Cons op ops)
  obtain iop d1 where one: "doc_step op (getDocument A s) = Some (iop, d1)"
      "getDocument A (do_op A op s) = d1" "idle (do_op A op s)"
      "j_undo (ps_journal (do_op A op s)) = j_undo (ps_journal s) @ [entry iop]"
      "j_redo (ps_journal (do_op A op s)) = []"
    using do_op_reversible [OF assms(1) Cons.prems(1), of op] Cons.prems by auto
  obtain iops' where run: "run_ops doc_step ops d1 = (iops', d')" "iops = iops' @ [iop]"
    using Cons.prems(4) one(1) by (auto split: prod.splits)
  show ?case
    using Cons.IH [OF one(3), unfolded one(2), of iops'] Cons.prems one run by auto
qed simp

lemma undo_times_run:
  assumes "change_law A" and "idle s" and "good_run doc_step reversible ops (getDocument A s)"
    and "j_undo (ps_journal s) = st @ map entry (rev ops)"
    and "length (j_redo (ps_journal s)) + length ops \<le> MAX_ENTRIES"
    and "run_ops doc_step ops (getDocument A s) = (iops, d')"
  shows "getDocument A (undo_times A us (length ops) s) = d' \<and> idle (undo_times A us (length ops) s) \<and>
    j_undo (ps_journal (undo_times A us (length ops) s)) = st \<and>
    j_redo (ps_journal (undo_times A us (length ops) s)) = j_redo (ps_journal s) @ map entry (rev iops)"
  using assms(2-)
proof (induction ops arbitrary: s iops)
  case (Cons op ops)
  obtain iop d1 where one: "doc_step op (getDocument A s) = Some (iop, d1)"
      "getDocument A (fst (undo A us s)) = d1" "idle (fst (undo A us s))"
      "j_undo (ps_journal (fst (undo A us s))) = st @ map entry (rev ops)"
      "j_redo (ps_journal (fst (undo A us s))) = j_redo (ps_journal s) @ [entry iop]"
    using undo_one [OF assms(1) Cons.prems(1), of op "st @ map entry (rev ops)" us] Cons.prems by auto
  obtain iops' where run: "run_ops doc_step ops d1 = (iops', d')" "iops = iops' @ [iop]"
    using Cons.prems(5) one(1) by (auto split: prod.splits)
  show ?case
    using Cons.IH [OF one(3), unfolded one(2), of iops'] Cons.prems one run by auto
qed simp

lemma redo_times_run:
  assumes "change_law A" and "idle s" and "good_run doc_step reversible ops (getDocument A s)"
    and "j_redo (ps_journal s) = st @ map entry (rev ops)"
    and "length (j_undo (ps_journal s)) + length ops \<le> MAX_ENTRIES"
    and "run_ops doc_step ops (getDocument A s) = (iops, d')"
  shows "getDocument A (redo_times A us (length ops) s) = d' \<and> idle (redo_times A us (length ops) s) \<and>
    j_redo (ps_journal (redo_times A us (length ops) s)) = st \<and>
    j_undo (ps_journal (redo_times A us (length ops) s)) = j_undo (ps_journal s) @ map entry (rev iops)"
  using assms(2-)
proof (induction ops arbitrary: s iops)
  case (Cons op ops)
  obtain iop d1 where one: "doc_step op (getDocument A s) = Some (iop, d1)"
      "getDocument A (fst (redo A us s)) = d1" "idle (fst (redo A us s))"
      "j_redo (ps_journal (fst (redo A us s))) = st @ map entry (rev ops)"
      "j_undo (ps_journal (fst (redo A us s))) = j_undo (ps_journal s) @ [entry iop]"
    using redo_one [OF assms(1) Cons.prems(1), of op "st @ map entry (rev ops)" us] Cons.prems by auto
  obtain iops' where run: "run_ops doc_step ops d1 = (iops', d')" "iops = iops' @ [iop]"
    using Cons.prems(5) one(1) by (auto split: prod.splits)
  show ?case
    using Cons.IH [OF one(3), unfolded one(2), of iops'] Cons.prems one run by auto
qed simp

section \<open>Properties\<close>

text \<open>C1. Undo and redo are exact inverses over whole sessions: after any sequence of reversible operations
  (all 34 kinds of the journal, in any mix, at most 100 in the stack), as many undos give back the
  very document the session started from, and as many redos the very document it ended with.\<close>

theorem undo_redo_exact:
  assumes "change_law A" and "idle s" and "good_run doc_step reversible ops (getDocument A s)"
    and "undoDepth (ps_journal s) + length ops \<le> 100"
  shows "let s1 = fold (do_op A) ops s; s2 = undo_times A us (length ops) s1;
             s3 = redo_times A us' (length ops) s2
         in getDocument A s2 = getDocument A s \<and> getDocument A s3 = getDocument A s1 \<and>
            undoDepth (ps_journal s2) = undoDepth (ps_journal s)"
proof (cases "ops = []")
  case False
  let ?d = "getDocument A s" and ?n = "length ops"
  have cap: "length (j_undo (ps_journal s)) + ?n \<le> MAX_ENTRIES"
    using assms(4) by (simp add: undoDepth_def MAX_ENTRIES_def)
  obtain iops d1 where run1: "run_ops doc_step ops ?d = (iops, d1)" by fastforce
  obtain rops d2 where run2: "run_ops doc_step iops d1 = (rops, d2)" by fastforce
  obtain iops' d3 where run3: "run_ops doc_step rops d2 = (iops', d3)" by fastforce
  have u1: "d2 = ?d" "good_run doc_step reversible iops d1" "length iops = ?n"
    using edits.unwind [OF assms(3)] run1 run2 by simp_all
  have u2: "d3 = d1" "good_run doc_step reversible rops d2" "length rops = ?n"
    using edits.unwind [OF u1(2)] run2 run3 u1(3) by simp_all
  define s1 where "s1 = fold (do_op A) ops s"
  have s1: "getDocument A s1 = d1" "idle s1" "j_undo (ps_journal s1) = j_undo (ps_journal s) @ map entry (rev iops)"
      "j_redo (ps_journal s1) = []"
    using do_ops_run [OF assms(1-3) cap run1] False by (simp_all add: s1_def)
  define s2 where "s2 = undo_times A us ?n s1"
  have s2: "getDocument A s2 = ?d" "idle s2" "j_undo (ps_journal s2) = j_undo (ps_journal s)"
      "j_redo (ps_journal s2) = map entry (rev rops)"
    using undo_times_run [OF assms(1) s1(2) _ s1(3), of rops d2 us] s1(1,4) u1 run2 cap
    by (simp_all add: s2_def)
  define s3 where "s3 = redo_times A us' ?n s2"
  have "getDocument A s3 = d1"
    using redo_times_run [OF assms(1) s2(2), of rops "[]" iops' d3 us'] s2 u1 u2 run3 cap
    by (simp add: s3_def)
  then show ?thesis
    using s1(1) s2(1,3) unfolding s1_def [symmetric] Let_def s2_def [symmetric] s3_def [symmetric]
    by (simp add: undoDepth_def)
qed simp

text \<open>An instance of the library that keeps the document itself, for the examples.\<close>

definition local_automerge :: "project automerge" where
  "local_automerge =
     \<lparr>am_view = (\<lambda>d. d), am_change = (\<lambda>d f. f d), am_getLastLocalChange = (\<lambda>_. Some []),
      am_load = (\<lambda>_. None), am_save = (\<lambda>_. []), am_getHeads = (\<lambda>_. []), am_merge = (\<lambda>d _. Some d),
      am_applyChange = (\<lambda>d _. Some d), am_getMissingDeps = (\<lambda>_. []), am_getChanges = (\<lambda>_ _. []),
      am_seed = createEmptyDocument (js_int 48000)\<rparr>"

lemma local_change_law: "change_law local_automerge"
  by (simp add: change_law_def local_automerge_def)

lemma new_project_local [simp]:
  "getDocument local_automerge (new_project local_automerge) = createEmptyDocument (js_int 48000)"
  "idle (new_project local_automerge)" "ps_journal (new_project local_automerge) = empty_journal"
  by (simp_all add: getDocument_def new_project_def local_automerge_def idle_def empty_journal_def)

definition example_track :: track where
  "example_track = makeTrackDef ''Drums'' None ''1''"

definition example_session :: "inverse_op list" where
  "example_session = [AddTrack example_track, SetTrackGain (t_id example_track) (Fin (1/2)),
     AddProcessor (t_id example_track)
       \<lparr>p_id = ''dev-1'', p_type = ''gain'', p_uid = None, p_name = None, p_bypass = False, p_params = [],
        p_stateHash = None, p_stateVersion = None, p_stemHash = None, p_stemKey = None,
        p_stemLatencySamples = None\<rparr> None,
     SetProcessorParam (t_id example_track) ''dev-1'' ''drive'' (Fin 3),
     RenameTrack (t_id example_track) ''  Bass ''] "

lemma example_session_good: "good_run doc_step reversible example_session (createEmptyDocument (js_int 48000))"
  by (simp add: example_session_def example_track_def makeTrackDef_def newId_def createEmptyDocument_def
      doc_step_def mutator_defs find_track_def upd_track_def find_proc_def upd_proc_def good_name_def
      clean_name_def trim_def is_space_def js_clamp_def js_max_def js_min_def has_key_def
      js_between_def)

lemma length_example_session [simp]: "length example_session = 5"
  by (simp add: example_session_def)

theorem undo_redo_exact_witness:
  "getDocument local_automerge
     (undo_times local_automerge [] 5 (fold (do_op local_automerge) example_session (new_project local_automerge))) =
   createEmptyDocument (js_int 48000)"
  using undo_redo_exact [OF local_change_law, of "new_project local_automerge" example_session "[]" "[]"]
    example_session_good
  by (simp add: Let_def undoDepth_def empty_journal_def)

end
