(* ===== verification/Soundness.thy ===== *)
theory Soundness
  imports Reversal
begin

text \<open>
  The operations of \<open>web/src/document/project.ts\<close> keep a document sound: the conditions that
  \<open>web/src/document/validate.ts\<close> checks, with the whole numbers that the mutators write. The typing of an
  operation says what its arguments must be; it is kept by the inverse that the operation captures.
\<close>

section \<open>Sound documents\<close>

definition sound_clip :: "clip \<Rightarrow> bool" where
  "sound_clip c \<longleftrightarrow> valid_clip c \<and> whole_timing (timingOf c) \<and> c_offsetSamples c \<noteq> None"

definition sound_device :: "processor \<Rightarrow> bool" where
  "sound_device p \<longleftrightarrow> p_id p \<noteq> [] \<and> p_type p \<noteq> []"

definition sound_track :: "track \<Rightarrow> bool" where
  "sound_track t \<longleftrightarrow> js_between (js_int 0) (js_int 2) (t_gain t) \<and>
     pred_option (js_between (js_int (- 1)) (js_int 1)) (t_pan t) \<and>
     (\<forall>c\<in>set (t_clips t). sound_clip c) \<and> (\<forall>p\<in>set (t_chain t). sound_device p)"

definition sound_document :: "project \<Rightarrow> bool" where
  "sound_document d \<longleftrightarrow>
     js_between (js_int 1) (js_int 2) (d_schemaVersion d) \<and> js_lt (js_int 0) (d_sampleRate d) \<and>
     good_ids (map t_id (d_tracks d)) \<and> good_ids (all_clip_ids (d_tracks d)) \<and> (\<forall>t\<in>set (d_tracks d). sound_track t)"

lemma sound_valid: "sound_document d \<Longrightarrow> valid_document d"
  by (auto simp: sound_document_def valid_document_def sound_track_def valid_track_def sound_clip_def sound_device_def)

text \<open>What the arguments of an operation must be on a document.\<close>

fun typed_op :: "inverse_op \<Rightarrow> project \<Rightarrow> bool" where
  "typed_op (SetTrackGain t g) d = (g \<noteq> NaN)"
| "typed_op (SetTrackPan t p) d = (p \<noteq> NaN)"
| "typed_op (SetClipStart t c x) d = js_finite x"
| "typed_op (SetClipBounds t c b) d =
     (js_finite (b_startSample b) \<and> js_finite (b_lengthSamples b) \<and> js_finite (b_offsetSamples b))"
| "typed_op (SetClipTiming t c ti) d = pred_option (\<lambda>cl. sound_clip (put_timing ti cl)) (find_clip t c d)"
| "typed_op (AddClip t c) d = (sound_clip c \<and> c_id c \<noteq> [] \<and> c_id c \<notin> set (all_clip_ids (d_tracks d)))"
| "typed_op (AddTrack tr) d = (sound_track tr \<and> t_id tr \<noteq> [] \<and> t_id tr \<notin> t_id ` set (d_tracks d) \<and>
     good_ids (map c_id (t_clips tr)) \<and> set (map c_id (t_clips tr)) \<inter> set (all_clip_ids (d_tracks d)) = {})"
| "typed_op (AddProcessor t p i) d = sound_device p"
| "typed_op (RestoreScene sc i cs) d = (list_all (\<lambda>x. sound_clip (snd x)) cs \<and>
     good_ids (map (\<lambda>x. c_id (snd x)) cs @ all_clip_ids (d_tracks d)))"
| "typed_op _ d = True"

section \<open>Writes on tracks\<close>

text \<open>Soundness sees the version, the rate and the tracks.\<close>

lemma sound_cong:
  "d_schemaVersion d' = d_schemaVersion d \<Longrightarrow> d_sampleRate d' = d_sampleRate d \<Longrightarrow> d_tracks d' = d_tracks d \<Longrightarrow>
   sound_document d' = sound_document d"
  by (simp add: sound_document_def)

lemma sound_ensureV2: "sound_document d \<Longrightarrow> sound_document (ensureV2 d)"
proof (cases "js_lt (d_schemaVersion d) (js_int 2)")
  case True
  moreover have "js_between (js_int 1) (js_int 2) (js_int 2)" by (simp add: js_between_def)
  ultimately show "sound_document d \<Longrightarrow> ?thesis" by (simp add: sound_document_def ensureV2_def)
qed (simp add: ensureV2_def)

lemma good_ids_mset: "mset xs = mset ys \<Longrightarrow> good_ids xs = good_ids ys"
  using mset_eq_imp_distinct_iff [of xs ys] mset_eq_setD [of xs ys] unfolding good_ids_def by simp

lemma good_ids_subset: "mset xs \<subseteq># mset ys \<Longrightarrow> good_ids ys \<Longrightarrow> good_ids xs"
proof -
  assume "mset xs \<subseteq># mset ys" and ys: "good_ids ys"
  then obtain zs where "mset ys = mset (xs @ zs)" by (metis mset_append ex_mset subset_mset.less_eqE)
  then have "good_ids (xs @ zs)" using ys good_ids_mset by metis
  then show ?thesis by (simp add: good_ids_append)
qed

lemma clip_ids_upd:
  assumes "List.find (\<lambda>t. t_id t = i) ts = Some t"
  shows "mset (all_clip_ids (update_first (\<lambda>t. t_id t = i) f ts)) + mset (map c_id (t_clips t)) =
    mset (all_clip_ids ts) + mset (map c_id (t_clips (f t)))"
  using assms by (induction ts) (auto simp: all_clip_ids_def split: if_splits)

lemma sound_upd_track:
  assumes "sound_document d" and "find_track i d = Some t" and "t_id (f t) = t_id t" and "sound_track (f t)"
    and "good_ids (all_clip_ids (d_tracks (upd_track i f d)))"
  shows "sound_document (upd_track i f d)"
proof -
  have ids: "map t_id (update_first (\<lambda>t. t_id t = i) f ts) = map t_id ts"
    if "List.find (\<lambda>t. t_id t = i) ts = Some t" for ts
    using that assms(3) by (induction ts) (auto split: if_splits)
  have "set (update_first (\<lambda>t. t_id t = i) f ts) \<subseteq> insert (f t) (set ts)"
    if "List.find (\<lambda>t. t_id t = i) ts = Some t" for ts
    using that by (induction ts) (auto split: if_splits)
  then have "set (d_tracks (upd_track i f d)) \<subseteq> insert (f t) (set (d_tracks d))"
    using assms(2) by (simp add: upd_track_def find_track_def)
  then show ?thesis
    using assms ids unfolding sound_document_def by (auto simp: upd_track_def find_track_def)
qed

lemma found_sound: "sound_document d \<Longrightarrow> find_track i d = Some t \<Longrightarrow> sound_track t \<and> t \<in> set (d_tracks d)"
  by (auto simp: sound_document_def find_track_def dest!: find_Some_pred)

text \<open>A write that leaves the clips of the track alone.\<close>

lemma sound_track_field:
  assumes "sound_document d" and "find_track i d = Some t" and "t_id (f t) = t_id t" and "t_clips (f t) = t_clips t"
    and "sound_track (f t)"
  shows "sound_document (upd_track i f d)"
proof (rule sound_upd_track [where f = f, OF assms(1-3,5)])
  have "mset (all_clip_ids (d_tracks (upd_track i f d))) = mset (all_clip_ids (d_tracks d))"
    using clip_ids_upd [of i "d_tracks d" t f] assms(2,4) by (simp add: upd_track_def find_track_def)
  then show "good_ids (all_clip_ids (d_tracks (upd_track i f d)))"
    using assms(1) good_ids_mset unfolding sound_document_def by blast
qed

text \<open>A write on a clip that keeps it sound.\<close>

lemma sound_upd_clip:
  assumes "sound_document d" and "find_clip t i d = Some c" and "c_id (f c) = c_id c" and "sound_clip (f c)"
  shows "sound_document (upd_clip t i f d)"
proof -
  obtain tr where tr: "find_track t d = Some tr" "List.find (\<lambda>c. c_id c = i) (t_clips tr) = Some c"
    using assms(2) by (auto simp: find_clip_def split: bind_splits)
  let ?cs = "update_first (\<lambda>c. c_id c = i) f (t_clips tr)"
  have ids: "map c_id (update_first (\<lambda>c. c_id c = i) f cs) = map c_id cs" and
    "set (update_first (\<lambda>c. c_id c = i) f cs) \<subseteq> insert (f c) (set cs)"
    if "List.find (\<lambda>c. c_id c = i) cs = Some c" for cs
    using that assms(3) by (induction cs) (auto split: if_splits)
  then have "sound_track (tr\<lparr>t_clips := ?cs\<rparr>)"
    using found_sound [OF assms(1) tr(1)] assms(4) tr(2) by (auto simp: sound_track_def)
  moreover have "mset (all_clip_ids (d_tracks (upd_clip t i f d))) = mset (all_clip_ids (d_tracks d))"
    using clip_ids_upd [of t "d_tracks d" tr "\<lambda>t. t\<lparr>t_clips := update_first (\<lambda>c. c_id c = i) f (t_clips t)\<rparr>"] tr ids [OF tr(2)]
    by (simp add: upd_clip_def upd_track_def find_track_def)
  then have "good_ids (all_clip_ids (d_tracks (upd_clip t i f d)))"
    using assms(1) good_ids_mset unfolding sound_document_def by blast
  ultimately show ?thesis
    using sound_upd_track [OF assms(1) tr(1), of "\<lambda>t. t\<lparr>t_clips := update_first (\<lambda>c. c_id c = i) f (t_clips t)\<rparr>"]
    by (simp add: upd_clip_def)
qed

lemma found_clip_sound: "sound_document d \<Longrightarrow> find_clip t i d = Some c \<Longrightarrow> sound_clip c"
  by (auto simp: find_clip_def sound_track_def split: bind_splits dest!: found_sound find_Some_pred)

section \<open>Each operation\<close>

definition keeps_sound :: "inverse_op \<Rightarrow> project \<Rightarrow> bool" where
  "keeps_sound op d \<longleftrightarrow> (\<forall>u iop f. replay_op u op d = Inr (Some (iop, f)) \<longrightarrow> sound_document (f d) \<and> typed_op iop (f d))"

lemma keeps_soundI:
  "(\<And>u iop f. replay_op u op d = Inr (Some (iop, f)) \<Longrightarrow> sound_document (f d) \<and> typed_op iop (f d)) \<Longrightarrow> keeps_sound op d"
  by (auto simp: keeps_sound_def)

lemma field_kept:
  assumes "sound_document d" and "find_track i d = Some t"
  shows "sound_document (upd_track i (\<lambda>t. t\<lparr>t_order := v\<rparr>) d)" "sound_document (upd_track i (\<lambda>t. t\<lparr>t_name := n\<rparr>) d)"
    "sound_document (upd_track i (\<lambda>t. t\<lparr>t_automation := g t\<rparr>) d)"
    "js_between (js_int 0) (js_int 2) x \<Longrightarrow> sound_document (upd_track i (\<lambda>t. t\<lparr>t_gain := x\<rparr>) d)"
    "js_between (js_int (- 1)) (js_int 1) x \<Longrightarrow> sound_document (upd_track i (\<lambda>t. t\<lparr>t_pan := Some x\<rparr>) d)"
    "list_all sound_device (h t) \<Longrightarrow> sound_document (upd_track i (\<lambda>t. t\<lparr>t_chain := h t\<rparr>) d)"
  by (rule sound_track_field [OF assms]; use found_sound [OF assms] in \<open>simp add: sound_track_def list_all_iff\<close>)+

lemma clamp_gain: "g \<noteq> NaN \<Longrightarrow> js_between (js_int 0) (js_int 2) (js_clamp (js_int 0) (js_int 2) g)"
  by (rule clamp_range) simp_all

lemma clamp_pan: "p \<noteq> NaN \<Longrightarrow> js_between (js_int (- 1)) (js_int 1) (js_clamp (js_int (- 1)) (js_int 1) p)"
  by (rule clamp_range) simp_all

lemma keeps_tracks:
  assumes "sound_document d"
  shows "typed_op (SetTrackGain t g) d \<Longrightarrow> keeps_sound (SetTrackGain t g) d"
    "typed_op (SetTrackPan t p) d \<Longrightarrow> keeps_sound (SetTrackPan t p) d"
    "keeps_sound (SetTrackOrder t n) d" "keeps_sound (ClearTrackOrder t) d" "keeps_sound (RenameTrack t m) d"
    "keeps_sound (SetMasterGain v) d" "keeps_sound (SetTempo v) d"
proof -
  show "keeps_sound (SetTrackGain t g) d" if "typed_op (SetTrackGain t g) d"
    using that field_kept(4) [OF assms, of t _ "js_clamp (js_int 0) (js_int 2) g"] clamp_gain [of g] found_sound [OF assms, of t]
    by (intro keeps_soundI) (auto simp: setTrackGain_def sound_track_def split: option.splits)
  show "keeps_sound (SetTrackPan t p) d" if "typed_op (SetTrackPan t p) d"
    using that field_kept(5) [OF assms, of t _ "js_clamp (js_int (- 1)) (js_int 1) p"] clamp_pan [of p] found_sound [OF assms, of t]
    by (intro keeps_soundI) (auto simp: setTrackPan_def sound_track_def or_else_def split: option.splits)
  show "keeps_sound (SetTrackOrder t n) d"
    by (intro keeps_soundI) (auto simp: setTrackOrder_def field_kept(1) [OF assms] split: option.splits if_splits)
  show "keeps_sound (ClearTrackOrder t) d"
    by (intro keeps_soundI) (auto simp: clearTrackOrder_def field_kept(1) [OF assms] split: option.splits)
  show "keeps_sound (RenameTrack t m) d"
    by (intro keeps_soundI) (auto simp: renameTrack_def field_kept(2) [OF assms] Let_def split: option.splits if_splits)
  show "keeps_sound (SetMasterGain v) d"
    by (intro keeps_soundI) (use assms in \<open>auto simp: setMasterGain_def intro: sound_cong [THEN iffD2, of _ d]\<close>)
  show "keeps_sound (SetTempo v) d"
    by (intro keeps_soundI) (use sound_ensureV2 [OF assms] in
      \<open>auto simp: setTempoMilliBpm_def Let_def intro: sound_cong [THEN iffD2, of _ "ensureV2 d"] split: if_splits\<close>)
qed

lemma list_all_sound_chain: "sound_document d \<Longrightarrow> find_track t d = Some tr \<Longrightarrow> list_all sound_device (t_chain tr)"
  using found_sound [of d t tr] by (auto simp: sound_track_def list_all_iff)

lemma list_all_update_first:
  "list_all P xs \<Longrightarrow> (\<And>x. P x \<Longrightarrow> P (f x)) \<Longrightarrow> list_all P (update_first Q f xs)"
  by (induction xs) auto

lemma list_all_splices:
  "list_all P xs \<Longrightarrow> list_all P (splice_out i xs)" "list_all P xs \<Longrightarrow> P x \<Longrightarrow> list_all P (splice_in i x xs)"
  "list_all P xs \<Longrightarrow> list_all P (remove_first Q xs)"
  by (auto simp: splice_out_def splice_in_def remove_first_def list_all_iff dest: in_set_takeD in_set_dropD split: option.splits)

lemma keeps_devices:
  assumes "sound_document d"
  shows "keeps_sound (SetProcessorBypass t p b) d" "keeps_sound (SetProcessorParam t p k v) d"
    "keeps_sound (RemoveProcessorParam t p k) d"
    "typed_op (AddProcessor t q i) d \<Longrightarrow> keeps_sound (AddProcessor t q i) d"
    "keeps_sound (RemoveProcessor t p) d" "keeps_sound (MoveProcessor t p x) d"
proof -
  have proc: "sound_document (upd_proc t p f d)" if "find_proc t p d = Some q" "\<And>x. sound_device x \<Longrightarrow> sound_device (f x)" for f q
  proof -
    from that(1) obtain tr where tr: "find_track t d = Some tr" by (auto simp: find_proc_def split: bind_splits)
    show ?thesis
      unfolding upd_proc_def
      by (rule field_kept(6) [OF assms tr]) (rule list_all_update_first [OF list_all_sound_chain [OF assms tr] that(2)])
  qed
  show "keeps_sound (SetProcessorBypass t p b) d"
    by (intro keeps_soundI) (auto simp: setProcessorBypass_def sound_device_def intro!: proc split: option.splits)
  show "keeps_sound (SetProcessorParam t p k v) d"
    by (intro keeps_soundI) (auto simp: setProcessorParam_def sound_device_def intro!: proc split: option.splits)
  show "keeps_sound (RemoveProcessorParam t p k) d"
    by (intro keeps_soundI) (auto simp: removeProcessorParam_def sound_device_def intro!: proc split: option.splits)
  show "keeps_sound (AddProcessor t q i) d" if "typed_op (AddProcessor t q i) d"
  proof (intro keeps_soundI)
    fix u iop f assume st: "replay_op u (AddProcessor t q i) d = Inr (Some (iop, f))"
    then obtain tr where tr: "find_track t d = Some tr" by (auto simp: addProcessor_def split: option.splits)
    have "list_all sound_device (case i of Some i \<Rightarrow> splice_in (index_or_end i (t_chain tr)) q (t_chain tr) | None \<Rightarrow> t_chain tr @ [q])"
      using list_all_sound_chain [OF assms tr] that by (auto simp: list_all_splices split: option.splits)
    from field_kept(6) [OF assms tr, of "\<lambda>tr. case i of Some i \<Rightarrow> splice_in (index_or_end i (t_chain tr)) q (t_chain tr) | None \<Rightarrow> t_chain tr @ [q]", OF this]
    show "sound_document (f d) \<and> typed_op iop (f d)" using st tr by (auto simp: addProcessor_def split: if_splits)
  qed
  show "keeps_sound (RemoveProcessor t p) d"
  proof (intro keeps_soundI)
    fix u iop f assume st: "replay_op u (RemoveProcessor t p) d = Inr (Some (iop, f))"
    then obtain tr ix where tr: "find_track t d = Some tr" "find_index (\<lambda>q. p_id q = p) (t_chain tr) = Some ix"
      by (auto simp: removeProcessor_def split: option.splits)
    have "sound_device (t_chain tr ! ix)"
      using list_all_sound_chain [OF assms tr(1)] find_index_SomeD [OF tr(2)] by (auto simp: list_all_iff)
    then show "sound_document (f d) \<and> typed_op iop (f d)"
      using st tr field_kept(6) [OF assms tr(1), of "\<lambda>tr. remove_first (\<lambda>q. p_id q = p) (t_chain tr)"]
        list_all_sound_chain [OF assms tr(1)]
      by (auto simp: removeProcessor_def list_all_splices)
  qed
  show "keeps_sound (MoveProcessor t p x) d"
  proof (intro keeps_soundI)
    fix u iop f assume st: "replay_op u (MoveProcessor t p x) d = Inr (Some (iop, f))"
    then obtain tr ix to_ix where tr: "find_track t d = Some tr" "find_index (\<lambda>q. p_id q = p) (t_chain tr) = Some ix"
        "f = upd_track t (move_device p (t_chain tr ! ix) to_ix)" "typed_op iop (f d)"
      by (auto simp: moveProcessor_def Let_def split: option.splits if_splits)
    have "sound_device (t_chain tr ! ix)"
      using list_all_sound_chain [OF assms tr(1)] find_index_SomeD [OF tr(2)] by (auto simp: list_all_iff)
    then have "list_all sound_device (t_chain (move_device p (t_chain tr ! ix) to_ix tr))"
      using list_all_sound_chain [OF assms tr(1)]
      by (auto simp: move_device_def Let_def list_all_splices split: option.splits)
    then have "sound_track (move_device p (t_chain tr ! ix) to_ix tr)"
      using found_sound [OF assms tr(1)]
      by (auto simp: sound_track_def list_all_iff move_device_def Let_def split: option.splits)
    then have "sound_document (upd_track t (move_device p (t_chain tr ! ix) to_ix) d)"
      by (intro sound_track_field [OF assms tr(1)]) (auto simp: move_device_def Let_def split: option.splits)
    then show "sound_document (f d) \<and> typed_op iop (f d)" using tr by simp
  qed
qed

lemma rounded:
  assumes "js_finite x"
  shows "js_int_from 0 (js_round_from (Fin 0) x)" "js_le (Fin 0) (js_round_from (Fin 0) x)"
    "js_round_from (Fin 0) (js_round_from (Fin 0) x) = js_round_from (Fin 0) x"
    "js_int_from 0 (js_round_from (Fin 1024) x)" "js_lt (Fin 0) (js_round_from (Fin 1024) x)"
    "js_round_from (Fin 0) (js_round_from (Fin 1024) x) = js_round_from (Fin 1024) x"
proof -
  obtain k where "js_round x = js_int k" using assms by (cases x) auto
  then have r: "js_round_from (js_int lo) x = js_int (max lo k)" for lo
    by (simp add: js_round_from_def js_arith max_def)
  have again: "js_round_from (js_int 0) (js_int (max lo k)) = js_int (max 0 (max lo k))" for lo
    by (rule js_round_from_js_int)
  show "js_int_from 0 (js_round_from (Fin 0) x)" "js_le (Fin 0) (js_round_from (Fin 0) x)"
    "js_round_from (Fin 0) (js_round_from (Fin 0) x) = js_round_from (Fin 0) x"
    using r [of 0] again [of 0] by (simp_all add: js_int_from_def)
  show "js_int_from 0 (js_round_from (Fin 1024) x)" "js_lt (Fin 0) (js_round_from (Fin 1024) x)"
    "js_round_from (Fin 0) (js_round_from (Fin 1024) x) = js_round_from (Fin 1024) x"
    using r [of 1024] again [of 1024] by (simp_all add: js_int_from_def)
qed

lemma sound_clip_put_self: "sound_clip c \<Longrightarrow> put_timing (timingOf c) c = c"
  by (simp add: sound_clip_def put_timing_def timingOf_def whole_timing_def whole_round)

lemma sound_start:
  assumes "sound_clip c" and "\<not> isMusicalClip c" and "js_finite x"
  shows "sound_clip (c\<lparr>c_startSample := Some (js_round_from (js_int 0) x)\<rparr>)"
  using assms rounded [OF assms(3)]
  by (auto simp: sound_clip_def valid_clip_def isMusicalClip_def whole_timing_def timingOf_def whole_def)

lemma sound_bounds:
  assumes "sound_clip c" and "\<not> isMusicalClip c" and "js_finite x" and "js_finite l" and "js_finite off"
  shows "sound_clip (c\<lparr>c_startSample := Some (js_round_from (js_int 0) x), c_lengthSamples := Some (js_round_from (js_int 1024) l),
    c_offsetSamples := Some (js_round_from (js_int 0) off)\<rparr>)"
  using assms(1,2) rounded [OF assms(3)] rounded [OF assms(4)] rounded [OF assms(5)]
  by (simp add: sound_clip_def valid_clip_def isMusicalClip_def whole_timing_def timingOf_def whole_def)

lemma clampTick_whole: "\<exists>k. clampTick n = js_int k \<and> 0 \<le> k"
  using clamp_hostile_values [of n] by (auto elim: js_int_fromE)

lemma targetTick_whole: "targetTick d x = Inr v \<Longrightarrow> \<exists>k. v = js_int k \<and> 0 \<le> k"
  using clampTick_whole by (auto simp: targetTick_def js_bind_def split: sum.splits)

text \<open>A musical clip with a new start, and a new length or offset.\<close>

lemma sound_musical:
  assumes "sound_clip c" and "isMusicalClip c" and "0 \<le> k"
  shows "sound_clip (put_timing ((timingOf c)\<lparr>ti_startTick := Some (js_int k)\<rparr>) c)"
    and "js_finite off \<Longrightarrow> sound_clip (put_timing ((timingOf c)\<lparr>ti_lengthTick := Some (js_int (max 1 n)),
      ti_startTick := Some (js_int k), ti_offsetSamples := Some (js_round_from (js_int 0) off)\<rparr>) c)"
    and "js_finite off \<Longrightarrow> js_finite l \<Longrightarrow> sound_clip (put_timing ((timingOf c)\<lparr>ti_lengthSamples := Some (js_round_from (js_int 1024) l),
      ti_startTick := Some (js_int k), ti_offsetSamples := Some (js_round_from (js_int 0) off)\<rparr>) c)"
proof -
  have r0: "js_round_from (js_int 0) (js_int j) = js_int j" if "0 \<le> j" for j
    using that by (simp add: js_round_from_js_int max_def)
  have m: "c_startTick c \<noteq> None" using assms(2) by (simp add: isMusicalClip_def)
  have w: "whole (c_startSample c)" "whole (c_lengthSamples c)" "whole (c_offsetSamples c)" "whole (c_lengthTick c)"
    using assms(1) by (simp_all add: sound_clip_def whole_timing_def timingOf_def)
  note rw = w [THEN whole_round]
  show "sound_clip (put_timing ((timingOf c)\<lparr>ti_startTick := Some (js_int k)\<rparr>) c)"
    using assms(1,3) m w by (auto simp: sound_clip_def valid_clip_def put_timing_def timingOf_def whole_timing_def rw r0 whole_def)
  show "sound_clip (put_timing ((timingOf c)\<lparr>ti_lengthTick := Some (js_int (max 1 n)),
      ti_startTick := Some (js_int k), ti_offsetSamples := Some (js_round_from (js_int 0) off)\<rparr>) c)" if "js_finite off"
    using assms(1,3) m w rounded [OF that] r0 [of "max 1 n"]
    by (auto simp: sound_clip_def valid_clip_def put_timing_def timingOf_def whole_timing_def rw r0 whole_def simp del: of_int_max)
  show "sound_clip (put_timing ((timingOf c)\<lparr>ti_lengthSamples := Some (js_round_from (js_int 1024) l),
      ti_startTick := Some (js_int k), ti_offsetSamples := Some (js_round_from (js_int 0) off)\<rparr>) c)" if "js_finite off" "js_finite l"
    using assms(1,3) m w rounded [OF that(1)] rounded [OF that(2)]
    by (auto simp: sound_clip_def valid_clip_def put_timing_def timingOf_def whole_timing_def rw r0 whole_def)
qed

lemma timing_typed: "sound_document d \<Longrightarrow> find_clip t c d = Some cl \<Longrightarrow> (\<And>x. c_id (f x) = c_id x) \<Longrightarrow>
  timingOf cl = ti \<Longrightarrow> (\<And>x. put_timing ti (f x) = put_timing ti x) \<Longrightarrow> typed_op (SetClipTiming t c ti) (upd_clip t c f d)"
  using found_clip_sound [of d t c cl] sound_clip_put_self [of cl] by (auto simp: clip.get_upd)

lemma put_timing_twice [simp]: "put_timing ti (put_timing ti' c) = put_timing ti c"
  by (simp add: put_timing_def)

lemma find_clip_ensureV2 [simp]: "find_clip t c (ensureV2 d) = find_clip t c d"
  by (simp add: ensureV2_def find_clip_def find_track_def)

lemma keeps_timing:
  assumes "sound_document d" and "typed_op (SetClipTiming t c ti) d"
    and "setClipTiming t c ti d = Some (iop, f)"
  shows "sound_document (f d) \<and> typed_op iop (f d)"
proof -
  obtain cl where cl: "find_clip t c d = Some cl" using assms(3) by (auto simp: setClipTiming_def split: option.splits)
  let ?e = "if no_ticks ti then d else ensureV2 d"
  have f: "iop = SetClipTiming t c (timingOf cl)" "f d = upd_clip t c (put_timing ti) ?e"
    using assms(3) cl by (auto simp: setClipTiming_alt [OF cl])
  have e: "sound_document ?e" "find_clip t c ?e = Some cl" using assms(1) sound_ensureV2 cl by simp_all
  have "sound_document (f d)"
    unfolding f by (rule sound_upd_clip [OF e]) (use assms(2) cl in simp_all)
  moreover have "typed_op iop (f d)"
    unfolding f by (rule timing_typed [OF e]) simp_all
  ultimately show ?thesis by simp
qed

lemma keeps_clip_times:
  assumes "sound_document d"
  shows "typed_op (SetClipTiming t c ti) d \<Longrightarrow> keeps_sound (SetClipTiming t c ti) d"
    "typed_op (SetClipStart t c x) d \<Longrightarrow> keeps_sound (SetClipStart t c x) d"
    "typed_op (SetClipBounds t c b) d \<Longrightarrow> keeps_sound (SetClipBounds t c b) d"
proof -
  show "keeps_sound (SetClipTiming t c ti) d" if "typed_op (SetClipTiming t c ti) d"
    using keeps_timing [OF assms that] by (intro keeps_soundI) auto
  show "keeps_sound (SetClipStart t c x) d" if fin: "typed_op (SetClipStart t c x) d"
  proof (intro keeps_soundI)
    fix u iop f assume "replay_op u (SetClipStart t c x) d = Inr (Some (iop, f))"
    then have st: "setClipStart t c x d = Inr (Some (iop, f))" by simp
    then obtain cl where cl: "find_clip t c d = Some cl" by (auto simp: setClipStart_def split: option.splits)
    note sc = found_clip_sound [OF assms cl]
    show "sound_document (f d) \<and> typed_op iop (f d)"
    proof (cases "isMusicalClip cl")
      case True
      then obtain v where v: "targetTick d x = Inr v" "setClipTiming t c ((timingOf cl)\<lparr>ti_startTick := Some v\<rparr>) d = Some (iop, f)"
        using st cl by (cases "targetTick d x") (auto simp: setClipStart_def)
      then obtain k where "v = js_int k" "0 \<le> k" using targetTick_whole by blast
      then have "typed_op (SetClipTiming t c ((timingOf cl)\<lparr>ti_startTick := Some v\<rparr>)) d"
        using sound_musical(1) [OF sc True] cl by simp
      from keeps_timing [OF assms this v(2)] show ?thesis .
    next
      case False
      then have f: "iop = SetClipStart t c (or_else (c_startSample cl) (js_int 0))"
          "f = upd_clip t c (\<lambda>c. c\<lparr>c_startSample := Some (js_round_from (js_int 0) x)\<rparr>)"
        using st cl by (auto simp: setClipStart_def)
      have "js_finite (or_else (c_startSample cl) (js_int 0))"
        using sc by (cases "c_startSample cl") (auto simp: sound_clip_def whole_timing_def timingOf_def whole_def js_int_from_finite)
      then show ?thesis
        unfolding f using sound_upd_clip [OF assms cl, of "\<lambda>c. c\<lparr>c_startSample := Some (js_round_from (js_int 0) x)\<rparr>"]
          sound_start [OF sc False] fin by simp
    qed
  qed
  show "keeps_sound (SetClipBounds t c b) d" if fin: "typed_op (SetClipBounds t c b) d"
  proof (intro keeps_soundI)
    fix u iop f assume "replay_op u (SetClipBounds t c b) d = Inr (Some (iop, f))"
    then have st: "setClipBounds t c b d = Inr (Some (iop, f))" by simp
    then obtain cl where cl: "find_clip t c d = Some cl" by (auto simp: setClipBounds_def split: option.splits)
    note sc = found_clip_sound [OF assms cl]
    show "sound_document (f d) \<and> typed_op iop (f d)"
    proof (cases "isMusicalClip cl")
      case True
      then obtain v where v: "targetTick d (b_startSample b) = Inr v"
        using st cl by (cases "targetTick d (b_startSample b)") (auto simp: setClipBounds_def)
      then obtain k where k: "v = js_int k" "0 \<le> k" using targetTick_whole by blast
      show ?thesis
      proof (cases "c_lengthTick cl")
        case None
        then have m: "setClipTiming t c ((timingOf cl)\<lparr>ti_lengthSamples := Some (js_round_from (js_int 1024) (b_lengthSamples b)),
            ti_startTick := Some v, ti_offsetSamples := Some (js_round_from (js_int 0) (b_offsetSamples b))\<rparr>) d = Some (iop, f)"
          using st cl v True by (simp add: setClipBounds_def)
        have "typed_op (SetClipTiming t c ((timingOf cl)\<lparr>ti_lengthSamples := Some (js_round_from (js_int 1024) (b_lengthSamples b)),
            ti_startTick := Some v, ti_offsetSamples := Some (js_round_from (js_int 0) (b_offsetSamples b))\<rparr>)) d"
          using sound_musical(3) [OF sc True k(2)] fin cl k by simp
        from keeps_timing [OF assms this m] show ?thesis .
      next
        case (Some l)
        then obtain w where w: "targetTick d (js_add (b_startSample b) (b_lengthSamples b)) = Inr w"
          using st cl v True by (cases "targetTick d (js_add (b_startSample b) (b_lengthSamples b))") (auto simp: setClipBounds_def)
        then obtain n where n: "w = js_int n" using targetTick_whole by blast
        have mx: "js_max (js_int 1) (js_sub w v) = js_int (max 1 (n - k))"
          unfolding n k(1) js_sub_js_int by (simp add: js_max_def max_def)
        have m: "setClipTiming t c ((timingOf cl)\<lparr>ti_lengthTick := Some (js_int (max 1 (n - k))),
            ti_startTick := Some v, ti_offsetSamples := Some (js_round_from (js_int 0) (b_offsetSamples b))\<rparr>) d = Some (iop, f)"
          using st cl v True Some w unfolding mx [symmetric] by (simp add: setClipBounds_def)
        have "typed_op (SetClipTiming t c ((timingOf cl)\<lparr>ti_lengthTick := Some (js_int (max 1 (n - k))),
            ti_startTick := Some v, ti_offsetSamples := Some (js_round_from (js_int 0) (b_offsetSamples b))\<rparr>)) d"
          using sound_musical(2) [OF sc True k(2), of "b_offsetSamples b" "n - k"] fin cl unfolding k(1) by simp
        from keeps_timing [OF assms this m] show ?thesis .
      qed
    next
      case False
      then have f: "iop = SetClipBounds t c \<lparr>b_startSample = or_else (c_startSample cl) (js_int 0),
            b_lengthSamples = or_else (c_lengthSamples cl) (js_int 0), b_offsetSamples = or_else (c_offsetSamples cl) NaN\<rparr>"
          "f = upd_clip t c (\<lambda>c. c\<lparr>c_startSample := Some (js_round_from (js_int 0) (b_startSample b)),
            c_lengthSamples := Some (js_round_from (js_int 1024) (b_lengthSamples b)),
            c_offsetSamples := Some (js_round_from (js_int 0) (b_offsetSamples b))\<rparr>)"
        using st cl by (auto simp: setClipBounds_def)
      have "typed_op iop (f d)"
        unfolding f(1) using sc
        by (cases "c_startSample cl"; cases "c_lengthSamples cl"; cases "c_offsetSamples cl")
          (auto simp: sound_clip_def whole_timing_def timingOf_def whole_def js_int_from_finite)
      then show ?thesis
        unfolding f(2) using sound_upd_clip [OF assms cl, of "\<lambda>c. c\<lparr>c_startSample := Some (js_round_from (js_int 0) (b_startSample b)),
            c_lengthSamples := Some (js_round_from (js_int 1024) (b_lengthSamples b)),
            c_offsetSamples := Some (js_round_from (js_int 0) (b_offsetSamples b))\<rparr>"]
          sound_bounds [OF sc False] fin by simp
    qed
  qed
qed

text \<open>Fields that soundness does not read.\<close>

lemma sound_clip_fields [simp]:
  "sound_clip (c\<lparr>c_name := n\<rparr>) = sound_clip c" "sound_clip (c\<lparr>c_sceneId := s\<rparr>) = sound_clip c"
  "sound_clip (c\<lparr>c_notes := ns\<rparr>) = sound_clip c"
  "sound_clip (c\<lparr>c_fadeInSamples := i, c_fadeOutSamples := out\<rparr>) = sound_clip c"
  by (simp_all add: sound_clip_def valid_clip_def timingOf_def cong: option.case_cong)

lemma keeps_clip_fields:
  assumes "sound_document d"
  shows "keeps_sound (RenameClip t c n) d" "keeps_sound (SetClipScene t c s) d" "keeps_sound (SetClipFades t c fi fo) d"
    "keeps_sound (ToggleNote t c m) d" "keeps_sound (UpdateNote t c i p) d"
proof -
  have w: "sound_document (upd_clip t c f e)" if "find_clip t c e = Some cl" "c_id (f cl) = c_id cl"
      "sound_clip cl \<Longrightarrow> sound_clip (f cl)" "sound_document e" for f e cl
    using sound_upd_clip [OF that(4,1), of f] found_clip_sound [OF that(4,1)] that(2,3) by simp
  show "keeps_sound (RenameClip t c n) d"
    by (intro keeps_soundI) (auto simp: renameClip_def Let_def assms intro!: w split: option.splits if_splits)
  show "keeps_sound (SetClipScene t c s) d"
    by (intro keeps_soundI) (auto simp: setClipScene_def Let_def assms intro!: w split: option.splits if_splits)
  show "keeps_sound (SetClipFades t c fi fo) d"
    by (intro keeps_soundI) (auto simp: setClipFades_def Let_def assms intro!: w split: option.splits)
  show "keeps_sound (UpdateNote t c i p) d"
    by (intro keeps_soundI) (auto simp: updateNote_def upd_note_def find_note_def assms intro!: w split: option.splits bind_splits)
  show "keeps_sound (ToggleNote t c m) d"
    by (intro keeps_soundI)
      (auto simp: toggleNote_def toggle_draft_def Let_def assms sound_ensureV2 intro!: w split: option.splits)
qed

lemma sound_same_tracks:
  "sound_document d \<Longrightarrow> sound_document (d\<lparr>d_scenes := s\<rparr>)" "sound_document d \<Longrightarrow> sound_document (d\<lparr>d_automation := a\<rparr>)"
  by (simp_all add: sound_document_def)

lemma sound_lanes:
  assumes "sound_document d"
  shows "sound_document (upd_lanes t f d)" "track_present t d \<Longrightarrow> sound_document (ensureLanes t f d)"
proof -
  have "upd_track i g d = d" if "find_track i d = None" for i g using that by (rule track.upd_none)
  then have "sound_document (upd_track i (\<lambda>t. t\<lparr>t_automation := g t\<rparr>) d)" for i g
    using field_kept(3) [OF assms, of i _ g] assms by (cases "find_track i d") auto
  then show "sound_document (upd_lanes t f d)" "track_present t d \<Longrightarrow> sound_document (ensureLanes t f d)"
    using assms by (auto simp: upd_lanes_def ensureLanes_def sound_same_tracks split: option.splits)
qed

lemma keeps_lanes:
  assumes "sound_document d"
  shows "keeps_sound (DeleteAutomationLane t l) d" "keeps_sound (RestoreAutomationLane t la i) d"
    "keeps_sound (SetAutomationLaneEnabled t l b) d" "keeps_sound (AddAutomationPoint t l x v) d"
    "keeps_sound (MoveAutomationPoint t l i x v) d" "keeps_sound (DeleteAutomationPoint t l i) d"
  by (intro keeps_soundI; auto simp: lane_mutators upd_lane_def Let_def intro!: sound_lanes [OF assms]
      split: option.splits if_splits)+

text \<open>Clips added to a track and taken out of it.\<close>

lemma clip_ids_added:
  assumes "find_track t d = Some tr"
  shows "mset (all_clip_ids (d_tracks (upd_track t (\<lambda>t. t\<lparr>t_clips := t_clips t @ [c]\<rparr>) d))) =
    mset (c_id c # all_clip_ids (d_tracks d))"
  using clip_ids_upd [of t "d_tracks d" tr "\<lambda>t. t\<lparr>t_clips := t_clips t @ [c]\<rparr>"] assms
  by (simp add: upd_track_def find_track_def)

lemma sound_add_clip:
  assumes "sound_document d" and "sound_clip c" and "c_id c \<noteq> []" and "c_id c \<notin> set (all_clip_ids (d_tracks d))"
  shows "sound_document (upd_track t (\<lambda>t. t\<lparr>t_clips := t_clips t @ [c]\<rparr>) d)"
proof (cases "find_track t d")
  case None
  then show ?thesis using assms(1) by (simp add: track.upd_none)
next
  case (Some tr)
  have "good_ids (c_id c # all_clip_ids (d_tracks d))"
    using assms by (simp add: sound_document_def good_ids_Cons)
  then have "good_ids (all_clip_ids (d_tracks (upd_track t (\<lambda>t. t\<lparr>t_clips := t_clips t @ [c]\<rparr>) d)))"
    using good_ids_mset [OF clip_ids_added [OF Some, of c]] by simp
  then show ?thesis
    by (intro sound_upd_track [OF assms(1) Some]) (use found_sound [OF assms(1) Some] assms(2) in \<open>auto simp: sound_track_def\<close>)
qed

lemma remove_first_mset:
  "List.find P xs = Some x \<Longrightarrow> mset xs = add_mset x (mset (remove_first P xs))"
proof (induction xs)
  case (Cons y ys)
  have step: "remove_first P (y # ys) = (if P y then ys else y # remove_first P ys)"
    by (auto simp: remove_first_def splice_out_def split: option.splits)
  show ?case using Cons unfolding step by (auto split: if_splits)
qed simp

lemma in_remove_first: "x \<in> set (remove_first P xs) \<Longrightarrow> x \<in> set xs"
  by (auto simp: remove_first_def splice_out_def dest: in_set_takeD in_set_dropD split: option.splits)

lemma keeps_clip_lists:
  assumes "sound_document d"
  shows "typed_op (AddClip t cl) d \<Longrightarrow> keeps_sound (AddClip t cl) d" "keeps_sound (DeleteClip t c) d"
proof -
  show "keeps_sound (AddClip t cl) d" if "typed_op (AddClip t cl) d"
  proof -
    have "d_tracks (ensureV2 d) = d_tracks d" by (simp add: ensureV2_def)
    then show ?thesis
      using that sound_add_clip [OF assms, of cl t] sound_add_clip [OF sound_ensureV2 [OF assms], of cl t]
      by (intro keeps_soundI) (auto simp: addClip_def split: option.splits)
  qed
  show "keeps_sound (DeleteClip t c) d"
  proof (intro keeps_soundI)
    fix u iop f assume "replay_op u (DeleteClip t c) d = Inr (Some (iop, f))"
    then obtain cl where cl: "find_clip t c d = Some cl" "iop = AddClip t cl"
        "f = upd_track t (\<lambda>t. t\<lparr>t_clips := remove_first (\<lambda>x. c_id x = c) (t_clips t)\<rparr>)"
      by (auto simp: deleteClip_def split: option.splits)
    obtain tr where tr: "find_track t d = Some tr" "List.find (\<lambda>x. c_id x = c) (t_clips tr) = Some cl"
      using cl(1) by (auto simp: find_clip_def split: bind_splits)
    have "mset (map c_id (t_clips tr)) = add_mset (c_id cl) (mset (map c_id (remove_first (\<lambda>x. c_id x = c) (t_clips tr))))"
      using remove_first_mset [OF tr(2)] by simp
    then have ids: "mset (all_clip_ids (d_tracks d)) = mset (c_id cl # all_clip_ids (d_tracks (f d)))"
      using clip_ids_upd [of t "d_tracks d" tr "\<lambda>t. t\<lparr>t_clips := remove_first (\<lambda>x. c_id x = c) (t_clips t)\<rparr>"] tr(1)
      by (simp add: cl(3) upd_track_def find_track_def)
    then have good: "good_ids (c_id cl # all_clip_ids (d_tracks (f d)))"
      using assms good_ids_mset unfolding sound_document_def by blast
    have "sound_document (f d)"
      unfolding cl(3)
      by (rule sound_upd_track [OF assms tr(1)])
        (use found_sound [OF assms tr(1)] good in \<open>auto simp: sound_track_def good_ids_Cons cl(3) dest: in_remove_first\<close>)
    then show "sound_document (f d) \<and> typed_op iop (f d)"
      using good found_clip_sound [OF assms cl(1)] by (simp add: cl(2) good_ids_Cons)
  qed
qed

lemma all_clip_ids_append [simp]:
  "all_clip_ids (xs @ ys) = all_clip_ids xs @ all_clip_ids ys" "all_clip_ids [t] = map c_id (t_clips t)" "all_clip_ids [] = []"
  by (simp_all add: all_clip_ids_def)

lemma clip_ids_removed:
  "List.find P ts = Some t \<Longrightarrow> mset (all_clip_ids ts) = mset (map c_id (t_clips t)) + mset (all_clip_ids (remove_first P ts))"
proof (induction ts)
  case (Cons y ys)
  have step: "remove_first P (y # ys) = (if P y then ys else y # remove_first P ys)"
    by (auto simp: remove_first_def splice_out_def split: option.splits)
  show ?case using Cons unfolding step by (auto simp: all_clip_ids_def split: if_splits)
qed simp

lemma keeps_track_lists:
  assumes "sound_document d"
  shows "typed_op (AddTrack tr) d \<Longrightarrow> keeps_sound (AddTrack tr) d" "keeps_sound (DeleteTrack t) d"
proof -
  show "keeps_sound (AddTrack tr) d" if "typed_op (AddTrack tr) d"
    using that assms
    by (intro keeps_soundI) (auto simp: addTrack_def sound_document_def good_ids_append good_ids_Cons, simp_all add: good_ids_def)
  show "keeps_sound (DeleteTrack t) d"
  proof (intro keeps_soundI)
    fix u iop f assume "replay_op u (DeleteTrack t) d = Inr (Some (iop, f))"
    then obtain tr where tr: "find_track t d = Some tr" "iop = AddTrack tr"
        "f d = d\<lparr>d_tracks := remove_first (\<lambda>x. t_id x = t) (d_tracks d)\<rparr>"
      by (auto simp: deleteTrack_def split: option.splits)
    let ?rest = "remove_first (\<lambda>x. t_id x = t) (d_tracks d)"
    have found: "List.find (\<lambda>x. t_id x = t) (d_tracks d) = Some tr" using tr(1) by (simp add: find_track_def)
    have "good_ids (t_id tr # map t_id ?rest)"
      using assms good_ids_mset [of "t_id tr # map t_id ?rest" "map t_id (d_tracks d)"]
        arg_cong [OF remove_first_mset [OF found], of "image_mset t_id"]
      by (simp add: sound_document_def)
    moreover have "good_ids (map c_id (t_clips tr) @ all_clip_ids ?rest)"
      using assms good_ids_mset [of "map c_id (t_clips tr) @ all_clip_ids ?rest" "all_clip_ids (d_tracks d)"] clip_ids_removed [OF found]
      by (simp add: sound_document_def)
    ultimately show "sound_document (f d) \<and> typed_op iop (f d)"
      using assms found_sound [OF assms tr(1)]
      by (auto simp: tr(2,3) sound_document_def good_ids_Cons good_ids_append dest: in_remove_first)
  qed
qed

text \<open>The slots of a scene.\<close>

lemma sound_restore_slot:
  assumes "sound_document d" and "sound_clip (snd x)" and "good_ids (c_id (snd x) # all_clip_ids (d_tracks d))"
  shows "sound_document (restore_slot x d) \<and>
    mset (all_clip_ids (d_tracks (restore_slot x d))) \<subseteq># add_mset (c_id (snd x)) (mset (all_clip_ids (d_tracks d)))"
proof (cases "find_track (fst x) d")
  case None
  then show ?thesis using assms(1) by (simp add: restore_slot_def track.upd_none)
next
  case (Some tr)
  show ?thesis
  proof (cases "\<exists>c\<in>set (t_clips tr). c_id c = c_id (snd x)")
    case True
    then have "restore_slot x d = d" unfolding restore_slot_def by (intro track.upd_same [OF Some]) simp
    then show ?thesis using assms(1) by simp
  next
    case False
    have "restore_slot x d = upd_track (fst x) (\<lambda>t. t\<lparr>t_clips := t_clips t @ [snd x]\<rparr>) d"
      unfolding restore_slot_def by (intro track.upd_cong [OF Some]) (use False in simp)
    then show ?thesis
      using sound_add_clip [OF assms(1,2), of "fst x"] clip_ids_added [OF Some, of "snd x"] assms(3)
      by (simp add: good_ids_Cons)
  qed
qed

lemma sound_restore_slots:
  assumes "sound_document d" and "list_all (\<lambda>x. sound_clip (snd x)) cs" and "good_ids (map (\<lambda>x. c_id (snd x)) cs @ all_clip_ids (d_tracks d))"
  shows "sound_document (fold restore_slot cs d)"
  using assms
proof (induction cs arbitrary: d)
  case (Cons x cs)
  have r: "sound_document (restore_slot x d)"
      "mset (all_clip_ids (d_tracks (restore_slot x d))) \<subseteq># add_mset (c_id (snd x)) (mset (all_clip_ids (d_tracks d)))"
    using sound_restore_slot [OF Cons.prems(1), of x] Cons.prems(2,3) by (auto simp: good_ids_Cons good_ids_append)
  have "mset (map (\<lambda>x. c_id (snd x)) cs @ all_clip_ids (d_tracks (restore_slot x d))) \<subseteq>#
      mset (map (\<lambda>x. c_id (snd x)) (x # cs) @ all_clip_ids (d_tracks d))"
    using subset_mset.add_left_mono [OF r(2), of "mset (map (\<lambda>x. c_id (snd x)) cs)"] by simp
  from good_ids_subset [OF this Cons.prems(3)] show ?case using Cons.IH [OF r(1)] Cons.prems(2) by simp
qed simp

text \<open>The ids of the clips inside a scene and outside of it.\<close>

lemma scene_ids:
  "mset (all_clip_ids ts) =
   mset (map c_id (concat (map (\<lambda>t. filter (in_scene s) (t_clips t)) ts))) +
   mset (all_clip_ids (map (\<lambda>t. t\<lparr>t_clips := filter (\<lambda>c. \<not> in_scene s c) (t_clips t)\<rparr>) ts))"
proof (induction ts)
  case (Cons t ts)
  have "mset (map c_id cs) = mset (map c_id (filter P cs)) + mset (map c_id (filter (\<lambda>c. \<not> P c) cs))" for cs and P :: "clip \<Rightarrow> bool"
    by (induction cs) auto
  from this [of "t_clips t" "in_scene s"] show ?case using Cons by (simp add: all_clip_ids_def)
qed (simp add: all_clip_ids_def)

lemma keeps_scenes:
  assumes "sound_document d"
  shows "keeps_sound (RenameScene s n) d" "keeps_sound (DeleteScene s) d"
    "typed_op (RestoreScene sc i cs) d \<Longrightarrow> keeps_sound (RestoreScene sc i cs) d"
proof -
  show "keeps_sound (RenameScene s n) d"
    by (intro keeps_soundI) (auto simp: renameScene_def Let_def upd_scene_def sound_same_tracks assms split: option.splits if_splits)
  show "keeps_sound (RestoreScene sc i cs) d" if "typed_op (RestoreScene sc i cs) d"
    using that sound_restore_slots [OF sound_same_tracks(1) [OF assms], of cs]
    by (intro keeps_soundI) (auto simp: restoreScene_def Let_def split: if_splits)
  show "keeps_sound (DeleteScene s) d"
  proof (intro keeps_soundI)
    fix u iop f assume "replay_op u (DeleteScene s) d = Inr (Some (iop, f))"
    then obtain sc ix where sc: "iop = RestoreScene sc ix (scene_clips s d)"
        "d_tracks (f d) = map (\<lambda>t. t\<lparr>t_clips := filter (\<lambda>c. \<not> in_scene s c) (t_clips t)\<rparr>) (d_tracks d)"
        "d_schemaVersion (f d) = d_schemaVersion d" "d_sampleRate (f d) = d_sampleRate d"
      by (auto simp: deleteScene_def Let_def split: option.splits)
    have clips: "map snd (scene_clips s d) = concat (map (\<lambda>t. filter (in_scene s) (t_clips t)) (d_tracks d))"
      by (simp add: scene_clips_def map_concat comp_def)
    have "map (\<lambda>x. c_id (snd x)) (scene_clips s d) = map c_id (map snd (scene_clips s d))" by simp
    then have ids: "mset (all_clip_ids (d_tracks d)) = mset (map (\<lambda>x. c_id (snd x)) (scene_clips s d) @ all_clip_ids (d_tracks (f d)))"
      unfolding clips sc(2) mset_append using scene_ids [of "d_tracks d" s] by simp
    have good: "good_ids (map (\<lambda>x. c_id (snd x)) (scene_clips s d) @ all_clip_ids (d_tracks (f d)))"
      using assms good_ids_mset [OF ids] by (simp add: sound_document_def)
    have "\<forall>t\<in>set (d_tracks d). sound_track t" using assms by (simp add: sound_document_def)
    then have "list_all (\<lambda>x. sound_clip (snd x)) (scene_clips s d)" and "\<forall>t\<in>set (d_tracks (f d)). sound_track t"
      by (auto simp: scene_clips_def list_all_iff sound_track_def sc(2))
    then show "sound_document (f d) \<and> typed_op iop (f d)"
      using assms good by (simp add: sound_document_def sc good_ids_append comp_def)
  qed
qed

section \<open>Type soundness\<close>

lemma sound_step: "sound_document d \<Longrightarrow> typed_op op d \<Longrightarrow> keeps_sound op d"
  by (cases op)
    (simp_all add: keeps_tracks keeps_devices keeps_clip_times keeps_clip_fields keeps_clip_lists keeps_track_lists
      keeps_scenes keeps_lanes)

text \<open>A run of operations, each of the right type on the document it meets.\<close>

fun typed_run :: "inverse_op list \<Rightarrow> project \<Rightarrow> bool" where
  "typed_run [] d \<longleftrightarrow> True"
| "typed_run (op # ops) d \<longleftrightarrow> typed_op op d \<and>
     typed_run ops (case doc_step op d of None \<Rightarrow> d | Some (iop, d') \<Rightarrow> d')"

lemma sound_do_op:
  assumes "change_law A" and "sound_document (getDocument A s)" and "typed_op op (getDocument A s)" and "idle s"
  shows "sound_document (getDocument A (do_op A op s)) \<and> idle (do_op A op s) \<and>
    getDocument A (do_op A op s) = (case doc_step op (getDocument A s) of None \<Rightarrow> getDocument A s | Some (iop, d') \<Rightarrow> d')"
proof (cases "replay_op [] op (getDocument A s)")
  case (Inl e)
  then show ?thesis using assms by (simp add: do_op_def perform_result_def doc_step_def)
next
  case (Inr st)
  show ?thesis
  proof (cases st)
    case None
    then show ?thesis using assms Inr by (simp add: do_op_def perform_result_def perform_def doc_step_def)
  next
    case (Some y)
    then obtain iop f where st: "replay_op [] op (getDocument A s) = Inr (Some (iop, f))" using Inr by (cases y) auto
    have "sound_document (f (getDocument A s))"
      using sound_step [OF assms(2,3)] st by (auto simp: keeps_sound_def)
    then show ?thesis
      using assms(1,4) st
      by (auto simp: do_op_def perform_result_def perform_def doc_step_def idle_def capture_def push_routed_def split: option.splits)
  qed
qed

lemma sound_do_ops:
  assumes "change_law A"
  shows "sound_document (getDocument A s) \<Longrightarrow> typed_run ops (getDocument A s) \<Longrightarrow> idle s \<Longrightarrow>
    sound_document (getDocument A (fold (do_op A) ops s)) \<and> idle (fold (do_op A) ops s)"
proof (induction ops arbitrary: s)
  case (Cons op ops)
  then have "typed_op op (getDocument A s)" by simp
  note x = sound_do_op [OF assms Cons.prems(1) this Cons.prems(3)]
  have t: "typed_run ops (getDocument A (do_op A op s))" using x Cons.prems(2) by simp
  show ?case using Cons.IH [OF _ t] x by (metis fold_simps(2))
qed simp

lemma push_entry_last: "\<exists>rest. push_entry g st = rest @ [g]"
  by (cases st) (auto simp: push_entry_def Let_def MAX_ENTRIES_def)

text \<open>C4. Type soundness of the editor: from a sound document, operations whose arguments have the right type
  for the document they meet (gains that are numbers, finite places, clips, tracks and devices that are
  sound themselves and bring no id that is already there) leave a document in which the validation finds
  no fault, whatever their order; and the inverse that the last one captured is well typed again, so an
  undo leaves such a document too.\<close>

theorem edits_keep_document_sound:
  assumes "change_law A" and "idle s" and "sound_document (getDocument A s)" and "typed_run ops (getDocument A s)"
    and "typed_op op (getDocument A (fold (do_op A) ops s))"
  shows "let s1 = fold (do_op A) ops s; s2 = do_op A op s1 in
    validateDocument (getDocument A s1) = [] \<and> validateDocument (getDocument A s2) = [] \<and>
    (doc_step op (getDocument A s1) = None \<or> validateDocument (getDocument A (fst (undo A us s2))) = [])"
proof -
  define s1 where "s1 = fold (do_op A) ops s"
  have s1: "sound_document (getDocument A s1)" "idle s1"
    using sound_do_ops [OF assms(1,3,4,2)] by (simp_all add: s1_def)
  define s2 where "s2 = do_op A op s1"
  have s2: "sound_document (getDocument A s2)"
    using sound_do_op [OF assms(1) s1(1) _ s1(2), of op] assms(5) unfolding s1_def [symmetric] s2_def by blast
  have "sound_document (getDocument A (fst (undo A us s2)))" if "doc_step op (getDocument A s1) \<noteq> None"
  proof -
    from that obtain iop f where st: "replay_op [] op (getDocument A s1) = Inr (Some (iop, f))"
      by (auto simp: doc_step_def split: sum.splits option.splits)
    have s2': "s2 = commit A iop f s1" by (simp add: s2_def do_op_def perform_result_def perform_def st)
    have typed: "typed_op iop (getDocument A s2)"
      using sound_step [OF s1(1)] assms(1,5) st by (auto simp: keeps_sound_def s2' s1_def [symmetric])
    obtain rest where "push_entry (entry iop) (j_undo (ps_journal s1)) = rest @ [entry iop]"
      using push_entry_last by blast
    then have "j_undo (ps_journal s2) = rest @ [entry iop]"
      using s1(2) by (simp add: s2' idle_def capture_def push_routed_def entry_def)
    then obtain j where "popUndo (ps_journal s2) = (Some [iop], j)"
      by (auto simp: popUndo_def entry_def)
    then have u: "getDocument A (fst (undo A us s2)) =
        getDocument A (fst (replay A us [iop] (on_journal (openReplay ToRedo) (s2\<lparr>ps_journal := j\<rparr>))))"
      by (simp add: undo_def routeReplay_def split_beta del: replay.simps)
    show ?thesis
      unfolding u using s2 sound_step [OF s2 typed] assms(1)
      by (auto simp: perform_result_def perform_def keeps_sound_def split: sum.splits option.splits)
  qed
  then show ?thesis
    using s1(1) s2 by (auto simp: Let_def s1_def [symmetric] s2_def [symmetric] validate_iff intro!: sound_valid)
qed

text \<open>The typing sees the place of the clips: two tracks, a clip that moves, is split off and goes.\<close>

definition example_sound_clip :: clip where
  "example_sound_clip = \<lparr>c_id = ''c'', c_name = None, c_assetHash = ''h'', c_startSample = Some (js_int 48000),
     c_lengthSamples = Some (js_int 96000), c_offsetSamples = Some (js_int 0), c_fadeInSamples = None,
     c_fadeOutSamples = None, c_notes = None, c_sceneId = None, c_startTick = None, c_lengthTick = None\<rparr>"

definition example_edits :: "inverse_op list" where
  "example_edits = [AddTrack example_track, SetTrackGain (t_id example_track) PInf,
     AddClip (t_id example_track) example_sound_clip, SetClipStart (t_id example_track) ''c'' (Fin (- 5 / 2))]"

lemma example_sound_clip_sound: "sound_clip example_sound_clip"
  by (simp add: sound_clip_def valid_clip_def example_sound_clip_def whole_timing_def timingOf_def whole_def js_int_from_def)

lemma example_edits_typed:
  "typed_run example_edits (createEmptyDocument (js_int 48000))" "sound_document (createEmptyDocument (js_int 48000))"
  using example_sound_clip_sound
  by (simp_all add: example_edits_def example_track_def makeTrackDef_def newId_def createEmptyDocument_def
      doc_step_def mutator_defs find_track_def upd_track_def sound_track_def js_between_def good_ids_def all_clip_ids_def
      example_sound_clip_def sound_document_def js_clamp_def js_max_def js_min_def isMusicalClip_def)

lemma example_delete:
  "\<not> Option.is_none (doc_step (DeleteTrack (t_id example_track))
     (getDocument local_automerge (fold (do_op local_automerge) example_edits (new_project local_automerge))))"
  by code_simp

theorem edits_keep_document_sound_witness:
  "validateDocument (getDocument local_automerge (fst (undo local_automerge []
     (do_op local_automerge (DeleteTrack (t_id example_track))
        (fold (do_op local_automerge) example_edits (new_project local_automerge)))))) = []"
  using edits_keep_document_sound [OF local_change_law, of "new_project local_automerge" example_edits
    "DeleteTrack (t_id example_track)" "[]"] example_edits_typed example_delete
  by (auto simp: Let_def Option.is_none_def)

end
