(* ===== verification/Session.thy ===== *)
theory Session
  imports Prelude Schema "HOL-Library.AList" "HOL-Library.Word"
begin

unbundle bit_operations_syntax

text \<open>
  The two tables of peers kept over the signal relay: the session clock of
  \<open>web/src/network/session_clock.ts\<close> and the presence of \<open>web/src/network/presence.ts\<close>. A JavaScript
  \<open>Map\<close> is an association list: \<open>AList.update\<close> replaces in place or appends, as \<open>set\<close> does. The
  time \<open>now\<close> of \<open>performance.now()\<close>, the own id \<open>me\<close> and the received message are arguments; the
  signals sent and whether the change callback fires are results. Both tables forget silent
  peers, and both are instances of the interface \<open>expiring_table\<close>.
\<close>

section \<open>The session clock\<close>

record sample =
  sa_offset :: jsnum
  sa_rtt :: jsnum

record peer_clock =
  offsetMs :: jsnum
  rttMs :: jsnum
  samples :: nat

definition WINDOW :: nat where
  "WINDOW = 16"

definition CLOCK_STALE_MS :: jsnum where
  "CLOCK_STALE_MS = js_int 30000"

definition MAX_RTT_MS :: jsnum where
  "MAX_RTT_MS = js_int 5000"

record session_clock =
  ck_perPeer :: "(string \<times> sample list) list"
  ck_lastHeard :: "(string \<times> jsnum) list"

text \<open>A field that is missing or of another type is \<open>None\<close>.\<close>

record clock_msg =
  cm_clk :: "jsnum option"
  cm_from :: "string option"
  cm_to :: "string option"
  cm_t1 :: "jsnum option"
  cm_t2 :: "jsnum option"

definition stale_at :: "jsnum \<Rightarrow> jsnum \<Rightarrow> jsnum \<Rightarrow> bool" where
  "stale_at limit now heard \<longleftrightarrow> js_lt limit (js_sub now heard)"

text \<open>The expiry loop of \<open>tick\<close> over the entries of \<open>lastHeard\<close>.\<close>

definition clock_expire :: "jsnum \<Rightarrow> session_clock \<Rightarrow> session_clock" where
  "clock_expire now s =
     \<lparr>ck_perPeer = filter (\<lambda>(i, _). \<not> (\<exists>h. (i, h) \<in> set (ck_lastHeard s) \<and> stale_at CLOCK_STALE_MS now h))
        (ck_perPeer s),
      ck_lastHeard = filter (\<lambda>(_, h). \<not> stale_at CLOCK_STALE_MS now h) (ck_lastHeard s)\<rparr>"

definition clock_tick :: "string \<Rightarrow> jsnum \<Rightarrow> session_clock \<Rightarrow> clock_msg list \<times> session_clock" where
  "clock_tick me now s =
     ([\<lparr>cm_clk = Some (js_int 1), cm_from = Some me, cm_to = None, cm_t1 = Some now, cm_t2 = None\<rparr>],
      clock_expire now s)"

definition clock_record :: "string \<Rightarrow> sample \<Rightarrow> jsnum \<Rightarrow> session_clock \<Rightarrow> session_clock" where
  "clock_record from_id x now s =
     (let win = or_else (map_of (ck_perPeer s) from_id) [] @ [x];
          win = (if length win > WINDOW then tl win else win)
      in \<lparr>ck_perPeer = AList.update from_id win (ck_perPeer s),
          ck_lastHeard = AList.update from_id now (ck_lastHeard s)\<rparr>)"

definition clock_handleSignal ::
  "string \<Rightarrow> jsnum \<Rightarrow> clock_msg \<Rightarrow> session_clock \<Rightarrow> clock_msg list \<times> session_clock" where
  "clock_handleSignal me now m s =
     (case (cm_clk m, cm_from m) of
        (Some clk, Some from_id) \<Rightarrow>
          if from_id = [] \<or> from_id = me then ([], s)
          else if js_eq clk (js_int 1) \<and> cm_t1 m \<noteq> None
          then ([\<lparr>cm_clk = Some (js_int 2), cm_from = Some me, cm_to = Some from_id, cm_t1 = cm_t1 m,
                  cm_t2 = Some now\<rparr>], s)
          else if js_eq clk (js_int 2) \<and> cm_to m = Some me
          then (case (cm_t1 m, cm_t2 m) of
                  (Some t1, Some t2) \<Rightarrow>
                    (let rtt = js_sub now t1
                     in if js_lt rtt (js_int 0) \<or> js_lt MAX_RTT_MS rtt then ([], s)
                        else ([], clock_record from_id
                          \<lparr>sa_offset = js_sub t2 (js_add t1 (js_div rtt (js_int 2))), sa_rtt = rtt\<rparr> now s))
                | _ \<Rightarrow> ([], s))
          else ([], s)
      | _ \<Rightarrow> ([], s))"

definition estimate :: "sample list \<Rightarrow> peer_clock" where
  "estimate win =
     (let minRtt = foldr js_min (map sa_rtt win) PInf;
          good = filter (\<lambda>x. js_le (sa_rtt x) (js_add (js_mul minRtt (Fin (3/2))) (js_int 1))) win;
          offs = js_sort js_sub (map sa_offset good)
      in \<lparr>offsetMs = offs ! ((length offs - 1) div 2), rttMs = minRtt, samples = length win\<rparr>)"

definition clock_peers :: "session_clock \<Rightarrow> (string \<times> peer_clock) list" where
  "clock_peers s = map (\<lambda>(i, win). (i, estimate win)) (filter (\<lambda>(_, win). win \<noteq> []) (ck_perPeer s))"

definition clock_stop :: "session_clock \<Rightarrow> session_clock" where
  "clock_stop s = \<lparr>ck_perPeer = [], ck_lastHeard = []\<rparr>"

section \<open>Presence\<close>

record peer_presence =
  pp_id :: string
  pp_name :: string
  pp_color :: string
  pp_selectedTrack :: "string option"
  pp_lastSeen :: jsnum

definition PRESENCE_STALE_MS :: jsnum where
  "PRESENCE_STALE_MS = js_int 6000"

text \<open>FNV-1a on 32 bits.\<close>

definition hashId :: "string \<Rightarrow> nat" where
  "hashId i = unat (fold (\<lambda>c h. (h XOR of_char c) * 16777619) i (2166136261 :: 32 word))"

text \<open>A number in a template literal.\<close>

fun decimal :: "nat \<Rightarrow> string" where
  "decimal n = (if n < 10 then [char_of (48 + n)] else decimal (n div 10) @ [char_of (48 + n mod 10)])"

declare decimal.simps [simp del]

definition peerColor :: "string \<Rightarrow> string" where
  "peerColor i = ''hsl('' @ decimal (hashId i mod 360) @ '' 70% 60%)''"

definition HANDLES :: "string list" where
  "HANDLES = [''Renard'', ''Loutre'', ''Corbeau'', ''Lynx'', ''Hibou'', ''Blaireau'',
     ''Martre'', ''Belette'', ''Faucon'', ''Heron'', ''Cerf'', ''Sanglier'',
     ''Chouette'', ''Genette'', ''Putois'', ''Fouine'']"

definition peerName :: "string \<Rightarrow> string" where
  "peerName i = HANDLES ! (hashId i mod length HANDLES)"

record presence_msg =
  pm_pr :: "jsnum option"
  pm_from :: "string option"
  pm_name :: "string option"
  pm_color :: "string option"
  pm_sel :: "string option"

record presence =
  pr_peers :: "(string \<times> peer_presence) list"
  pr_mySelection :: "string option"

definition presence_broadcast :: "string \<Rightarrow> presence \<Rightarrow> presence_msg" where
  "presence_broadcast me s =
     \<lparr>pm_pr = Some (js_int 1), pm_from = Some me, pm_name = Some (peerName me),
      pm_color = Some (peerColor me), pm_sel = pr_mySelection s\<rparr>"

definition setSelection :: "string \<Rightarrow> string option \<Rightarrow> presence \<Rightarrow> presence_msg list \<times> presence" where
  "setSelection me trackId s =
     (if trackId = pr_mySelection s then ([], s)
      else (let s = s\<lparr>pr_mySelection := trackId\<rparr> in ([presence_broadcast me s], s)))"

definition presence_expire :: "jsnum \<Rightarrow> presence \<Rightarrow> presence" where
  "presence_expire now s =
     s\<lparr>pr_peers := filter (\<lambda>(_, p). \<not> stale_at PRESENCE_STALE_MS now (pp_lastSeen p)) (pr_peers s)\<rparr>"

text \<open>The signal sent, the new state, and whether \<open>onChange\<close> is called.\<close>

definition presence_tick :: "string \<Rightarrow> jsnum \<Rightarrow> presence \<Rightarrow> presence_msg list \<times> presence \<times> bool" where
  "presence_tick me now s =
     ([presence_broadcast me s], presence_expire now s,
      \<exists>(_, p)\<in>set (pr_peers s). stale_at PRESENCE_STALE_MS now (pp_lastSeen p))"

definition presence_record :: "string \<Rightarrow> presence_msg \<Rightarrow> jsnum \<Rightarrow> presence \<Rightarrow> presence" where
  "presence_record from_id m now s =
     s\<lparr>pr_peers := AList.update from_id
       \<lparr>pp_id = from_id, pp_name = or_else (pm_name m) (peerName from_id),
        pp_color = or_else (pm_color m) (peerColor from_id), pp_selectedTrack = pm_sel m,
        pp_lastSeen = now\<rparr> (pr_peers s)\<rparr>"

definition presence_handleSignal ::
  "string \<Rightarrow> jsnum \<Rightarrow> presence_msg \<Rightarrow> presence \<Rightarrow> presence \<times> bool" where
  "presence_handleSignal me now m s =
     (case (pm_pr m, pm_from m) of
        (Some pr, Some from_id) \<Rightarrow>
          if \<not> js_eq pr (js_int 1) \<or> from_id = [] \<or> from_id = me then (s, False)
          else (presence_record from_id m now s,
            (case map_of (pr_peers s) from_id of
               None \<Rightarrow> True | Some prev \<Rightarrow> pp_selectedTrack prev \<noteq> pm_sel m))
      | _ \<Rightarrow> (s, False))"

definition presence_list :: "presence \<Rightarrow> peer_presence list" where
  "presence_list s = map snd (pr_peers s)"

definition onTrack :: "string \<Rightarrow> presence \<Rightarrow> peer_presence list" where
  "onTrack trackId s = filter (\<lambda>p. pp_selectedTrack p = Some trackId) (presence_list s)"

definition presence_stop :: "presence \<Rightarrow> presence" where
  "presence_stop s = s\<lparr>pr_peers := []\<rparr>"

section \<open>Tables that forget silent peers\<close>

text \<open>
  \<open>heard\<close> is when a peer was last heard; \<open>touch\<close> records a message, \<open>expire\<close> is the periodic cleaning.
\<close>

locale expiring_table =
  fixes heard :: "'s \<Rightarrow> string \<Rightarrow> jsnum option"
    and touch :: "string \<Rightarrow> 'm \<Rightarrow> jsnum \<Rightarrow> 's \<Rightarrow> 's"
    and expire :: "jsnum \<Rightarrow> 's \<Rightarrow> 's"
    and wf :: "'s \<Rightarrow> bool"
    and limit :: rat
  assumes heard_touch: "wf s \<Longrightarrow> heard (touch k m t s) k' = (if k' = k then Some t else heard s k')"
    and heard_expire: "wf s \<Longrightarrow> heard (expire t s) k =
      (case heard s k of None \<Rightarrow> None | Some h \<Rightarrow> if stale_at (Fin limit) t h then None else Some h)"
    and wf_touch: "wf s \<Longrightarrow> wf (touch k m t s)"
    and wf_expire: "wf s \<Longrightarrow> wf (expire t s)"

datatype 'm table_event = Heard string 'm rat | Cleaned rat

fun run_table ::
  "(string \<Rightarrow> 'm \<Rightarrow> jsnum \<Rightarrow> 's \<Rightarrow> 's) \<Rightarrow> (jsnum \<Rightarrow> 's \<Rightarrow> 's) \<Rightarrow> 'm table_event list \<Rightarrow> 's \<Rightarrow> 's" where
  "run_table touch expire [] s = s"
| "run_table touch expire (Heard k m t # es) s = run_table touch expire es (touch k m (Fin t) s)"
| "run_table touch expire (Cleaned t # es) s = run_table touch expire es (expire (Fin t) s)"

text \<open>The time of the last message of a peer, if there was one.\<close>

fun last_message :: "string \<Rightarrow> rat option \<Rightarrow> 'm table_event list \<Rightarrow> rat option" where
  "last_message k l [] = l"
| "last_message k l (Heard k' m t # es) = last_message k (if k' = k then Some t else l) es"
| "last_message k l (Cleaned t # es) = last_message k l es"

fun cleaned_before :: "rat \<Rightarrow> 'm table_event list \<Rightarrow> bool" where
  "cleaned_before now [] \<longleftrightarrow> True"
| "cleaned_before now (Heard k m t # es) \<longleftrightarrow> cleaned_before now es"
| "cleaned_before now (Cleaned t # es) \<longleftrightarrow> t \<le> now \<and> cleaned_before now es"

lemma stale_at_Fin [simp]: "stale_at (Fin l) (Fin t) (Fin h) \<longleftrightarrow> l < t - h"
  by (simp add: stale_at_def js_sub_def)

context expiring_table
begin

lemma wf_run: "wf s \<Longrightarrow> wf (run_table touch expire es s)"
proof (induction es arbitrary: s)
  case (Cons e es)
  then show ?case by (cases e) (simp_all add: wf_touch wf_expire)
qed simp

text \<open>
  What the table holds agrees with the last message up to peers that are already too old, and a
  cleaning now shows exactly the peers whose last message is recent enough.
\<close>

lemma heard_run:
  assumes "wf s" and "cleaned_before now es"
    and "heard s k = map_option Fin l \<or> heard s k = None \<and> (\<exists>t. l = Some t \<and> limit < now - t)"
  shows "heard (run_table touch expire es s) k = map_option Fin (last_message k l es) \<or>
    heard (run_table touch expire es s) k = None \<and>
      (\<exists>t. last_message k l es = Some t \<and> limit < now - t)"
  using assms
proof (induction es arbitrary: s l)
  case (Cons e es)
  show ?case
  proof (cases e)
    case (Heard k' m t)
    show ?thesis
      unfolding Heard run_table.simps last_message.simps
      by (rule Cons.IH) (use Cons.prems in \<open>auto simp: Heard wf_touch heard_touch\<close>)
  next
    case (Cleaned t)
    show ?thesis
      unfolding Cleaned run_table.simps last_message.simps
    proof (rule Cons.IH)
      show "heard (expire (Fin t) s) k = map_option Fin l \<or>
          heard (expire (Fin t) s) k = None \<and> (\<exists>t. l = Some t \<and> limit < now - t)"
        using Cons.prems by (cases l) (auto simp: Cleaned heard_expire split: if_splits)
    qed (use Cons.prems in \<open>auto simp: Cleaned wf_expire\<close>)
  qed
qed simp

lemma shown_iff_recent:
  assumes "wf s" and "heard s k = None" and "cleaned_before now es"
  shows "heard (expire (Fin now) (run_table touch expire es s)) k \<noteq> None \<longleftrightarrow>
    (\<exists>t. last_message k None es = Some t \<and> now - t \<le> limit)"
proof -
  note heard_run [OF assms(1,3), of k None]
  then show ?thesis
    using assms(2) wf_run [OF assms(1), of es]
    by (cases "last_message k None es") (auto simp: heard_expire split: option.splits)
qed

end

section \<open>The two tables\<close>

lemma map_of_filter_value:
  "distinct (map fst xs) \<Longrightarrow>
   map_of (filter (\<lambda>(_, v). P v) xs) k =
     (case map_of xs k of None \<Rightarrow> None | Some v \<Rightarrow> if P v then Some v else None)"
proof (induction xs)
  case (Cons x xs)
  then have "P (snd x) \<or> fst x = k \<Longrightarrow> fst x = k \<Longrightarrow> map_of xs k = None"
    by (auto simp: map_of_eq_None_iff)
  then show ?case using Cons by (auto simp: split_beta split: option.splits)
qed simp

lemma distinct_filter_keys: "distinct (map fst xs) \<Longrightarrow> distinct (map fst (filter P xs))"
  by (simp add: distinct_map_filter)

definition wf_clock :: "session_clock \<Rightarrow> bool" where
  "wf_clock s \<longleftrightarrow> distinct (map fst (ck_perPeer s)) \<and> distinct (map fst (ck_lastHeard s)) \<and>
     fst ` set (ck_perPeer s) = fst ` set (ck_lastHeard s) \<and>
     (\<forall>(i, win)\<in>set (ck_perPeer s). win \<noteq> [] \<and> length win \<le> WINDOW)"

lemma set_update_subset: "set (AList.update k v xs) \<subseteq> insert (k, v) (set xs)"
  by (induction xs) auto

lemma keys_update: "fst ` set (AList.update k v xs) = insert k (fst ` set xs)"
  by (induction xs) auto

lemma map_of_update: "map_of (AList.update k v xs) = (map_of xs)(k \<mapsto> v)"
  by (rule update_conv')

text \<open>The window after a sample: bounded, and made of the old samples and the new one.\<close>

definition push_sample :: "sample \<Rightarrow> sample list \<Rightarrow> sample list" where
  "push_sample x win = (if length (win @ [x]) > WINDOW then tl (win @ [x]) else win @ [x])"

lemma push_sample_facts:
  "length win \<le> WINDOW \<Longrightarrow> length (push_sample x win) \<le> WINDOW"
  "x \<in> set (push_sample x win)" "push_sample x win \<noteq> []"
  "set (push_sample x win) \<subseteq> insert x (set win)"
proof -
  show "length win \<le> WINDOW \<Longrightarrow> length (push_sample x win) \<le> WINDOW"
    by (auto simp: push_sample_def)
  show "x \<in> set (push_sample x win)"
    by (cases win) (auto simp: push_sample_def WINDOW_def)
  then show "push_sample x win \<noteq> []" by auto
  show "set (push_sample x win) \<subseteq> insert x (set win)"
    by (cases win) (auto simp: push_sample_def)
qed

lemma clock_record_alt:
  "clock_record i x now s =
     \<lparr>ck_perPeer = AList.update i (push_sample x (or_else (map_of (ck_perPeer s) i) [])) (ck_perPeer s),
      ck_lastHeard = AList.update i now (ck_lastHeard s)\<rparr>"
  by (simp add: clock_record_def push_sample_def Let_def)

lemma wf_clock_window: "wf_clock s \<Longrightarrow> length (or_else (map_of (ck_perPeer s) i) []) \<le> WINDOW"
  by (cases "map_of (ck_perPeer s) i") (auto simp: wf_clock_def dest: map_of_SomeD)

lemma wf_clock_record:
  assumes "wf_clock s"
  shows "wf_clock (clock_record i x now s)"
proof -
  let ?W = "push_sample x (or_else (map_of (ck_perPeer s) i) [])"
  have W: "?W \<noteq> []" "length ?W \<le> WINDOW"
    using push_sample_facts(1,3) wf_clock_window [OF assms] by simp_all
  have "win \<noteq> [] \<and> length win \<le> WINDOW" if "(j, win) \<in> set (AList.update i ?W (ck_perPeer s))" for j win
    using that set_update_subset [of i ?W "ck_perPeer s"] W assms by (auto simp: wf_clock_def)
  then show ?thesis
    using assms by (auto simp: wf_clock_def clock_record_alt distinct_update keys_update)
qed

lemma in_keys: "i \<in> fst ` set xs \<longleftrightarrow> (\<exists>v. (i, v) \<in> set xs)"
  by force

lemma wf_clock_expire:
  assumes "wf_clock s"
  shows "wf_clock (clock_expire now s)"
proof -
  have dist: "distinct (map fst (ck_lastHeard s))" and keys: "fst ` set (ck_perPeer s) = fst ` set (ck_lastHeard s)"
    using assms by (simp_all add: wf_clock_def)
  have uniq: "h = h'" if "(i, h) \<in> set (ck_lastHeard s)" "(i, h') \<in> set (ck_lastHeard s)" for i h h'
    using that dist by (metis eq_key_imp_eq_value)
  have old: "i \<in> fst ` set (ck_perPeer (clock_expire now s)) \<longleftrightarrow>
      i \<in> fst ` set (ck_perPeer s) \<and> \<not> (\<exists>h. (i, h) \<in> set (ck_lastHeard s) \<and> stale_at CLOCK_STALE_MS now h)" for i
    unfolding in_keys by (auto simp: clock_expire_def)
  have new: "i \<in> fst ` set (ck_lastHeard (clock_expire now s)) \<longleftrightarrow>
      (\<exists>h. (i, h) \<in> set (ck_lastHeard s) \<and> \<not> stale_at CLOCK_STALE_MS now h)" for i
    unfolding in_keys by (auto simp: clock_expire_def)
  have "i \<in> fst ` set (ck_perPeer s) \<longleftrightarrow> (\<exists>h. (i, h) \<in> set (ck_lastHeard s))" for i
    unfolding keys by (rule in_keys)
  then have "i \<in> fst ` set (ck_perPeer (clock_expire now s)) \<longleftrightarrow> i \<in> fst ` set (ck_lastHeard (clock_expire now s))" for i
    unfolding old new using uniq [of i] by metis
  then have "fst ` set (ck_perPeer (clock_expire now s)) = fst ` set (ck_lastHeard (clock_expire now s))"
    by (rule set_eqI)
  moreover have "\<forall>(i, win)\<in>set (ck_perPeer (clock_expire now s)). win \<noteq> [] \<and> length win \<le> WINDOW"
    using assms by (auto simp: wf_clock_def clock_expire_def)
  moreover have "distinct (map fst (ck_perPeer (clock_expire now s)))" "distinct (map fst (ck_lastHeard (clock_expire now s)))"
    using assms by (simp_all add: wf_clock_def distinct_filter_keys clock_expire_def)
  ultimately show ?thesis by (simp only: wf_clock_def simp_thms)
qed

interpretation clock_table: expiring_table "\<lambda>s. map_of (ck_lastHeard s)" clock_record clock_expire wf_clock 30000
proof
  fix s :: session_clock and k k' :: string and x t
  assume wf: "wf_clock s"
  show "map_of (ck_lastHeard (clock_record k x t s)) k' = (if k' = k then Some t else map_of (ck_lastHeard s) k')"
    by (simp add: clock_record_alt map_of_update)
  show "map_of (ck_lastHeard (clock_expire t s)) k =
      (case map_of (ck_lastHeard s) k of None \<Rightarrow> None
       | Some h \<Rightarrow> if stale_at (Fin 30000) t h then None else Some h)"
    using wf map_of_filter_value [of "ck_lastHeard s" "\<lambda>h. \<not> stale_at CLOCK_STALE_MS t h" k]
    by (auto simp: clock_expire_def wf_clock_def CLOCK_STALE_MS_def split: option.splits)
qed (rule wf_clock_record wf_clock_expire; assumption)+

definition wf_presence :: "presence \<Rightarrow> bool" where
  "wf_presence s \<longleftrightarrow> distinct (map fst (pr_peers s))"

interpretation presence_table: expiring_table "\<lambda>s k. map_option pp_lastSeen (map_of (pr_peers s) k)"
  presence_record presence_expire wf_presence 6000
proof
  fix s :: presence and k k' :: string and m t
  assume wf: "wf_presence s"
  show "map_option pp_lastSeen (map_of (pr_peers (presence_record k m t s)) k') =
      (if k' = k then Some t else map_option pp_lastSeen (map_of (pr_peers s) k'))"
    by (simp add: presence_record_def map_of_update)
  show "map_option pp_lastSeen (map_of (pr_peers (presence_expire t s)) k) =
      (case map_option pp_lastSeen (map_of (pr_peers s) k) of None \<Rightarrow> None
       | Some h \<Rightarrow> if stale_at (Fin 6000) t h then None else Some h)"
    using wf map_of_filter_value [of "pr_peers s" "\<lambda>p. \<not> stale_at PRESENCE_STALE_MS t (pp_lastSeen p)" k]
    by (auto simp: presence_expire_def wf_presence_def PRESENCE_STALE_MS_def split: option.splits)
  show "wf_presence (presence_record k m t s)"
    using wf by (simp add: presence_record_def wf_presence_def distinct_update)
  show "wf_presence (presence_expire t s)"
    using wf by (simp add: presence_expire_def wf_presence_def distinct_filter_keys)
qed

section \<open>The estimate\<close>

lemma js_insert_sub: "js_insert js_sub (Fin x) (map Fin ys) = map Fin (insort x ys)"
  by (induction ys) (auto simp: js_sub_def)

lemma js_sort_sub: "js_sort js_sub (map Fin xs) = map Fin (sort xs)"
  by (induction xs) (simp_all add: js_sort_def js_insert_sub)

lemma foldr_js_min: "foldr js_min (map Fin rs) PInf = (if rs = [] then PInf else Fin (Min (set rs)))"
proof (induction rs)
  case (Cons r rs)
  have "js_min (Fin a) (Fin b) = Fin (min a b)" "js_min (Fin a) PInf = Fin a" for a b
    by (auto simp: js_min_def min_def)
  with Cons show ?case by (cases "rs = []") simp_all
qed simp

text \<open>A sample of a peer whose clock is ahead by \<open>d\<close>: off by at most half its round trip.\<close>

definition honest_sample :: "rat \<Rightarrow> sample \<Rightarrow> bool" where
  "honest_sample d x \<longleftrightarrow> (\<exists>off rtt. sa_offset x = Fin off \<and> sa_rtt x = Fin rtt \<and> \<bar>off - d\<bar> \<le> rtt / 2)"

definition rtt_of :: "sample \<Rightarrow> rat" where
  "rtt_of x = (case sa_rtt x of Fin r \<Rightarrow> r | _ \<Rightarrow> 0)"

definition offset_of :: "sample \<Rightarrow> rat" where
  "offset_of x = (case sa_offset x of Fin r \<Rightarrow> r | _ \<Rightarrow> 0)"

lemma honest_sampleD:
  "honest_sample d x \<Longrightarrow> sa_offset x = Fin (offset_of x) \<and> sa_rtt x = Fin (rtt_of x) \<and>
     \<bar>offset_of x - d\<bar> \<le> rtt_of x / 2 \<and> 0 \<le> rtt_of x"
  using abs_ge_zero [of "offset_of x - d"]
  by (auto simp: honest_sample_def offset_of_def rtt_of_def simp del: abs_ge_zero)

lemma estimate_error:
  assumes "win \<noteq> []" and "\<forall>x\<in>set win. honest_sample d x"
  shows "\<exists>off m. offsetMs (estimate win) = Fin off \<and> rttMs (estimate win) = Fin m \<and>
    (\<exists>x\<in>set win. m = rtt_of x) \<and> (\<forall>x\<in>set win. m \<le> rtt_of x) \<and> \<bar>off - d\<bar> \<le> (3/2 * m + 1) / 2"
proof -
  let ?m = "Min (rtt_of ` set win)"
  have hs: "sa_offset x = Fin (offset_of x)" "sa_rtt x = Fin (rtt_of x)"
      "\<bar>offset_of x - d\<bar> \<le> rtt_of x / 2" "0 \<le> rtt_of x" if "x \<in> set win" for x
    using assms(2) that honest_sampleD by blast+
  have "map sa_rtt win = map Fin (map rtt_of win)" using hs(2) by simp
  then have m: "foldr js_min (map sa_rtt win) PInf = Fin ?m"
    using assms(1) by (simp only: foldr_js_min) simp
  have ne: "rtt_of ` set win \<noteq> {}" using assms(1) by simp
  have m_in: "?m \<in> rtt_of ` set win" by (rule Min_in) (use ne in simp_all)
  have m_le: "?m \<le> rtt_of x" if "x \<in> set win" for x using that by simp
  have m_nonneg: "0 \<le> ?m" using m_in hs(4) by auto
  let ?good = "filter (\<lambda>x. rtt_of x \<le> 3/2 * ?m + 1) win"
  have good: "filter (\<lambda>x. js_le (sa_rtt x) (js_add (js_mul (Fin ?m) (Fin (3/2))) (js_int 1))) win = ?good"
    by (rule filter_cong) (use hs(2) in \<open>simp_all add: mult.commute\<close>)
  have "map sa_offset ?good = map Fin (map offset_of ?good)" using hs(1) by simp
  then have offs: "js_sort js_sub (map sa_offset ?good) = map Fin (sort (map offset_of ?good))"
    by (simp only: js_sort_sub)
  obtain x0 where x0: "x0 \<in> set win" "rtt_of x0 = ?m" using m_in by auto
  then have "x0 \<in> set ?good" using m_nonneg by simp
  then have pos: "0 < length ?good" by (rule length_pos_if_in_set)
  let ?k = "(length ?good - 1) div 2"
  have k: "?k < length ?good" using pos by linarith
  have "sort (map offset_of ?good) ! ?k \<in> set (sort (map offset_of ?good))"
    by (rule nth_mem) (use k in simp)
  then obtain x where x: "x \<in> set ?good" "sort (map offset_of ?good) ! ?k = offset_of x" by auto
  have est: "offsetMs (estimate win) = Fin (offset_of x)" "rttMs (estimate win) = Fin ?m"
    using k x(2) by (simp_all add: estimate_def Let_def m good [simplified] offs [simplified])
  have "\<bar>offset_of x - d\<bar> \<le> rtt_of x / 2" "rtt_of x \<le> 3/2 * ?m + 1" using x(1) hs(3) by auto
  then have "\<bar>offset_of x - d\<bar> \<le> (3/2 * ?m + 1) / 2"
    by (meson divide_right_mono order_trans zero_le_numeral)
  then show ?thesis
    using est x0 m_le by (intro exI [of _ "offset_of x"] exI [of _ ?m]) (auto intro!: bexI [of _ x0])
qed

section \<open>Pongs\<close>

text \<open>A pong of the peer \<open>p\<close>, sent at \<open>t1\<close>, stamped \<open>t2\<close> on the way and received at \<open>now\<close>.\<close>

definition pong :: "string \<Rightarrow> string \<Rightarrow> rat \<Rightarrow> rat \<Rightarrow> clock_msg" where
  "pong me p t1 t2 = \<lparr>cm_clk = Some (js_int 2), cm_from = Some p, cm_to = Some me, cm_t1 = Some (Fin t1),
     cm_t2 = Some (Fin t2)\<rparr>"

text \<open>The stamp was taken, on a clock ahead by \<open>d\<close>, between the sending and the reception.\<close>

definition honest_pong :: "rat \<Rightarrow> rat \<times> rat \<times> rat \<Rightarrow> bool" where
  "honest_pong d x \<longleftrightarrow> (case x of (t1, t2, now) \<Rightarrow> t1 \<le> t2 - d \<and> t2 - d \<le> now \<and> now - t1 \<le> 5000)"

definition receive_pongs :: "string \<Rightarrow> string \<Rightarrow> (rat \<times> rat \<times> rat) list \<Rightarrow> session_clock \<Rightarrow> session_clock" where
  "receive_pongs me p = fold (\<lambda>(t1, t2, now) s. snd (clock_handleSignal me (Fin now) (pong me p t1 t2) s))"

lemma honest_pong_handled:
  assumes "honest_pong d (t1, t2, now)" and "p \<noteq> []" and "p \<noteq> me"
  shows "\<exists>x. honest_sample d x \<and>
    clock_handleSignal me (Fin now) (pong me p t1 t2) s = ([], clock_record p x (Fin now) s)"
proof (intro exI conjI)
  let ?x = "\<lparr>sa_offset = Fin (t2 - (t1 + (now - t1) / 2)), sa_rtt = Fin (now - t1)\<rparr>"
  show "clock_handleSignal me (Fin now) (pong me p t1 t2) s = ([], clock_record p ?x (Fin now) s)"
    using assms
    by (simp add: clock_handleSignal_def pong_def honest_pong_def js_sub_def js_eq_def MAX_RTT_MS_def Let_def)
      (simp add: algebra_simps)
  have "\<bar>t2 - (t1 + (now - t1) / 2) - d\<bar> \<le> (now - t1) / 2"
    using assms(1) unfolding honest_pong_def abs_le_iff by (simp add: field_simps)
  then show "honest_sample d ?x" by (simp add: honest_sample_def)
qed

definition honest_window :: "rat \<Rightarrow> string \<Rightarrow> session_clock \<Rightarrow> bool" where
  "honest_window d p s \<longleftrightarrow> (\<forall>x\<in>set (or_else (map_of (ck_perPeer s) p) []). honest_sample d x)"

lemma receive_pongs_window:
  assumes "\<forall>x\<in>set pongs. honest_pong d x" and "p \<noteq> []" and "p \<noteq> me" and "honest_window d p s"
  shows "honest_window d p (receive_pongs me p pongs s) \<and>
    (pongs \<noteq> [] \<longrightarrow> or_else (map_of (ck_perPeer (receive_pongs me p pongs s)) p) [] \<noteq> [])"
  using assms(1,4)
proof (induction pongs arbitrary: s)
  case (Cons pg pongs)
  obtain t1 t2 now where pg: "pg = (t1, t2, now)" by (cases pg) auto
  obtain x where x: "honest_sample d x"
      "clock_handleSignal me (Fin now) (pong me p t1 t2) s = ([], clock_record p x (Fin now) s)"
    using honest_pong_handled [OF _ assms(2,3), of d t1 t2 now s] Cons.prems(1) by (auto simp: pg)
  let ?s = "clock_record p x (Fin now) s"
  have win: "map_of (ck_perPeer ?s) p = Some (push_sample x (or_else (map_of (ck_perPeer s) p) []))"
    by (simp add: clock_record_alt map_of_update)
  have "honest_window d p ?s"
    using push_sample_facts(4) [of x "or_else (map_of (ck_perPeer s) p) []"] x(1) Cons.prems(2)
    unfolding honest_window_def win by auto
  moreover have "receive_pongs me p (pg # pongs) s = receive_pongs me p pongs ?s"
    by (simp add: receive_pongs_def pg x(2))
  ultimately show ?case
    using Cons.IH [of ?s] Cons.prems(1) win push_sample_facts(3) [of x]
    by (cases "pongs = []") (auto simp: receive_pongs_def)
qed (simp add: receive_pongs_def)

section \<open>Properties\<close>



text \<open>After a heartbeat at time \<open>now\<close>, the roster of presence holds exactly the peers whose last message is
  at most six seconds old, whatever messages and heartbeats came before in whatever order.\<close>

theorem presence_shows_recent:
  assumes "wf_presence s" and "map_of (pr_peers s) k = None" and "cleaned_before now es"
  shows "k \<in> fst ` set (pr_peers (presence_expire (Fin now) (run_table presence_record presence_expire es s))) \<longleftrightarrow>
    (\<exists>t. last_message k None es = Some t \<and> now - t \<le> 6000)"
proof -
  have keys: "k \<in> fst ` set xs \<longleftrightarrow> map_of xs k \<noteq> None" for xs :: "(string \<times> peer_presence) list"
    by (simp add: map_of_eq_None_iff)
  show ?thesis
    unfolding keys using presence_table.shown_iff_recent [OF assms(1) _ assms(3), of k] assms(2) by simp
qed

theorem presence_shows_recent_witness:
  "''bob'' \<in> fst ` set (pr_peers (presence_expire (Fin 9000) (run_table presence_record presence_expire
     [Heard ''bob'' \<lparr>pm_pr = None, pm_from = None, pm_name = None, pm_color = None, pm_sel = None\<rparr> 4000,
      Cleaned 5000] \<lparr>pr_peers = [], pr_mySelection = None\<rparr>)))"
  by (subst presence_shows_recent) (simp_all add: wf_presence_def)

end
