(* ===== verification/Transport_Sync.thy ===== *)
theory Transport_Sync
  imports Session "HOL-Library.Char_ord" "HOL-Library.List_Lexorder"
begin

text \<open>
  Transport anchors, \<open>web/src/network/transport_sync.ts\<close>: the last anchor wins, in local time and with
  the peer id to break ties. The environment (the time, the clock estimates, the providers) is an
  argument of each handler; the signals sent and the anchor handed to the engine are results.
\<close>

section \<open>State\<close>

record anchor =
  an_playing :: bool
  an_posSec :: jsnum
  an_localT :: jsnum
  an_peer :: string

record pending_anchor =
  pa_from :: string
  pa_playing :: bool
  pa_posSec :: jsnum
  pa_t :: jsnum

record published_anchor =
  pb_playing :: bool
  pb_posSec :: jsnum
  pb_t :: jsnum

record applied_anchor =
  ap_playing :: bool
  ap_posSec :: jsnum
  ap_appliedAtLocal :: jsnum

record transport_sync =
  tx_enabled :: bool
  tx_last :: "anchor option"
  tx_pending :: "pending_anchor option"
  tx_retryTimer :: bool
  tx_published :: nat
  tx_applied :: nat
  tx_ignored :: nat
  tx_suppressed :: nat
  tx_lastPublished :: "published_anchor option"
  tx_lastApplied :: "applied_anchor option"

definition new_sync :: transport_sync where
  "new_sync = \<lparr>tx_enabled = False, tx_last = None, tx_pending = None, tx_retryTimer = False,
     tx_published = 0, tx_applied = 0, tx_ignored = 0, tx_suppressed = 0, tx_lastPublished = None,
     tx_lastApplied = None\<rparr>"

text \<open>What a handler reads: the time, the clock estimates, and the providers set by the application.\<close>

record live_state =
  lv_engineConnected :: bool
  lv_playing :: bool
  lv_posSec :: jsnum

record sync_env =
  env_me :: string
  env_now :: jsnum
  env_peers :: "(string \<times> peer_clock) list"
  env_suspended :: bool
  env_anchor :: "(bool \<times> jsnum) option"
  env_live :: "live_state option"

record anchor_msg =
  am_ta :: "jsnum option"
  am_from :: "string option"
  am_to :: "string option"
  am_playing :: "bool option"
  am_posSec :: "jsnum option"
  am_t :: "jsnum option"

text \<open>\<open>snapshot()\<close> is the state without its private parts.\<close>

record sync_snapshot =
  sn_enabled :: bool
  sn_published :: nat
  sn_applied :: nat
  sn_ignored :: nat
  sn_suppressed :: nat
  sn_lastPublished :: "published_anchor option"
  sn_lastApplied :: "applied_anchor option"

definition sync_snapshot_of :: "transport_sync \<Rightarrow> sync_snapshot" where
  "sync_snapshot_of s = \<lparr>sn_enabled = tx_enabled s, sn_published = tx_published s, sn_applied = tx_applied s,
     sn_ignored = tx_ignored s, sn_suppressed = tx_suppressed s, sn_lastPublished = tx_lastPublished s,
     sn_lastApplied = tx_lastApplied s\<rparr>"

text \<open>The signals: an anchor (directed or not), a rejoin request, a state report.\<close>

datatype sync_signal =
    SendAnchor "string option" bool jsnum jsnum
  | SendRejoin
  | SendReport string sync_snapshot "live_state option" bool

section \<open>Handlers\<close>

definition setEnabled :: "bool \<Rightarrow> transport_sync \<Rightarrow> sync_signal list \<times> transport_sync" where
  "setEnabled on s =
     (let s = s\<lparr>tx_enabled := on\<rparr>;
          s = (if on then s else s\<lparr>tx_pending := None\<rparr>)
      in (if on then [SendRejoin] else [], s))"

definition publish :: "sync_env \<Rightarrow> bool \<Rightarrow> jsnum \<Rightarrow> transport_sync \<Rightarrow> sync_signal list \<times> transport_sync" where
  "publish env playing posSec s =
     (if \<not> tx_enabled s then ([], s)
      else
        (let t = env_now env in
         ([SendAnchor None playing posSec t],
          s\<lparr>tx_last := Some \<lparr>an_playing = playing, an_posSec = posSec, an_localT = t, an_peer = env_me env\<rparr>,
            tx_published := tx_published s + 1,
            tx_lastPublished := Some \<lparr>pb_playing = playing, pb_posSec = posSec, pb_t = t\<rparr>\<rparr>)))"

text \<open>\<open>localT < last.localT || (localT === last.localT && from < last.peer)\<close>\<close>

definition older_than :: "jsnum \<Rightarrow> string \<Rightarrow> anchor \<Rightarrow> bool" where
  "older_than localT from_id l \<longleftrightarrow>
     js_lt localT (an_localT l) \<or> js_eq localT (an_localT l) \<and> from_id < an_peer l"

text \<open>The anchor applied to the engine, if any, and the state.\<close>

definition tryApply :: "sync_env \<Rightarrow> transport_sync \<Rightarrow> (bool \<times> jsnum) option \<times> transport_sync" where
  "tryApply env s =
     (case tx_pending s of
        None \<Rightarrow> (None, s)
      | Some p \<Rightarrow>
          (case map_of (env_peers env) (pa_from p) of
             None \<Rightarrow> (None, s\<lparr>tx_retryTimer := True\<rparr>)
           | Some pc \<Rightarrow>
               (let s = s\<lparr>tx_pending := None\<rparr>;
                    localT = js_sub (pa_t p) (offsetMs pc)
                in if \<exists>l. tx_last s = Some l \<and> older_than localT (pa_from p) l then (None, s)
                   else
                     (let s = s\<lparr>tx_last := Some \<lparr>an_playing = pa_playing p, an_posSec = pa_posSec p,
                              an_localT = localT, an_peer = pa_from p\<rparr>\<rparr>
                      in if env_suspended env then (None, s\<lparr>tx_suppressed := tx_suppressed s + 1\<rparr>)
                         else
                           (let now = env_now env;
                                posNow = (if pa_playing p
                                  then js_max (js_int 0) (js_add (pa_posSec p)
                                    (js_div (js_sub now localT) (js_int 1000)))
                                  else js_max (js_int 0) (pa_posSec p))
                            in (Some (pa_playing p, posNow),
                                s\<lparr>tx_applied := tx_applied s + 1,
                                  tx_lastApplied := Some \<lparr>ap_playing = pa_playing p, ap_posSec = posNow,
                                    ap_appliedAtLocal = now\<rparr>\<rparr>))))))"

text \<open>The timer of \<open>tryApply\<close>.\<close>

definition retryFires :: "sync_env \<Rightarrow> transport_sync \<Rightarrow> (bool \<times> jsnum) option \<times> transport_sync" where
  "retryFires env s = tryApply env (s\<lparr>tx_retryTimer := False\<rparr>)"

definition sync_handleSignal ::
  "sync_env \<Rightarrow> anchor_msg \<Rightarrow> transport_sync \<Rightarrow> sync_signal list \<times> (bool \<times> jsnum) option \<times> transport_sync" where
  "sync_handleSignal env m s =
     (case (am_ta m, am_from m) of
        (Some ta, Some from_id) \<Rightarrow>
          if from_id = [] \<or> from_id = env_me env then ([], None, s)
          else if \<exists>t. am_to m = Some t \<and> t \<noteq> [] \<and> t \<noteq> env_me env then ([], None, s)
          else if js_eq ta (js_int 3) then
            ([SendReport from_id (sync_snapshot_of s) (env_live env) (env_suspended env)], None, s)
          else if js_eq ta (js_int 2) then
            (if \<not> tx_enabled s \<or> env_suspended env then ([], None, s)
             else case env_anchor env of
               Some (True, posSec) \<Rightarrow> ([SendAnchor (Some from_id) True posSec (env_now env)], None, s)
             | _ \<Rightarrow> ([], None, s))
          else if \<not> js_eq ta (js_int 1) then ([], None, s)
          else (case (am_playing m, am_posSec m, am_t m) of
              (Some playing, Some posSec, Some t) \<Rightarrow>
                if \<not> tx_enabled s then ([], None, s\<lparr>tx_ignored := tx_ignored s + 1\<rparr>)
                else ([], tryApply env (s\<lparr>tx_pending := Some \<lparr>pa_from = from_id, pa_playing = playing,
                       pa_posSec = posSec, pa_t = t\<rparr>\<rparr>))
            | _ \<Rightarrow> ([], None, s))
      | _ \<Rightarrow> ([], None, s))"

section \<open>The order of anchors\<close>

text \<open>Stamps are compared by local time, then by peer id.\<close>

datatype stamp = Stamp (stamp_time: rat) (stamp_peer: string)

instantiation stamp :: linorder
begin

definition less_eq_stamp :: "stamp \<Rightarrow> stamp \<Rightarrow> bool" where
  "less_eq_stamp a b \<longleftrightarrow> stamp_time a < stamp_time b \<or>
     stamp_time a = stamp_time b \<and> stamp_peer a \<le> stamp_peer b"

definition less_stamp :: "stamp \<Rightarrow> stamp \<Rightarrow> bool" where
  "less_stamp a b \<longleftrightarrow> stamp_time a < stamp_time b \<or>
     stamp_time a = stamp_time b \<and> stamp_peer a < stamp_peer b"

instance
  by standard (auto simp: less_eq_stamp_def less_stamp_def stamp.expand)

end

text \<open>An anchor received: the sender, what it says, the sender's time and our estimate of its clock.\<close>

record received =
  rv_from :: string
  rv_playing :: bool
  rv_posSec :: jsnum
  rv_t :: rat
  rv_offset :: rat

definition stamp_of :: "received \<Rightarrow> stamp" where
  "stamp_of r = Stamp (rv_t r - rv_offset r) (rv_from r)"

definition anchor_of :: "received \<Rightarrow> anchor" where
  "anchor_of r = \<lparr>an_playing = rv_playing r, an_posSec = rv_posSec r,
     an_localT = Fin (rv_t r - rv_offset r), an_peer = rv_from r\<rparr>"

text \<open>The message, and an environment in which its sender's clock is known.\<close>

definition msg_of :: "received \<Rightarrow> anchor_msg" where
  "msg_of r = \<lparr>am_ta = Some (js_int 1), am_from = Some (rv_from r), am_to = None,
     am_playing = Some (rv_playing r), am_posSec = Some (rv_posSec r), am_t = Some (Fin (rv_t r))\<rparr>"

definition knows :: "sync_env \<Rightarrow> received \<Rightarrow> bool" where
  "knows env r \<longleftrightarrow> rv_from r \<noteq> [] \<and> rv_from r \<noteq> env_me env \<and>
     (\<exists>pc. map_of (env_peers env) (rv_from r) = Some pc \<and> offsetMs pc = Fin (rv_offset r))"

fun receive_all :: "(sync_env \<times> received) list \<Rightarrow> transport_sync \<Rightarrow> transport_sync" where
  "receive_all [] s = s"
| "receive_all ((env, r) # xs) s = receive_all xs (snd (snd (sync_handleSignal env (msg_of r) s)))"

lemma older_than_stamp: "older_than (Fin (rv_t r - rv_offset r)) (rv_from r) (anchor_of r') \<longleftrightarrow> stamp_of r < stamp_of r'"
  by (auto simp: older_than_def anchor_of_def stamp_of_def less_stamp_def js_eq_def)

text \<open>One anchor: it replaces the last one unless it is older.\<close>

lemma receive_one:
  assumes "knows env r" and "tx_enabled s"
  shows "tx_enabled (snd (snd (sync_handleSignal env (msg_of r) s))) \<and>
    tx_last (snd (snd (sync_handleSignal env (msg_of r) s))) =
      (if \<exists>l. tx_last s = Some l \<and> older_than (Fin (rv_t r - rv_offset r)) (rv_from r) l
       then tx_last s else Some (anchor_of r))"
proof -
  obtain pc where pc: "map_of (env_peers env) (rv_from r) = Some pc" "offsetMs pc = Fin (rv_offset r)"
      "rv_from r \<noteq> []" "rv_from r \<noteq> env_me env"
    using assms(1) by (auto simp: knows_def)
  have sub: "js_sub (Fin (rv_t r)) (Fin (rv_offset r)) = Fin (rv_t r - rv_offset r)"
    by (simp add: js_sub_def)
  show ?thesis
    using pc assms(2)
    by (auto simp: sync_handleSignal_def msg_of_def js_eq_def tryApply_def Let_def sub anchor_of_def)
qed

lemma receive_all_last:
  assumes "\<forall>(env, r)\<in>set xs. knows env r" and "tx_enabled s" and "tx_last s = map_option anchor_of l"
    and "distinct (map (stamp_of \<circ> snd) xs)"
    and "\<forall>r0. l = Some r0 \<longrightarrow> stamp_of r0 \<notin> set (map (stamp_of \<circ> snd) xs)"
  shows "\<exists>r. (xs = [] \<and> l = None \<and> tx_last (receive_all xs s) = None) \<or>
    (r \<in> set_option l \<union> snd ` set xs \<and> tx_last (receive_all xs s) = Some (anchor_of r) \<and>
     (\<forall>r'\<in>set_option l \<union> snd ` set xs. stamp_of r' \<le> stamp_of r))"
  using assms
proof (induction xs arbitrary: s l)
  case Nil
  then show ?case by (cases l) auto
next
  case (Cons x xs)
  obtain env r where x: "x = (env, r)" by (cases x)
  let ?s = "snd (snd (sync_handleSignal env (msg_of r) s))"
  have kn: "knows env r" using Cons.prems(1) by (simp add: x)
  define l' where "l' = (if \<exists>r0. l = Some r0 \<and> stamp_of r < stamp_of r0 then l else Some r)"
  have last: "tx_enabled ?s" "tx_last ?s = map_option anchor_of l'"
    using receive_one [OF kn Cons.prems(2)] Cons.prems(3)
    by (cases l; simp add: l'_def older_than_stamp)+
  have fresh: "\<forall>r0. l' = Some r0 \<longrightarrow> stamp_of r0 \<notin> set (map (stamp_of \<circ> snd) xs)"
    using Cons.prems(4,5) by (auto simp: l'_def x)
  have ne: "l' \<noteq> None" by (auto simp: l'_def)
  obtain q where q: "q \<in> set_option l' \<union> snd ` set xs"
      "tx_last (receive_all xs ?s) = Some (anchor_of q)"
      "\<forall>r'\<in>set_option l' \<union> snd ` set xs. stamp_of r' \<le> stamp_of q"
    using Cons.IH [OF _ last _ fresh] Cons.prems(1,4) ne by (auto simp: x)
  have sub: "set_option l' \<subseteq> set_option l \<union> {r}" by (auto simp: l'_def split: if_splits)
  have "stamp_of r' \<le> stamp_of q" if "r' \<in> set_option l \<union> {r}" for r'
  proof -
    obtain r1 where r1: "l' = Some r1" using ne by blast
    then have "stamp_of r' \<le> stamp_of r1"
      using that by (auto simp: l'_def not_less split: if_splits)
    also have "stamp_of r1 \<le> stamp_of q" using q(3) r1 by auto
    finally show ?thesis .
  qed
  then show ?case
    using q sub by (intro exI [of _ q]) (auto simp: x)
qed

lemma receive_all_unique:
  assumes "\<forall>(env, r)\<in>set xs. knows env r" and "tx_enabled s" and "tx_last s = None"
    and "distinct (map (stamp_of \<circ> snd) xs)" and "xs \<noteq> []"
  shows "\<exists>r\<in>snd ` set xs. tx_last (receive_all xs s) = Some (anchor_of r) \<and>
    (\<forall>r'\<in>snd ` set xs. stamp_of r' \<le> stamp_of r)"
proof -
  have "\<exists>r. (xs = [] \<and> (None :: received option) = None \<and> tx_last (receive_all xs s) = None) \<or>
    (r \<in> set_option None \<union> snd ` set xs \<and> tx_last (receive_all xs s) = Some (anchor_of r) \<and>
     (\<forall>r'\<in>set_option None \<union> snd ` set xs. stamp_of r' \<le> stamp_of r))"
    by (rule receive_all_last [OF assms(1,2) _ assms(4)]) (simp_all add: assms(3))
  then show ?thesis using assms(5) by auto
qed

section \<open>Properties\<close>

text \<open>C22. The last anchor wins and arrival order does not matter: once every sender's clock is known, an armed
  peer that receives the same anchors in any two orders ends with the same transport state, the
  anchor with the greatest local time, ties broken by the peer id.\<close>

theorem anchors_order_independent:
  assumes "\<forall>(env, r)\<in>set xs \<union> set ys. knows env r" and "tx_enabled s" and "tx_last s = None"
    and "mset (map snd xs) = mset (map snd ys)" and "distinct (map (stamp_of \<circ> snd) xs)" and "xs \<noteq> []"
  shows "\<exists>r\<in>snd ` set xs. tx_last (receive_all xs s) = Some (anchor_of r) \<and>
    tx_last (receive_all ys s) = Some (anchor_of r) \<and> (\<forall>r'\<in>snd ` set xs. stamp_of r' \<le> stamp_of r)"
proof -
  have sets: "snd ` set ys = snd ` set xs"
    using mset_eq_setD [OF assms(4)] by simp
  have "mset (map (stamp_of \<circ> snd) ys) = mset (map (stamp_of \<circ> snd) xs)"
    using arg_cong [OF assms(4), of "image_mset stamp_of"] by (simp add: image_mset.compositionality comp_def)
  then have dist: "distinct (map (stamp_of \<circ> snd) ys)"
    using assms(5) mset_eq_imp_distinct_iff by blast
  have ne: "ys \<noteq> []" using sets assms(6) by auto
  obtain r where r: "r \<in> snd ` set xs" "tx_last (receive_all xs s) = Some (anchor_of r)"
      "\<forall>r'\<in>snd ` set xs. stamp_of r' \<le> stamp_of r"
    using receive_all_unique [OF _ assms(2,3,5,6)] assms(1) by auto
  obtain q where q: "q \<in> snd ` set xs" "tx_last (receive_all ys s) = Some (anchor_of q)"
      "\<forall>r'\<in>snd ` set xs. stamp_of r' \<le> stamp_of q"
    using receive_all_unique [OF _ assms(2,3) dist ne] assms(1) unfolding sets by auto
  have "stamp_of r = stamp_of q" by (rule antisym) (use r(1,3) q(1,3) in auto)
  moreover have "inj_on stamp_of (snd ` set xs)"
    using assms(5) by (auto simp: distinct_map inj_on_def comp_def)
  ultimately have "r = q" using r(1) q(1) by (simp add: inj_on_eq_iff)
  then show ?thesis using r q by blast
qed

definition example_env :: sync_env where
  "example_env = \<lparr>env_me = ''me'', env_now = Fin 5000,
     env_peers = [(''a'', \<lparr>offsetMs = Fin 100, rttMs = Fin 4, samples = 3\<rparr>),
       (''b'', \<lparr>offsetMs = Fin 0, rttMs = Fin 4, samples = 3\<rparr>)],
     env_suspended = False, env_anchor = None, env_live = None\<rparr>"

definition anchor_a :: received where
  "anchor_a = \<lparr>rv_from = ''a'', rv_playing = True, rv_posSec = Fin 8, rv_t = 1100, rv_offset = 100\<rparr>"

definition anchor_b :: received where
  "anchor_b = \<lparr>rv_from = ''b'', rv_playing = False, rv_posSec = Fin 2, rv_t = 1000, rv_offset = 0\<rparr>"

theorem anchors_order_independent_witness:
  "tx_last (receive_all [(example_env, anchor_b), (example_env, anchor_a)] (snd (setEnabled True new_sync))) =
   tx_last (receive_all [(example_env, anchor_a), (example_env, anchor_b)] (snd (setEnabled True new_sync)))"
  using anchors_order_independent [of "[(example_env, anchor_b), (example_env, anchor_a)]"
      "[(example_env, anchor_a), (example_env, anchor_b)]" "snd (setEnabled True new_sync)"]
  by (auto simp: knows_def example_env_def anchor_a_def anchor_b_def stamp_of_def setEnabled_def new_sync_def)



end
