(* ===== verification/Socket.thy ===== *)
theory Socket
  imports Main
begin

text \<open>
  What the two clients share: the states of a web socket, handlers that return their effects in
  order, and the contract of a client that reconnects, the interface under which a client always
  comes back to an open socket.
\<close>

text \<open>\<open>readyState\<close> of a socket.\<close>

datatype ready = CONNECTING | OPEN | CLOSING | CLOSED

section \<open>Handlers\<close>

type_synonym ('s, 'e) handler = "'s \<Rightarrow> 'e list \<times> 's"

definition act :: "('s \<Rightarrow> 's) \<Rightarrow> ('s, 'e) handler" where
  "act f c = ([], f c)"

definition emit :: "'e \<Rightarrow> ('s, 'e) handler" where
  "emit e c = ([e], c)"

definition seq :: "('s, 'e) handler \<Rightarrow> ('s, 'e) handler \<Rightarrow> ('s, 'e) handler" where
  "seq a b c = (let (es, c') = a c; (es', c'') = b c' in (es @ es', c''))"

definition act_if :: "('s \<Rightarrow> bool) \<Rightarrow> ('s, 'e) handler \<Rightarrow> ('s, 'e) handler" where
  "act_if P a c = (if P c then a c else ([], c))"

definition nothing :: "('s, 'e) handler" where
  "nothing c = ([], c)"

definition do_all :: "('s, 'e) handler list \<Rightarrow> ('s, 'e) handler" where
  "do_all as = foldr seq as nothing"

lemmas handler_defs = act_def emit_def seq_def act_if_def nothing_def do_all_def Let_def

section \<open>A client that reconnects\<close>

text \<open>
  \<open>status\<close> is the state of the client's socket, \<open>due\<close> whether its reconnection timer is set,
  \<open>good\<close> an invariant of its steps.
\<close>

locale reconnecting =
  fixes status :: "'w \<Rightarrow> ready option" and due :: "'w \<Rightarrow> bool"
    and step :: "'w \<Rightarrow> 'w \<Rightarrow> bool" and good :: "'w \<Rightarrow> bool"
  assumes good_step: "good w \<Longrightarrow> step w w' \<Longrightarrow> good w'"
    and live: "good w \<Longrightarrow> status w \<noteq> None \<and> (status w = Some CLOSED \<longrightarrow> due w)"
    and opens: "good w \<Longrightarrow> status w = Some CONNECTING \<Longrightarrow> \<exists>w'. step w w' \<and> status w' = Some OPEN"
    and closes: "good w \<Longrightarrow> status w = Some CLOSING \<Longrightarrow> \<exists>w'. step w w' \<and> status w' = Some CLOSED"
    and retries: "good w \<Longrightarrow> status w = Some CLOSED \<Longrightarrow> due w \<Longrightarrow> \<exists>w'. step w w' \<and> status w' = Some CONNECTING"
begin

lemma from_connecting:
  "good w \<Longrightarrow> status w = Some CONNECTING \<Longrightarrow> \<exists>w'. step\<^sup>*\<^sup>* w w' \<and> good w' \<and> status w' = Some OPEN"
  using opens good_step by blast

lemma from_closed:
  assumes "good w" and "status w = Some CLOSED"
  shows "\<exists>w'. step\<^sup>*\<^sup>* w w' \<and> good w' \<and> status w' = Some OPEN"
proof -
  obtain u where u: "step w u" "status u = Some CONNECTING"
    using retries assms live by blast
  with assms(1) have "good u" by (blast intro: good_step)
  with u show ?thesis by (meson converse_rtranclp_into_rtranclp from_connecting)
qed

lemma comes_back:
  assumes "good w"
  shows "\<exists>w'. step\<^sup>*\<^sup>* w w' \<and> good w' \<and> status w' = Some OPEN"
proof -
  obtain r where r: "status w = Some r" using live [OF assms] by auto
  show ?thesis
  proof (cases r)
    case CLOSING
    with r obtain u where u: "step w u" "status u = Some CLOSED" using closes [OF assms] by auto
    with assms have "good u" by (blast intro: good_step)
    with u show ?thesis by (meson converse_rtranclp_into_rtranclp from_closed)
  qed (use r assms in \<open>auto intro: from_connecting from_closed\<close>)
qed

end

end
