(* ===== verification/Server_Client.thy ===== *)
theory Server_Client
  imports Base64 Socket "HOL-Library.Sublist" "HOL-Library.AList"
begin

text \<open>
  The connection to the sync server, \<open>web/src/network/server_client.ts\<close>: the socket and its handlers,
  the watchdog, the queue of changes and its copy in the local storage, the queue of signals, the
  resync and reconnection timers. The socket, the storage and the timers belong to the browser: the
  first section says what the client sees of them. A handler returns its effects in order.
\<close>

section \<open>The browser\<close>

text \<open>A message on a socket: text, or the bytes of an \<open>ArrayBuffer\<close>.\<close>

datatype frame = TextFrame string | BinaryFrame bytes

text \<open>
  \<open>localStorage\<close>: \<open>ls_denied\<close> makes every access throw, \<open>ls_full\<close> makes \<open>setItem\<close> throw. A
  value of this client is the JSON text of an array of strings, given as that array; \<open>BadJson\<close>
  is a text that is not one, \<open>EmptyText\<close> the empty text.
\<close>

datatype stored = EmptyText | BadJson | JsonArray "string list"

record local_storage =
  ls_denied :: bool
  ls_full :: bool
  ls_items :: "(string \<times> stored) list"

definition setItem :: "string \<Rightarrow> stored \<Rightarrow> local_storage \<Rightarrow> local_storage" where
  "setItem k v ls =
     (if ls_denied ls \<or> ls_full ls then ls else ls\<lparr>ls_items := AList.update k v (ls_items ls)\<rparr>)"

definition removeItem :: "string \<Rightarrow> local_storage \<Rightarrow> local_storage" where
  "removeItem k ls = (if ls_denied ls then ls else ls\<lparr>ls_items := AList.delete k (ls_items ls)\<rparr>)"

section \<open>State\<close>

record server_client =
  sv_url :: string
  sv_authToken :: "string option"
  sv_tabId :: string
  sv_ws :: "ready option"
  sv_projectId :: string
  sv_reconnectTimer :: bool
  sv_awaitingInitialDoc :: bool
  sv_lastActivity :: int
  sv_watchdogTimer :: bool
  sv_outbox :: "bytes list"
  sv_resyncTimer :: "nat option"
  sv_signalOutbox :: "string list"
  sv_storage :: local_storage

text \<open>What a handler does outside the object: frames, callbacks, and calls on the socket.\<close>

datatype effect =
    Send frame
  | OpenSocket string
  | CloseSocket
  | OnConnect
  | OnDisconnect
  | OnDocument bytes
  | OnChange bytes
  | OnSignal string
  | Resolved
  | Rejected

type_synonym action = "(server_client, effect) handler"

definition new_client :: "string \<Rightarrow> string option \<Rightarrow> string \<Rightarrow> local_storage \<Rightarrow> server_client" where
  "new_client url tok tab ls = \<lparr>sv_url = url, sv_authToken = tok, sv_tabId = tab, sv_ws = None,
     sv_projectId = [], sv_reconnectTimer = False, sv_awaitingInitialDoc = True, sv_lastActivity = 0,
     sv_watchdogTimer = False, sv_outbox = [], sv_resyncTimer = None, sv_signalOutbox = [],
     sv_storage = ls\<rparr>"

definition isConnected :: "server_client \<Rightarrow> bool" where
  "isConnected c \<longleftrightarrow> sv_ws c = Some OPEN"

definition pendingCount :: "server_client \<Rightarrow> nat" where
  "pendingCount c = length (sv_outbox c)"

section \<open>The queue of changes\<close>

definition key_prefix :: "server_client \<Rightarrow> string" where
  "key_prefix c = ''daw-outbox:'' @ sv_projectId c @ '':''"

definition storageKey :: "server_client \<Rightarrow> string" where
  "storageKey c = key_prefix c @ sv_tabId c"

definition persistOutbox :: "server_client \<Rightarrow> server_client" where
  "persistOutbox c =
     (if sv_outbox c = []
      then c\<lparr>sv_storage := removeItem (storageKey c) (sv_storage c)\<rparr>
      else c\<lparr>sv_storage := setItem (storageKey c) (JsonArray (map encodeBase64 (sv_outbox c))) (sv_storage c)\<rparr>)"

definition sendChange :: "bytes \<Rightarrow> action" where
  "sendChange ch c =
     (if sv_ws c = Some OPEN \<and> \<not> sv_awaitingInitialDoc c then ([Send (BinaryFrame ch)], c)
      else ([], persistOutbox (c\<lparr>sv_outbox := sv_outbox c @ [ch]\<rparr>)))"

text \<open>
  \<open>alive\<close> is the number of frames of the loop for which \<open>readyState\<close> is still \<open>OPEN\<close>; a socket
  that leaves that state in the loop is closing.
\<close>

definition flushOutbox :: "nat \<Rightarrow> action" where
  "flushOutbox alive c =
     (if sv_ws c \<noteq> Some OPEN \<or> sv_outbox c = [] then ([], c)
      else if alive < length (sv_outbox c)
      then (map (Send \<circ> BinaryFrame) (take alive (sv_outbox c)), c\<lparr>sv_ws := Some CLOSING\<rparr>)
      else (map (Send \<circ> BinaryFrame) (sv_outbox c), persistOutbox (c\<lparr>sv_outbox := []\<rparr>)))"

text \<open>
  The changes of the queues under the keys of other tabs: \<open>None\<close> when a text does not parse or
  does not decode, which throws.
\<close>

definition orphan_keys :: "server_client \<Rightarrow> string list" where
  "orphan_keys c = filter (\<lambda>k. prefix (key_prefix c) k \<and> k \<noteq> storageKey c) (map fst (ls_items (sv_storage c)))"

fun decode_all :: "string list \<Rightarrow> bytes list option" where
  "decode_all [] = Some []"
| "decode_all (b64 # r) = (case decodeBase64 b64 of
     None \<Rightarrow> None | Some b \<Rightarrow> map_option (\<lambda>bs. b # bs) (decode_all r))"

definition read_queue :: "stored option \<Rightarrow> bytes list option" where
  "read_queue raw = (case raw of
     None \<Rightarrow> Some []
   | Some EmptyText \<Rightarrow> Some []
   | Some BadJson \<Rightarrow> None
   | Some (JsonArray texts) \<Rightarrow> decode_all texts)"

fun read_queues :: "(string \<times> stored) list \<Rightarrow> string list \<Rightarrow> bytes list option" where
  "read_queues items [] = Some []"
| "read_queues items (k # ks) = (case read_queue (map_of items k) of
     None \<Rightarrow> None | Some q \<Rightarrow> map_option (\<lambda>qs. q @ qs) (read_queues items ks))"

definition remove_keys :: "string list \<Rightarrow> local_storage \<Rightarrow> local_storage" where
  "remove_keys ks ls = fold removeItem ks ls"

definition adoptOrphanOutboxes :: "server_client \<Rightarrow> server_client" where
  "adoptOrphanOutboxes c =
     (if ls_denied (sv_storage c) \<or> orphan_keys c = [] then c
      else (case read_queues (ls_items (sv_storage c)) (orphan_keys c) of
              None \<Rightarrow> c
            | Some adopted \<Rightarrow>
                (let c' = persistOutbox (c\<lparr>sv_outbox := adopted @ sv_outbox c\<rparr>)
                 in c'\<lparr>sv_storage := remove_keys (orphan_keys c) (sv_storage c')\<rparr>)))"

section \<open>Signals\<close>

definition sendSignal :: "string \<Rightarrow> action" where
  "sendSignal json c =
     (let text = ''signal:'' @ json
      in if sv_ws c = Some OPEN then ([Send (TextFrame text)], c)
         else ([], c\<lparr>sv_signalOutbox := sv_signalOutbox c @ [text]\<rparr>))"

definition flushSignals :: action where
  "flushSignals c =
     (if sv_ws c \<noteq> Some OPEN then ([], c)
      else (map (Send \<circ> TextFrame) (sv_signalOutbox c), c\<lparr>sv_signalOutbox := []\<rparr>))"

section \<open>Timers\<close>

definition WATCHDOG_INTERVAL_MS :: int where
  "WATCHDOG_INTERVAL_MS = 10000"

definition WATCHDOG_TIMEOUT_MS :: int where
  "WATCHDOG_TIMEOUT_MS = 45000"

definition startWatchdog :: "int \<Rightarrow> server_client \<Rightarrow> server_client" where
  "startWatchdog now c = c\<lparr>sv_lastActivity := now, sv_watchdogTimer := True\<rparr>"

definition stopWatchdog :: "server_client \<Rightarrow> server_client" where
  "stopWatchdog c = c\<lparr>sv_watchdogTimer := False\<rparr>"

text \<open>\<open>this.ws?.close()\<close>: a closed socket stays closed.\<close>

definition close_socket :: action where
  "close_socket c =
     (case sv_ws c of
        None \<Rightarrow> ([], c)
      | Some CLOSED \<Rightarrow> ([CloseSocket], c)
      | Some _ \<Rightarrow> ([CloseSocket], c\<lparr>sv_ws := Some CLOSING\<rparr>))"

definition watchdogFires :: "int \<Rightarrow> action" where
  "watchdogFires now = act_if (\<lambda>c. WATCHDOG_TIMEOUT_MS < now - sv_lastActivity c)
     (seq (act stopWatchdog) close_socket)"

definition requestResync :: "nat \<Rightarrow> server_client \<Rightarrow> server_client" where
  "requestResync delayMs c =
     (if sv_resyncTimer c \<noteq> None then c else c\<lparr>sv_resyncTimer := Some delayMs\<rparr>)"

definition resyncFires :: action where
  "resyncFires = seq (act (sv_resyncTimer_update (\<lambda>_. None))) close_socket"

definition scheduleReconnect :: "server_client \<Rightarrow> server_client" where
  "scheduleReconnect c = c\<lparr>sv_reconnectTimer := True\<rparr>"

section \<open>The connection\<close>

text \<open>\<open>valid_url\<close>: whether the constructor of the socket accepts the address.\<close>

definition connect :: "(string \<Rightarrow> bool) \<Rightarrow> string \<Rightarrow> action" where
  "connect valid_url projectId c =
     (let c = c\<lparr>sv_projectId := projectId\<rparr>;
          wsUrl = sv_url c @ ''/ws/'' @ projectId
      in if valid_url wsUrl then ([OpenSocket wsUrl], c\<lparr>sv_ws := Some CONNECTING\<rparr>)
         else ([Rejected], c))"

definition reconnectFires :: "(string \<Rightarrow> bool) \<Rightarrow> action" where
  "reconnectFires valid_url c = connect valid_url (sv_projectId c) (c\<lparr>sv_reconnectTimer := False\<rparr>)"

definition send_auth :: action where
  "send_auth c =
     (case sv_authToken c of
        None \<Rightarrow> ([], c)
      | Some tok \<Rightarrow> if tok = [] then ([], c) else ([Send (TextFrame (''auth:'' @ tok))], c))"

definition onopen :: "int \<Rightarrow> action" where
  "onopen now = do_all
     [act (sv_awaitingInitialDoc_update (\<lambda>_. True)),
      send_auth,
      act (startWatchdog now),
      flushSignals,
      emit OnConnect,
      emit Resolved]"

definition onclose :: action where
  "onclose = do_all [act stopWatchdog, emit OnDisconnect, act scheduleReconnect]"

definition onerror :: action where
  "onerror = emit Rejected"

text \<open>
  What a callback of the application calls on the client while it runs; \<open>valid_json\<close>: whether
  \<open>JSON.parse\<close> accepts the text. The listeners of a signal are one effect.
\<close>

datatype client_call = CallSend bytes | CallResync nat

fun do_call :: "client_call \<Rightarrow> action" where
  "do_call (CallSend ch) = sendChange ch"
| "do_call (CallResync ms) = act (requestResync ms)"

definition do_calls :: "client_call list \<Rightarrow> action" where
  "do_calls calls = do_all (map do_call calls)"

definition on_text :: "(string \<Rightarrow> bool) \<Rightarrow> string \<Rightarrow> action" where
  "on_text valid_json t c =
     (if prefix ''signal:'' t \<and> valid_json (drop 7 t) then ([OnSignal (drop 7 t)], c) else ([], c))"

definition on_binary :: "client_call list \<Rightarrow> nat \<Rightarrow> bytes \<Rightarrow> action" where
  "on_binary calls alive data c =
     (if sv_awaitingInitialDoc c
      then do_all
        [act (sv_awaitingInitialDoc_update (\<lambda>_. False)),
         emit (OnDocument data),
         do_calls calls,
         act adoptOrphanOutboxes,
         flushOutbox alive] c
      else seq (emit (OnChange data)) (do_calls calls) c)"

definition onmessage ::
  "(string \<Rightarrow> bool) \<Rightarrow> client_call list \<Rightarrow> nat \<Rightarrow> int \<Rightarrow> frame \<Rightarrow> action" where
  "onmessage valid_json calls alive now m =
     seq (act (sv_lastActivity_update (\<lambda>_. now)))
       (case m of
          TextFrame t \<Rightarrow> on_text valid_json t
        | BinaryFrame data \<Rightarrow> on_binary calls alive data)"

definition disconnect :: action where
  "disconnect = do_all
     [act stopWatchdog,
      act (sv_reconnectTimer_update (\<lambda>_. False)),
      act (sv_resyncTimer_update (\<lambda>_. None)),
      close_socket,
      act (sv_ws_update (\<lambda>_. None))]"

end
