(* ===== verification/Server_Run.thy ===== *)
theory Server_Run
  imports Server_Client
begin

text \<open>
  The life of the connection of \<open>Server_Client\<close>: the steps of the application, of the server, of the
  browser's timers and of the other tabs, as a step relation, with what was emitted and sent
  recorded. \<open>disconnect\<close> has no step here, since the application never calls it.
\<close>

section \<open>Worlds and steps\<close>

record server_world =
  wd_client :: server_client
  wd_emitted :: "bytes list"
  wd_sent :: "frame list"
  wd_conn :: "frame list"
  wd_doc :: bool
  wd_stored :: bool

fun frames_of :: "effect list \<Rightarrow> frame list" where
  "frames_of [] = []"
| "frames_of (Send f # es) = f # frames_of es"
| "frames_of (_ # es) = frames_of es"

fun binary_frames :: "frame list \<Rightarrow> bytes list" where
  "binary_frames [] = []"
| "binary_frames (BinaryFrame b # fs) = b # binary_frames fs"
| "binary_frames (TextFrame _ # fs) = binary_frames fs"

text \<open>Run a handler: its frames leave on the current connection.\<close>

definition run :: "action \<Rightarrow> server_world \<Rightarrow> server_world" where
  "run a w =
     (let (es, c) = a (wd_client w)
      in w\<lparr>wd_client := c, wd_sent := wd_sent w @ frames_of es, wd_conn := wd_conn w @ frames_of es\<rparr>)"

definition set_ready :: "ready \<Rightarrow> server_world \<Rightarrow> server_world" where
  "set_ready r = wd_client_update (sv_ws_update (\<lambda>_. Some r))"

definition ws_of :: "server_world \<Rightarrow> ready option" where
  "ws_of w = sv_ws (wd_client w)"

definition usable :: "local_storage \<Rightarrow> bool" where
  "usable ls \<longleftrightarrow> \<not> ls_denied ls \<and> \<not> ls_full ls"

text \<open>A tab that has just called \<open>connect\<close>; its id is fresh.\<close>

definition initial_world :: "string \<Rightarrow> string option \<Rightarrow> string \<Rightarrow> local_storage \<Rightarrow> string \<Rightarrow> server_world" where
  "initial_world url tok tab ls project =
     \<lparr>wd_client = snd (connect (\<lambda>_. True) project (new_client url tok tab ls)), wd_emitted = [], wd_sent = [],
      wd_conn = [], wd_doc = False, wd_stored = usable ls\<rparr>"

inductive server_step :: "server_world \<Rightarrow> server_world \<Rightarrow> bool" where
  opened: "ws_of w = Some CONNECTING \<Longrightarrow>
     server_step w (run (onopen now) (set_ready OPEN (w\<lparr>wd_conn := [], wd_doc := False\<rparr>)))"
| closing: "ws_of w = Some OPEN \<Longrightarrow> server_step w (set_ready CLOSING w)"
| closed: "ws_of w \<in> {Some CONNECTING, Some OPEN, Some CLOSING} \<Longrightarrow>
     server_step w (run onclose (set_ready CLOSED w))"
| received: "ws_of w = Some OPEN \<Longrightarrow>
     server_step w (run (onmessage valid_json calls alive now m)
       (w\<lparr>wd_doc := (case m of BinaryFrame _ \<Rightarrow> True | TextFrame _ \<Rightarrow> wd_doc w)\<rparr>))"
| change: "server_step w (run (sendChange ch) (w\<lparr>wd_emitted := wd_emitted w @ [ch]\<rparr>))"
| signal: "server_step w (run (sendSignal json) w)"
| resync_asked: "server_step w (run (act (requestResync ms)) w)"
| resync_due: "sv_resyncTimer (wd_client w) \<noteq> None \<Longrightarrow> server_step w (run resyncFires w)"
| watchdog_due: "sv_watchdogTimer (wd_client w) \<Longrightarrow> server_step w (run (watchdogFires now) w)"
| reconnect_due: "sv_reconnectTimer (wd_client w) \<Longrightarrow> server_step w (run (reconnectFires (\<lambda>_. True)) w)"
| other_tabs: "map_of (ls_items ls) (storageKey (wd_client w)) =
       map_of (ls_items (sv_storage (wd_client w))) (storageKey (wd_client w)) \<Longrightarrow>
     server_step w (w\<lparr>wd_client := (wd_client w)\<lparr>sv_storage := ls\<rparr>, wd_stored := wd_stored w \<and> usable ls\<rparr>)"

inductive server_reachable :: "server_world \<Rightarrow> bool" where
  start: "map_of (ls_items ls) (''daw-outbox:'' @ project @ '':'' @ tab) = None \<Longrightarrow>
     server_reachable (initial_world url tok tab ls project)"
| more: "server_reachable w \<Longrightarrow> server_step w w' \<Longrightarrow> server_reachable w'"

section \<open>What the handlers do\<close>

lemma frames_append [simp]: "frames_of (es @ es') = frames_of es @ frames_of es'"
  by (induction es rule: frames_of.induct) auto

lemma binary_append [simp]: "binary_frames (fs @ gs) = binary_frames fs @ binary_frames gs"
  by (induction fs rule: binary_frames.induct) auto

lemma frames_binary [simp]: "frames_of (map (Send \<circ> BinaryFrame) bs) = map BinaryFrame bs"
  by (induction bs) auto

lemma frames_text [simp]: "frames_of (map (Send \<circ> TextFrame) ts) = map TextFrame ts"
  by (induction ts) auto

lemma binary_of_binary [simp]: "binary_frames (map BinaryFrame bs) = bs"
  by (induction bs) auto

lemma binary_of_text [simp]: "binary_frames (map TextFrame ts) = []"
  by (induction ts) auto

text \<open>The parts of the state that only a few handlers touch.\<close>

lemma persistOutbox_same [simp]:
  "sv_ws (persistOutbox c) = sv_ws c" "sv_outbox (persistOutbox c) = sv_outbox c"
  "sv_awaitingInitialDoc (persistOutbox c) = sv_awaitingInitialDoc c"
  "sv_reconnectTimer (persistOutbox c) = sv_reconnectTimer c"
  "sv_watchdogTimer (persistOutbox c) = sv_watchdogTimer c"
  "sv_authToken (persistOutbox c) = sv_authToken c" "sv_projectId (persistOutbox c) = sv_projectId c"
  "sv_tabId (persistOutbox c) = sv_tabId c" "sv_url (persistOutbox c) = sv_url c"
  "storageKey (persistOutbox c) = storageKey c" "key_prefix (persistOutbox c) = key_prefix c"
  by (simp_all add: persistOutbox_def storageKey_def key_prefix_def)

lemma adopt_same [simp]:
  "sv_ws (adoptOrphanOutboxes c) = sv_ws c"
  "sv_awaitingInitialDoc (adoptOrphanOutboxes c) = sv_awaitingInitialDoc c"
  "sv_reconnectTimer (adoptOrphanOutboxes c) = sv_reconnectTimer c"
  "sv_watchdogTimer (adoptOrphanOutboxes c) = sv_watchdogTimer c"
  "sv_authToken (adoptOrphanOutboxes c) = sv_authToken c"
  "sv_projectId (adoptOrphanOutboxes c) = sv_projectId c"
  "sv_tabId (adoptOrphanOutboxes c) = sv_tabId c" "sv_url (adoptOrphanOutboxes c) = sv_url c"
  "storageKey (adoptOrphanOutboxes c) = storageKey c"
  by (simp_all add: adoptOrphanOutboxes_def storageKey_def key_prefix_def Let_def split: option.splits)

lemma adopt_outbox: "\<exists>adopted. sv_outbox (adoptOrphanOutboxes c) = adopted @ sv_outbox c"
  by (auto simp: adoptOrphanOutboxes_def Let_def split: option.splits)

text \<open>A composite handler runs its parts in order.\<close>

lemma run_seq [simp]: "run (seq a b) w = run b (run a w)"
  by (simp add: run_def seq_def split: prod.splits)

lemma run_do_all: "run (do_all as) w = fold run as w"
proof (induction as arbitrary: w)
  case Nil
  then show ?case by (simp add: run_def do_all_def nothing_def)
next
  case (Cons a as)
  then show ?case by (simp add: do_all_def)
qed

lemma run_act [simp]: "run (act f) w = wd_client_update f w"
  by (simp add: run_def act_def)

lemma run_emit_Send: "run (emit (Send f)) w = w\<lparr>wd_sent := wd_sent w @ [f], wd_conn := wd_conn w @ [f]\<rparr>"
  by (simp add: run_def emit_def)

lemma run_emit [simp]: "frames_of [e] = [] \<Longrightarrow> run (emit e) w = w"
  by (simp add: run_def emit_def)

lemma run_act_if: "run (act_if P a) w = (if P (wd_client w) then run a w else w)"
  by (simp add: run_def act_if_def)

lemma run_sendChange: "run (sendChange ch) w =
   (if ws_of w = Some OPEN \<and> \<not> sv_awaitingInitialDoc (wd_client w)
    then w\<lparr>wd_sent := wd_sent w @ [BinaryFrame ch], wd_conn := wd_conn w @ [BinaryFrame ch]\<rparr>
    else wd_client_update (\<lambda>c. persistOutbox (c\<lparr>sv_outbox := sv_outbox c @ [ch]\<rparr>)) w)"
  by (simp add: run_def sendChange_def ws_of_def)

lemma run_flush: "run (flushOutbox alive) w =
   (let c = wd_client w; n = length (sv_outbox c); out = map BinaryFrame (take alive (sv_outbox c)) in
    if ws_of w \<noteq> Some OPEN \<or> n = 0 then w
    else if alive < n
    then w\<lparr>wd_client := c\<lparr>sv_ws := Some CLOSING\<rparr>, wd_sent := wd_sent w @ out, wd_conn := wd_conn w @ out\<rparr>
    else w\<lparr>wd_client := persistOutbox (c\<lparr>sv_outbox := []\<rparr>), wd_sent := wd_sent w @ out,
      wd_conn := wd_conn w @ out\<rparr>)"
  by (simp add: run_def flushOutbox_def ws_of_def Let_def)

lemma run_close: "run close_socket w =
   (if ws_of w \<in> {None, Some CLOSED} then w else set_ready CLOSING w)"
  by (auto simp: run_def close_socket_def ws_of_def set_ready_def split: option.splits ready.splits)

lemma run_signal: "run (sendSignal json) w =
   (if ws_of w = Some OPEN
    then w\<lparr>wd_sent := wd_sent w @ [TextFrame (''signal:'' @ json)],
      wd_conn := wd_conn w @ [TextFrame (''signal:'' @ json)]\<rparr>
    else wd_client_update (\<lambda>c. c\<lparr>sv_signalOutbox := sv_signalOutbox c @ [''signal:'' @ json]\<rparr>) w)"
  by (simp add: run_def sendSignal_def ws_of_def Let_def)

lemma run_flushSignals: "run flushSignals w =
   (let out = map TextFrame (sv_signalOutbox (wd_client w)) in
    if ws_of w \<noteq> Some OPEN then w
    else w\<lparr>wd_client := (wd_client w)\<lparr>sv_signalOutbox := []\<rparr>, wd_sent := wd_sent w @ out,
      wd_conn := wd_conn w @ out\<rparr>)"
  by (simp add: run_def flushSignals_def ws_of_def Let_def)

lemma run_auth: "run send_auth w =
   (case sv_authToken (wd_client w) of
      None \<Rightarrow> w
    | Some tok \<Rightarrow> if tok = [] then w
        else w\<lparr>wd_sent := wd_sent w @ [TextFrame (''auth:'' @ tok)],
          wd_conn := wd_conn w @ [TextFrame (''auth:'' @ tok)]\<rparr>)"
  by (simp add: run_def send_auth_def split: option.splits)

lemma run_on_text: "run (on_text valid_json t) w = w"
  by (simp add: run_def on_text_def)

lemma run_on_binary: "run (on_binary calls alive data) w =
   (if sv_awaitingInitialDoc (wd_client w)
    then run (flushOutbox alive) (wd_client_update adoptOrphanOutboxes (run (do_calls calls)
      (wd_client_update (sv_awaitingInitialDoc_update (\<lambda>_. False)) w)))
    else run (do_calls calls) w)"
proof (cases "sv_awaitingInitialDoc (wd_client w)")
  case True
  then have "run (on_binary calls alive data) w = run (do_all
      [act (sv_awaitingInitialDoc_update (\<lambda>_. False)), emit (OnDocument data), do_calls calls,
       act adoptOrphanOutboxes, flushOutbox alive]) w"
    by (simp add: run_def on_binary_def)
  with True show ?thesis by (simp add: run_do_all)
next
  case False
  then have "run (on_binary calls alive data) w = run (seq (emit (OnChange data)) (do_calls calls)) w"
    by (simp add: run_def on_binary_def)
  with False show ?thesis by simp
qed

lemma run_calls: "run (do_calls calls) w = fold (\<lambda>call. run (do_call call)) calls w"
  by (simp add: do_calls_def run_do_all fold_map comp_def)

lemma run_onopen: "run (onopen now) w =
   run flushSignals (wd_client_update (startWatchdog now) (run send_auth
     (wd_client_update (sv_awaitingInitialDoc_update (\<lambda>_. True)) w)))"
  by (simp add: onopen_def run_do_all)

lemma run_onclose: "run onclose w = wd_client_update (scheduleReconnect \<circ> stopWatchdog) w"
  by (simp add: onclose_def run_do_all)

lemma run_onmessage: "run (onmessage valid_json calls alive now m) w =
   (let w' = wd_client_update (sv_lastActivity_update (\<lambda>_. now)) w
    in case m of TextFrame t \<Rightarrow> w' | BinaryFrame data \<Rightarrow> run (on_binary calls alive data) w')"
  by (simp add: onmessage_def run_on_text split: frame.splits)

lemma run_resync: "run resyncFires w = run close_socket (wd_client_update (sv_resyncTimer_update (\<lambda>_. None)) w)"
  by (simp add: resyncFires_def)

lemma run_watchdog: "run (watchdogFires now) w =
   (if WATCHDOG_TIMEOUT_MS < now - sv_lastActivity (wd_client w)
    then run close_socket (wd_client_update stopWatchdog w) else w)"
  by (simp add: watchdogFires_def run_act_if)

lemma run_reconnect: "run (reconnectFires (\<lambda>_. True)) w =
   wd_client_update (\<lambda>c. c\<lparr>sv_reconnectTimer := False, sv_ws := Some CONNECTING\<rparr>) w"
  by (simp add: run_def reconnectFires_def connect_def Let_def)

lemmas run_simps = run_sendChange run_flush run_close run_signal run_flushSignals run_auth run_on_binary
  run_onopen run_onclose run_onmessage run_resync run_watchdog run_reconnect

section \<open>Invariants\<close>

text \<open>Nothing is lost and the order is kept; the queue is empty once the initial document is in.\<close>

definition delivered :: "server_world \<Rightarrow> bool" where
  "delivered w \<longleftrightarrow> subseq (wd_emitted w) (binary_frames (wd_sent w) @ sv_outbox (wd_client w))"

definition drained :: "server_world \<Rightarrow> bool" where
  "drained w \<longleftrightarrow> (ws_of w = Some OPEN \<and> \<not> sv_awaitingInitialDoc (wd_client w) \<longrightarrow> sv_outbox (wd_client w) = [])"

text \<open>No change leaves on a connection before the initial document of that connection.\<close>

definition patient :: "server_world \<Rightarrow> bool" where
  "patient w \<longleftrightarrow> (wd_doc w \<or> (ws_of w = Some OPEN \<longrightarrow> sv_awaitingInitialDoc (wd_client w)) \<and> binary_frames (wd_conn w) = [])"

definition authenticated :: "server_world \<Rightarrow> bool" where
  "authenticated w \<longleftrightarrow> (\<forall>tok. sv_authToken (wd_client w) = Some tok \<longrightarrow> tok \<noteq> [] \<longrightarrow>
     (ws_of w = Some OPEN \<longrightarrow> wd_conn w \<noteq> []) \<and> (wd_conn w \<noteq> [] \<longrightarrow> hd (wd_conn w) = TextFrame (''auth:'' @ tok)))"

text \<open>The socket is on its way, or a reconnection is scheduled; an open socket is watched.\<close>

definition alive_socket :: "server_world \<Rightarrow> bool" where
  "alive_socket w \<longleftrightarrow> ws_of w \<noteq> None \<and> (ws_of w = Some CLOSED \<longleftrightarrow> sv_reconnectTimer (wd_client w)) \<and>
     (ws_of w = Some OPEN \<longrightarrow> sv_watchdogTimer (wd_client w))"

text \<open>The local storage holds the queue, as long as it was usable.\<close>

definition queue_copy :: "bytes list \<Rightarrow> stored option" where
  "queue_copy q = (if q = [] then None else Some (JsonArray (map encodeBase64 q)))"

definition mirrored :: "server_world \<Rightarrow> bool" where
  "mirrored w \<longleftrightarrow> (let c = wd_client w in wd_stored w \<longrightarrow> usable (sv_storage c) \<and>
     map_of (ls_items (sv_storage c)) (storageKey c) = queue_copy (sv_outbox c))"

lemma subseq_between: "subseq e (s @ r) \<Longrightarrow> subseq e (s @ m @ r)"
  by (rule subseq_order.trans) (auto intro: list_emb_append_mono subseq_drop_many)

lemma subseq_between_one: "subseq e (s @ r) \<Longrightarrow> subseq e (s @ x # r)"
  using subseq_between [of e s r "[x]"] by simp

lemma subseq_end: "subseq e (s @ r) \<Longrightarrow> subseq e (s @ r @ m)"
  using subseq_rev_drop_many [of e "s @ r" m] by simp

lemma call_delivered: "delivered w \<Longrightarrow> delivered (run (do_call call) w)"
  by (cases call) (auto simp: delivered_def run_sendChange requestResync_def
      intro: subseq_between_one subseq_end)

lemma call_same:
  "ws_of (run (do_call call) w) = ws_of w"
  "sv_awaitingInitialDoc (wd_client (run (do_call call) w)) = sv_awaitingInitialDoc (wd_client w)"
  "wd_doc (run (do_call call) w) = wd_doc w"
  "sv_authToken (wd_client (run (do_call call) w)) = sv_authToken (wd_client w)"
  "sv_reconnectTimer (wd_client (run (do_call call) w)) = sv_reconnectTimer (wd_client w)"
  "sv_watchdogTimer (wd_client (run (do_call call) w)) = sv_watchdogTimer (wd_client w)"
  "storageKey (wd_client (run (do_call call) w)) = storageKey (wd_client w)"
  "wd_stored (run (do_call call) w) = wd_stored w"
  by (cases call; simp add: run_sendChange requestResync_def ws_of_def storageKey_def key_prefix_def)+

lemma calls_keep:
  assumes "\<And>call w. I w \<Longrightarrow> I (run (do_call call) w)" and "I w"
  shows "I (run (do_calls calls) w)"
  using assms(2) unfolding run_calls by (induction calls arbitrary: w) (auto intro: assms(1))

lemma calls_same [simp]:
  "ws_of (run (do_calls calls) w) = ws_of w"
  "sv_awaitingInitialDoc (wd_client (run (do_calls calls) w)) = sv_awaitingInitialDoc (wd_client w)"
  "wd_doc (run (do_calls calls) w) = wd_doc w"
  "sv_authToken (wd_client (run (do_calls calls) w)) = sv_authToken (wd_client w)"
  "sv_reconnectTimer (wd_client (run (do_calls calls) w)) = sv_reconnectTimer (wd_client w)"
  "sv_watchdogTimer (wd_client (run (do_calls calls) w)) = sv_watchdogTimer (wd_client w)"
  "storageKey (wd_client (run (do_calls calls) w)) = storageKey (wd_client w)"
  "wd_stored (run (do_calls calls) w) = wd_stored w"
proof -
  have "ws_of (run (do_calls calls) w) = ws_of w \<and> wd_doc (run (do_calls calls) w) = wd_doc w \<and>
    wd_stored (run (do_calls calls) w) = wd_stored w \<and>
    sv_awaitingInitialDoc (wd_client (run (do_calls calls) w)) = sv_awaitingInitialDoc (wd_client w) \<and>
    sv_authToken (wd_client (run (do_calls calls) w)) = sv_authToken (wd_client w) \<and>
    sv_reconnectTimer (wd_client (run (do_calls calls) w)) = sv_reconnectTimer (wd_client w) \<and>
    sv_watchdogTimer (wd_client (run (do_calls calls) w)) = sv_watchdogTimer (wd_client w) \<and>
    storageKey (wd_client (run (do_calls calls) w)) = storageKey (wd_client w)"
    by (rule calls_keep) (simp_all add: call_same)
  then show "ws_of (run (do_calls calls) w) = ws_of w"
    "sv_awaitingInitialDoc (wd_client (run (do_calls calls) w)) = sv_awaitingInitialDoc (wd_client w)"
    "wd_doc (run (do_calls calls) w) = wd_doc w"
    "sv_authToken (wd_client (run (do_calls calls) w)) = sv_authToken (wd_client w)"
    "sv_reconnectTimer (wd_client (run (do_calls calls) w)) = sv_reconnectTimer (wd_client w)"
    "sv_watchdogTimer (wd_client (run (do_calls calls) w)) = sv_watchdogTimer (wd_client w)"
    "storageKey (wd_client (run (do_calls calls) w)) = storageKey (wd_client w)"
    "wd_stored (run (do_calls calls) w) = wd_stored w"
    by simp_all
qed

text \<open>The updates that leave an invariant alone.\<close>

lemma ws_of_client [simp]: "ws_of (w\<lparr>wd_client := c\<rparr>) = sv_ws c"
  "ws_of (wd_client_update f w) = sv_ws (f (wd_client w))"
  "ws_of (set_ready r w) = Some r"
  "ws_of (w\<lparr>wd_sent := x\<rparr>) = ws_of w" "ws_of (w\<lparr>wd_conn := x\<rparr>) = ws_of w"
  "ws_of (w\<lparr>wd_emitted := y\<rparr>) = ws_of w" "ws_of (w\<lparr>wd_doc := d\<rparr>) = ws_of w"
  "ws_of (w\<lparr>wd_stored := d\<rparr>) = ws_of w"
  by (simp_all add: ws_of_def set_ready_def)

lemma sv_ws_of [simp]: "sv_ws (wd_client w) = ws_of w"
  by (simp add: ws_of_def)

lemma set_ready_same [simp]:
  "wd_sent (set_ready r w) = wd_sent w" "wd_emitted (set_ready r w) = wd_emitted w"
  "wd_conn (set_ready r w) = wd_conn w" "wd_doc (set_ready r w) = wd_doc w" "wd_stored (set_ready r w) = wd_stored w"
  "wd_client (set_ready r w) = (wd_client w)\<lparr>sv_ws := Some r\<rparr>"
  by (simp_all add: set_ready_def)

lemma step_delivered:
  assumes "server_step w w'" and "delivered w" and "drained w"
  shows "delivered w'"
  using assms
proof cases
  case (received valid_json calls alive now m)
  have adopt: "delivered (wd_client_update adoptOrphanOutboxes u)" if "delivered u" for u
    using that adopt_outbox [of "wd_client u"] by (auto simp: delivered_def intro: subseq_between)
  have flush: "delivered (run (flushOutbox alive) u)" if "delivered u" for u
    using that
      subseq_between [of "wd_emitted u" "binary_frames (wd_sent u)" "sv_outbox (wd_client u)"
        "take alive (sv_outbox (wd_client u))"]
    by (auto simp: delivered_def run_flush Let_def)
  have calls: "delivered (run (do_calls calls) u)" if "delivered u" for u
    by (rule calls_keep [where I = delivered]) (auto intro: call_delivered that)
  have "delivered (wd_client_update f u)" if "delivered u" "sv_outbox (f (wd_client u)) = sv_outbox (wd_client u)" for f u
    using that by (simp add: delivered_def)
  note upd = this
  show ?thesis using received(1) assms(2)
    by (cases m)
      (auto simp: run_onmessage run_on_binary Let_def intro!: adopt flush calls upd, simp_all add: delivered_def)
next
  case (change ch)
  have s: "subseq (wd_emitted w @ [ch]) ((binary_frames (wd_sent w) @ sv_outbox (wd_client w)) @ [ch])"
    using assms(2) unfolding delivered_def by (intro list_emb_append_mono) auto
  then show ?thesis
    using assms(3) change by (auto simp: delivered_def drained_def run_sendChange)
qed (auto simp: delivered_def run_simps Let_def startWatchdog_def scheduleReconnect_def stopWatchdog_def requestResync_def
  intro: subseq_between split: option.splits)

lemma call_drained: "drained w \<Longrightarrow> drained (run (do_call call) w)"
  by (cases call) (auto simp: drained_def run_sendChange requestResync_def)

lemma flush_drained: "drained (run (flushOutbox alive) w)"
  by (auto simp: drained_def run_flush Let_def)

lemma step_drained:
  assumes "server_step w w'" and "drained w"
  shows "drained w'"
  using assms
proof cases
  case (received valid_json calls alive now m)
  have calls: "drained (run (do_calls calls) u)" if "drained u" for u
    by (rule calls_keep [where I = drained]) (auto intro: call_drained that)
  show ?thesis using received(1) assms(2)
    by (cases m)
      (auto simp: run_onmessage run_on_binary Let_def intro!: flush_drained calls, simp_all add: drained_def)
qed (auto simp: drained_def run_simps Let_def startWatchdog_def scheduleReconnect_def stopWatchdog_def
    requestResync_def set_ready_def split: option.splits)

lemma call_patient: "patient w \<Longrightarrow> patient (run (do_call call) w)"
  by (cases call) (auto simp: patient_def run_sendChange requestResync_def)

lemma step_patient:
  assumes "server_step w w'" and "patient w"
  shows "patient w'"
  using assms
proof cases
  case (received valid_json calls alive now m)
  have flush: "wd_doc (run (flushOutbox alive) u) = wd_doc u" for u
    by (simp add: run_flush Let_def)
  show ?thesis using received(1) assms(2)
    by (cases m) (auto simp: patient_def run_onmessage run_on_binary Let_def flush)
qed (auto simp: patient_def run_simps Let_def startWatchdog_def scheduleReconnect_def stopWatchdog_def
    requestResync_def set_ready_def split: option.splits)

lemma call_authenticated: "authenticated w \<Longrightarrow> authenticated (run (do_call call) w)"
  by (cases call) (auto simp: authenticated_def run_sendChange requestResync_def)

lemma step_authenticated:
  assumes "server_step w w'" and "authenticated w"
  shows "authenticated w'"
  using assms
proof cases
  case (received valid_json calls alive now m)
  have flush: "authenticated (run (flushOutbox alive) u)" if "authenticated u" for u
    using that by (auto simp: authenticated_def run_flush Let_def)
  have calls: "authenticated (run (do_calls calls) u)" if "authenticated u" for u
    by (rule calls_keep [where I = authenticated]) (auto intro: call_authenticated that)
  have upd: "authenticated (wd_client_update f u)"
    if "authenticated u" "sv_authToken (f (wd_client u)) = sv_authToken (wd_client u)" "sv_ws (f (wd_client u)) = sv_ws (wd_client u)"
    for f u
    using that by (simp add: authenticated_def)
  show ?thesis using received(1) assms(2)
    by (cases m)
      (auto simp: run_onmessage run_on_binary Let_def intro!: flush calls upd, simp_all add: authenticated_def)
qed (auto simp: authenticated_def run_simps Let_def startWatchdog_def scheduleReconnect_def stopWatchdog_def
    requestResync_def set_ready_def split: option.splits)

lemma step_alive:
  assumes "server_step w w'" and "alive_socket w"
  shows "alive_socket w'"
  using assms
proof cases
  case (received valid_json calls alive now m)
  have flush: "alive_socket (run (flushOutbox alive) u)" if "alive_socket u" for u
    using that by (auto simp: alive_socket_def run_flush Let_def)
  show ?thesis using received(1) assms(2)
    by (cases m)
      (auto simp: run_onmessage run_on_binary Let_def intro!: flush, simp_all add: alive_socket_def)
qed (auto simp: alive_socket_def run_simps Let_def startWatchdog_def scheduleReconnect_def stopWatchdog_def
    requestResync_def set_ready_def split: option.splits)

section \<open>The copy of the queue in the storage\<close>

lemma map_of_delete: "map_of (AList.delete k xs) = (map_of xs)(k := None)"
  by (simp add: delete_conv')

lemma map_of_removeItem:
  "\<not> ls_denied ls \<Longrightarrow> map_of (ls_items (removeItem k ls)) = (map_of (ls_items ls))(k := None)"
  by (simp add: removeItem_def map_of_delete)

lemma removeItem_flags [simp]:
  "ls_denied (removeItem k ls) = ls_denied ls" "ls_full (removeItem k ls) = ls_full ls"
  by (simp_all add: removeItem_def)

lemma setItem_flags [simp]:
  "ls_denied (setItem k v ls) = ls_denied ls" "ls_full (setItem k v ls) = ls_full ls"
  by (simp_all add: setItem_def)

lemma remove_keys_flags [simp]:
  "ls_denied (remove_keys ks ls) = ls_denied ls" "ls_full (remove_keys ks ls) = ls_full ls"
  unfolding remove_keys_def by (induction ks arbitrary: ls) simp_all

lemma map_of_remove_keys:
  "\<not> ls_denied ls \<Longrightarrow> map_of (ls_items (remove_keys ks ls)) k = (if k \<in> set ks then None else map_of (ls_items ls) k)"
  unfolding remove_keys_def by (induction ks arbitrary: ls) (auto simp: map_of_removeItem)

lemma usable_persist [simp]: "usable (sv_storage (persistOutbox c)) = usable (sv_storage c)"
  by (simp add: persistOutbox_def usable_def)

text \<open>\<open>persistOutbox\<close> makes the copy, and the adoption keeps it.\<close>

lemma persist_copies:
  "usable (sv_storage c) \<Longrightarrow>
   map_of (ls_items (sv_storage (persistOutbox c))) (storageKey c) = queue_copy (sv_outbox c)"
  by (simp add: persistOutbox_def queue_copy_def usable_def map_of_removeItem setItem_def update_conv')

lemma own_key_not_orphan: "storageKey c \<notin> set (orphan_keys c)"
  by (simp add: orphan_keys_def)

lemma adopt_copies:
  assumes "usable (sv_storage c)"
    and "map_of (ls_items (sv_storage c)) (storageKey c) = queue_copy (sv_outbox c)"
  shows "usable (sv_storage (adoptOrphanOutboxes c))"
    and "map_of (ls_items (sv_storage (adoptOrphanOutboxes c))) (storageKey c)
      = queue_copy (sv_outbox (adoptOrphanOutboxes c))"
proof -
  have k: "storageKey (c\<lparr>sv_outbox := q\<rparr>) = storageKey c" for q
    by (simp add: storageKey_def key_prefix_def)
  have p: "usable (sv_storage (persistOutbox (c\<lparr>sv_outbox := q\<rparr>)))" for q
    using assms(1) by simp
  have q: "map_of (ls_items (sv_storage (persistOutbox (c\<lparr>sv_outbox := q\<rparr>)))) (storageKey c) = queue_copy q" for q
    using persist_copies [of "c\<lparr>sv_outbox := q\<rparr>"] assms(1) by (simp add: k)
  show "usable (sv_storage (adoptOrphanOutboxes c))"
    using assms(1) p by (auto simp: adoptOrphanOutboxes_def Let_def usable_def split: option.splits)
  show "map_of (ls_items (sv_storage (adoptOrphanOutboxes c))) (storageKey c)
      = queue_copy (sv_outbox (adoptOrphanOutboxes c))"
    using assms p q own_key_not_orphan [of c]
    by (auto simp: adoptOrphanOutboxes_def Let_def map_of_remove_keys usable_def split: option.splits)
qed

lemma mirrored_client:
  assumes "mirrored w" and "sv_storage (f (wd_client w)) = sv_storage (wd_client w)"
    and "storageKey (f (wd_client w)) = storageKey (wd_client w)" and "sv_outbox (f (wd_client w)) = sv_outbox (wd_client w)"
  shows "mirrored (wd_client_update f w)"
  using assms by (simp add: mirrored_def Let_def)

lemma persist_mirrored:
  assumes "wd_stored w \<longrightarrow> usable (sv_storage (wd_client w))"
  shows "mirrored (wd_client_update persistOutbox w)"
  using assms persist_copies [of "wd_client w"] by (simp add: mirrored_def Let_def)

lemma call_mirrored: "mirrored w \<Longrightarrow> mirrored (run (do_call call) w)"
proof (cases call)
  case (CallSend ch)
  assume m: "mirrored w"
  have "mirrored (wd_client_update persistOutbox (wd_client_update (\<lambda>c. c\<lparr>sv_outbox := sv_outbox c @ [ch]\<rparr>) w))"
    using m by (intro persist_mirrored) (simp add: mirrored_def Let_def)
  then show ?thesis
    using m CallSend by (auto simp: run_sendChange mirrored_def Let_def)
next
  case (CallResync ms)
  assume "mirrored w"
  then show ?thesis
    using CallResync by (auto intro!: mirrored_client simp: requestResync_def storageKey_def key_prefix_def)
qed

lemma key_fields [simp]:
  "storageKey (c\<lparr>sv_ws := a\<rparr>) = storageKey c" "storageKey (c\<lparr>sv_awaitingInitialDoc := b\<rparr>) = storageKey c"
  "storageKey (c\<lparr>sv_watchdogTimer := b\<rparr>) = storageKey c" "storageKey (c\<lparr>sv_lastActivity := i\<rparr>) = storageKey c"
  "storageKey (c\<lparr>sv_reconnectTimer := b\<rparr>) = storageKey c" "storageKey (c\<lparr>sv_resyncTimer := t\<rparr>) = storageKey c"
  "storageKey (c\<lparr>sv_signalOutbox := g\<rparr>) = storageKey c" "storageKey (c\<lparr>sv_storage := ls\<rparr>) = storageKey c"
  "storageKey (c\<lparr>sv_outbox := q\<rparr>) = storageKey c"
  by (simp_all add: storageKey_def key_prefix_def)

lemma step_mirrored:
  assumes "server_step w w'" and "mirrored w"
  shows "mirrored w'"
  using assms
proof cases
  case (received valid_json calls alive now m)
  have adopt: "mirrored (wd_client_update adoptOrphanOutboxes u)" if "mirrored u" for u
    using that adopt_copies [of "wd_client u"] by (simp add: mirrored_def Let_def)
  have flush: "mirrored (run (flushOutbox alive) u)" if m: "mirrored u" for u
  proof -
    have "mirrored (wd_client_update persistOutbox (wd_client_update (\<lambda>c. c\<lparr>sv_outbox := []\<rparr>) u))"
      using m by (intro persist_mirrored) (simp add: mirrored_def Let_def)
    then show ?thesis using m by (auto simp: run_flush mirrored_def Let_def)
  qed
  have calls: "mirrored (run (do_calls calls) u)" if "mirrored u" for u
    by (rule calls_keep [where I = mirrored]) (auto intro: call_mirrored that)
  show ?thesis using received(1) assms(2)
    by (cases m)
      (auto simp: run_onmessage run_on_binary Let_def intro!: adopt flush calls mirrored_client,
        simp_all add: mirrored_def)
next
  case (change ch)
  have "mirrored (run (do_call (CallSend ch)) (w\<lparr>wd_emitted := wd_emitted w @ [ch]\<rparr>))"
    using assms(2) by (intro call_mirrored) (simp add: mirrored_def)
  then show ?thesis using change by simp
next
  case (resync_asked ms)
  then show ?thesis using call_mirrored [OF assms(2), of "CallResync ms"] by simp
qed (auto simp: mirrored_def run_simps Let_def startWatchdog_def scheduleReconnect_def stopWatchdog_def
    split: option.splits)

section \<open>What holds in every reachable world\<close>

definition world_ok :: "server_world \<Rightarrow> bool" where
  "world_ok w \<longleftrightarrow> delivered w \<and> drained w \<and> patient w \<and> authenticated w \<and> alive_socket w \<and> mirrored w"

lemma reachable_ok: "server_reachable w \<Longrightarrow> world_ok w"
proof (induction rule: server_reachable.induct)
  case (start ls project tab url tok)
  then show ?case
    by (simp add: world_ok_def initial_world_def connect_def new_client_def Let_def delivered_def drained_def
        patient_def authenticated_def alive_socket_def mirrored_def queue_copy_def ws_of_def storageKey_def
        key_prefix_def)
next
  case (more w w')
  then show ?case
    unfolding world_ok_def
    by (blast intro: step_delivered step_drained step_patient step_authenticated step_alive step_mirrored)
qed

section \<open>Coming back\<close>

text \<open>A step of the network, the browser or another tab, in which the application emits nothing.\<close>

definition silent_step :: "server_world \<Rightarrow> server_world \<Rightarrow> bool" where
  "silent_step w w' \<longleftrightarrow> server_step w w' \<and> wd_emitted w' = wd_emitted w"

lemma run_emitted [simp]: "wd_emitted (run a w) = wd_emitted w"
  by (simp add: run_def split: prod.splits)

lemma ws_handlers [simp]:
  "ws_of (run (onopen now) w) = ws_of w" "ws_of (run onclose w) = ws_of w"
  "ws_of (run (reconnectFires (\<lambda>_. True)) w) = Some CONNECTING"
  by (simp_all add: run_onopen run_auth run_flushSignals run_onclose run_reconnect Let_def
      startWatchdog_def scheduleReconnect_def stopWatchdog_def split: option.splits)

interpretation sv: reconnecting ws_of "\<lambda>w. sv_reconnectTimer (wd_client w)" silent_step server_reachable
proof
  fix w w' :: server_world
  show "server_reachable w \<Longrightarrow> silent_step w w' \<Longrightarrow> server_reachable w'"
    unfolding silent_step_def by (blast intro: server_reachable.more)
  show "server_reachable w \<Longrightarrow> ws_of w \<noteq> None \<and> (ws_of w = Some CLOSED \<longrightarrow> sv_reconnectTimer (wd_client w))"
    using reachable_ok [of w] by (simp add: world_ok_def alive_socket_def)
  show "\<exists>w'. silent_step w w' \<and> ws_of w' = Some OPEN" if "ws_of w = Some CONNECTING"
  proof -
    have "silent_step w (run (onopen 0) (set_ready OPEN (w\<lparr>wd_conn := [], wd_doc := False\<rparr>)))"
      using server_step.opened [OF that, of 0] by (simp add: silent_step_def)
    then show ?thesis by (metis ws_handlers ws_of_client(3))
  qed
  show "\<exists>w'. silent_step w w' \<and> ws_of w' = Some CLOSED" if "ws_of w = Some CLOSING"
  proof -
    have "silent_step w (run onclose (set_ready CLOSED w))"
      using server_step.closed [of w] that by (simp add: silent_step_def)
    then show ?thesis by (metis ws_handlers ws_of_client(3))
  qed
  show "\<exists>w'. silent_step w w' \<and> ws_of w' = Some CONNECTING" if "sv_reconnectTimer (wd_client w)"
  proof -
    have "silent_step w (run (reconnectFires (\<lambda>_. True)) w)"
      using server_step.reconnect_due [OF that] by (simp add: silent_step_def)
    then show ?thesis by (metis ws_handlers ws_of_client(3))
  qed
qed

lemma silent_emitted: "silent_step\<^sup>*\<^sup>* w w' \<Longrightarrow> wd_emitted w' = wd_emitted w"
  by (induction rule: rtranclp.induct) (simp_all add: silent_step_def)

text \<open>On an open socket the initial document empties the queue.\<close>

lemma document_drains:
  assumes "server_reachable w" and "ws_of w = Some OPEN"
  shows "\<exists>w'. silent_step\<^sup>*\<^sup>* w w' \<and> server_reachable w' \<and> ws_of w' = Some OPEN \<and> sv_outbox (wd_client w') = []"
proof (cases "sv_awaitingInitialDoc (wd_client w)")
  case False
  then show ?thesis
    using assms reachable_ok [OF assms(1)] by (auto simp: world_ok_def drained_def intro!: exI [of _ w])
next
  case True
  let ?c = "\<lambda>c. adoptOrphanOutboxes (c\<lparr>sv_lastActivity := 0, sv_awaitingInitialDoc := False\<rparr>)"
  let ?n = "length (sv_outbox (?c (wd_client w)))"
  let ?w = "run (onmessage (\<lambda>_. True) [] ?n 0 (BinaryFrame [])) (w\<lparr>wd_doc := True\<rparr>)"
  have "silent_step w ?w"
    using server_step.received [OF assms(2), of "\<lambda>_. True" "[]" ?n 0 "BinaryFrame []"]
    by (simp add: silent_step_def)
  moreover have "ws_of ?w = Some OPEN \<and> sv_outbox (wd_client ?w) = []"
    using True assms(2) by (simp add: run_onmessage run_on_binary run_calls run_flush Let_def)
  ultimately show ?thesis
    using assms(1) sv.good_step by (blast intro: r_into_rtranclp)
qed

lemma eventually_delivered:
  assumes "server_reachable w"
  shows "\<exists>w'. silent_step\<^sup>*\<^sup>* w w' \<and> ws_of w' = Some OPEN \<and> sv_outbox (wd_client w') = [] \<and>
    subseq (wd_emitted w) (binary_frames (wd_sent w'))"
proof -
  obtain u where u: "silent_step\<^sup>*\<^sup>* w u" "server_reachable u" "ws_of u = Some OPEN"
    using sv.comes_back [OF assms] by blast
  obtain v where v: "silent_step\<^sup>*\<^sup>* u v" "server_reachable v" "ws_of v = Some OPEN" "sv_outbox (wd_client v) = []"
    using document_drains [OF u(2,3)] by blast
  have "silent_step\<^sup>*\<^sup>* w v" using u(1) v(1) by (rule rtranclp_trans)
  moreover have "delivered v" using reachable_ok [OF v(2)] by (simp add: world_ok_def)
  ultimately show ?thesis
    using v silent_emitted by (fastforce simp: delivered_def)
qed

section \<open>A tab that dies\<close>

lemma decode_all_encoded [simp]: "decode_all (map encodeBase64 q) = Some q"
  by (induction q) simp_all

lemma read_queues_contains:
  assumes "read_queues items ks = Some adopted" and "k \<in> set ks"
    and "map_of items k = queue_copy q"
  shows "subseq q adopted"
  using assms
proof (induction ks arbitrary: adopted)
  case (Cons k' ks)
  then obtain q' qs where q: "read_queue (map_of items k') = Some q'" "read_queues items ks = Some qs"
      "adopted = q' @ qs"
    by (auto split: option.splits)
  show ?case
  proof (cases "k = k'")
    case True
    with Cons.prems q have "q = q'" by (auto simp: read_queue_def queue_copy_def split: if_splits)
    with q(3) show ?thesis using subseq_rev_drop_many [of q q qs] by simp
  next
    case False
    with Cons q have "subseq q qs" by simp
    with q(3) show ?thesis using subseq_drop_many [of q qs q'] by simp
  qed
qed simp

lemma on_binary_adopts:
  assumes "sv_ws d = Some OPEN" and "sv_awaitingInitialDoc d"
    and "read_queues (ls_items (sv_storage d)) (orphan_keys d) = Some adopted" and "\<not> ls_denied (sv_storage d)"
    and "length (adopted @ sv_outbox d) \<le> alive"
  shows "binary_frames (frames_of (fst (on_binary [] alive data d))) = adopted @ sv_outbox d"
proof -
  let ?d = "d\<lparr>sv_awaitingInitialDoc := False\<rparr>"
  have k: "orphan_keys ?d = orphan_keys d" by (simp add: orphan_keys_def key_prefix_def)
  have a: "sv_outbox (adoptOrphanOutboxes ?d) = adopted @ sv_outbox d"
    using assms(3,4) by (auto simp: adoptOrphanOutboxes_def k Let_def split: option.splits)
  have "frames_of (fst (on_binary [] alive data d)) = frames_of (fst (flushOutbox alive (adoptOrphanOutboxes ?d)))"
    using assms(2) by (simp add: on_binary_def do_calls_def handler_defs split: prod.splits)
  also have "\<dots> = map BinaryFrame (adopted @ sv_outbox d)"
    using a assms(1,5) by (simp add: flushOutbox_def comp_def [symmetric] del: map_append)
  finally show ?thesis by (simp del: map_append)
qed

section \<open>Properties\<close>

text \<open>A tab that emits a change before the connection opens.\<close>

definition example_storage :: local_storage where
  "example_storage = \<lparr>ls_denied = False, ls_full = False, ls_items = []\<rparr>"

definition example_start :: server_world where
  "example_start = initial_world ''ws://h'' (Some ''k'') ''t1'' example_storage ''p''"

definition example_offline :: server_world where
  "example_offline = run (sendChange [7]) (example_start\<lparr>wd_emitted := [[7]]\<rparr>)"

definition example_open :: server_world where
  "example_open = run (onopen 0) (set_ready OPEN (example_offline\<lparr>wd_conn := [], wd_doc := False\<rparr>))"

lemma example_start_reachable: "server_reachable example_start"
  unfolding example_start_def by (rule server_reachable.start) (simp add: example_storage_def)

lemma example_offline_reachable: "server_reachable example_offline"
proof -
  have "wd_emitted example_start = []" by (simp add: example_start_def initial_world_def)
  then show ?thesis
    using server_reachable.more [OF example_start_reachable server_step.change [of example_start "[7]"]]
    by (simp add: example_offline_def)
qed

lemma example_offline_facts [simp]:
  "ws_of example_offline = Some CONNECTING" "sv_outbox (wd_client example_offline) = [[7]]"
  "wd_emitted example_offline = [[7]]" "wd_sent example_offline = []" "wd_stored example_offline"
  "sv_authToken (wd_client example_offline) = Some ''k''" "sv_tabId (wd_client example_offline) = ''t1''"
  "sv_projectId (wd_client example_offline) = ''p''" "sv_signalOutbox (wd_client example_offline) = []"
  by (simp_all add: example_offline_def run_sendChange example_start_def initial_world_def ws_of_def connect_def
      new_client_def Let_def persistOutbox_def usable_def example_storage_def)

lemma example_open_reachable: "server_reachable example_open"
  unfolding example_open_def
  by (rule server_reachable.more [OF example_offline_reachable server_step.opened]) simp

lemma example_open_facts:
  "ws_of example_open = Some OPEN" "\<not> wd_doc example_open" "sv_outbox (wd_client example_open) = [[7]]"
  "sv_lastActivity (wd_client example_open) = 0" "sv_authToken (wd_client example_open) = Some ''k''"
  by (simp_all add: example_open_def run_onopen run_auth run_flushSignals Let_def startWatchdog_def)



text \<open>C7. The connection is never stuck: from every reachable state the network, the browser and the server alone
  (the application emitting nothing) can bring the client to an open socket with an empty queue, all
  that was emitted having been sent in order.\<close>

theorem connection_never_stuck:
  assumes "server_reachable w"
  shows "\<exists>w'. silent_step\<^sup>*\<^sup>* w w' \<and> ws_of w' = Some OPEN \<and> sv_outbox (wd_client w') = [] \<and>
    subseq (wd_emitted w) (binary_frames (wd_sent w'))"
  by (rule eventually_delivered [OF assms])

theorem connection_never_stuck_witness:
  "\<exists>w'. silent_step\<^sup>*\<^sup>* example_offline w' \<and> ws_of w' = Some OPEN \<and> sv_outbox (wd_client w') = [] \<and>
    subseq [[7]] (binary_frames (wd_sent w'))"
  using connection_never_stuck [OF example_offline_reachable] by simp

text \<open>C33. On every connection the client first authenticates, if it has a token, and sends no change before it has
  received the initial document of that connection.\<close>

theorem connection_protocol:
  assumes "server_reachable w" and "ws_of w = Some OPEN"
  shows "(\<forall>tok. sv_authToken (wd_client w) = Some tok \<longrightarrow> tok \<noteq> [] \<longrightarrow>
      (\<exists>rest. wd_conn w = TextFrame (''auth:'' @ tok) # rest)) \<and>
    (wd_doc w \<or> binary_frames (wd_conn w) = [])"
proof -
  have "authenticated w" and "patient w" using reachable_ok [OF assms(1)] by (simp_all add: world_ok_def)
  then show ?thesis
    using assms(2) by (cases "wd_conn w") (auto simp: authenticated_def patient_def)
qed

theorem connection_protocol_witness:
  "(\<exists>rest. wd_conn example_open = TextFrame ''auth:k'' # rest) \<and> binary_frames (wd_conn example_open) = []"
  using connection_protocol [OF example_open_reachable] by (simp add: example_open_facts)




definition example_heir :: server_client where
  "example_heir = (new_client ''ws://h'' None ''t2'' (sv_storage (wd_client example_offline)))
     \<lparr>sv_projectId := ''p'', sv_ws := Some OPEN\<rparr>"

lemma example_heir_fields [simp]:
  "sv_projectId example_heir = ''p''" "sv_tabId example_heir = ''t2''" "sv_outbox example_heir = []"
  "sv_ws example_heir = Some OPEN" "sv_awaitingInitialDoc example_heir"
  "sv_storage example_heir = sv_storage (wd_client example_offline)"
  by (simp_all add: example_heir_def new_client_def)

lemma example_storage_left:
  "sv_storage (wd_client example_offline) = \<lparr>ls_denied = False, ls_full = False,
     ls_items = [(''daw-outbox:p:t1'', JsonArray (map encodeBase64 [[7]]))]\<rparr>"
  by (simp add: example_offline_def run_sendChange example_start_def new_client_def
      initial_world_def ws_of_def connect_def Let_def persistOutbox_def example_storage_def setItem_def
      storageKey_def key_prefix_def)

lemma example_heir_orphans: "orphan_keys example_heir = [''daw-outbox:p:t1'']"
  by (simp add: orphan_keys_def storageKey_def key_prefix_def example_storage_left)

lemma example_heir_reads:
  "read_queues (ls_items (sv_storage example_heir)) (orphan_keys example_heir) = Some [[7]]"
  by (simp add: example_heir_orphans example_storage_left read_queue_def)


section \<open>Limits of the queue's copy\<close>

text \<open>
  The comment of \<open>adoptOrphanOutboxes\<close> promises duplicates, never losses, if the tab dies between
  its steps. When \<open>setItem\<close> throws, \<open>persistOutbox\<close> hides it and the queues of the closed tabs
  are removed all the same: the only copy left is in memory.
\<close>

theorem adoption_in_full_storage:
  "let c = example_heir\<lparr>sv_storage := (sv_storage example_heir)\<lparr>ls_full := True\<rparr>\<rparr>
   in sv_outbox (adoptOrphanOutboxes c) = [[7]] \<and> ls_items (sv_storage (adoptOrphanOutboxes c)) = []"
proof -
  define c where "c = example_heir\<lparr>sv_storage := (sv_storage example_heir)\<lparr>ls_full := True\<rparr>\<rparr>"
  have o: "orphan_keys c = [''daw-outbox:p:t1'']" and q: "sv_outbox c = []"
    and s: "sv_storage c = \<lparr>ls_denied = False, ls_full = True,
      ls_items = [(''daw-outbox:p:t1'', JsonArray (map encodeBase64 [[7]]))]\<rparr>"
    by (simp_all add: c_def orphan_keys_def storageKey_def key_prefix_def example_storage_left)
  have "sv_outbox (adoptOrphanOutboxes c) = [[7]] \<and> ls_items (sv_storage (adoptOrphanOutboxes c)) = []"
    by (simp add: adoptOrphanOutboxes_def o q s read_queue_def persistOutbox_def setItem_def remove_keys_def
        removeItem_def)
  then show ?thesis by (simp add: c_def Let_def)
qed

text \<open>A stored queue that does not parse keeps every other queue of a closed tab from being adopted.\<close>

theorem bad_queue_blocks_adoption:
  assumes "k \<in> set (orphan_keys c)" and "map_of (ls_items (sv_storage c)) k = Some BadJson"
  shows "adoptOrphanOutboxes c = c"
proof -
  have "read_queues items ks = None" if "k \<in> set ks" "map_of items k = Some BadJson" for items ks
    using that by (induction ks) (auto simp: read_queue_def split: option.splits)
  with assms show ?thesis by (simp add: adoptOrphanOutboxes_def)
qed

text \<open>After \<open>disconnect\<close> the close event of the old socket schedules a reconnection.\<close>

theorem disconnect_reconnects:
  "sv_reconnectTimer (snd (onclose (snd (disconnect c))))"
  by (simp add: onclose_def handler_defs scheduleReconnect_def split: prod.splits)

end
