(* ===== verification/Protocol.thy ===== *)
theory Protocol
  imports Schema Base64
begin

text \<open>
  The messages of the audio engine, \<open>web/src/proto/messages.ts\<close> (their interfaces), and their frames,
  \<open>web/src/network/protocol.ts\<close>: four bytes of length, most significant first, and the encoded
  message. The codec of a message is an argument, a pair of functions of which the second may
  throw (\<open>None\<close>): the theory \<open>Messages\<close> has the one of the program.
\<close>

section \<open>Messages\<close>

text \<open>
  A field of an enumeration holds any number: the last constructor is a number without a name
  (\<open>UNRECOGNIZED\<close> is \<open>-1\<close>).
\<close>

datatype transport_action = PLAY | STOP | SEEK | LOOP | ActionNumber int

record transport_command =
  tc_action :: transport_action
  tc_seekPosition :: jsnum
  tc_loopEnabled :: bool
  tc_setRegion :: bool
  tc_loopStart :: jsnum
  tc_loopEnd :: jsnum
  tc_clearRegion :: bool

record set_monitor =
  mo_trackId :: string
  mo_solo :: bool
  mo_mute :: bool

record tap_control =
  ta_enabled :: bool

record editor_control =
  ed_nodeId :: string
  ed_open :: bool

record session_launch =
  sl_sceneId :: string
  sl_trackId :: string
  sl_stop :: bool
  sl_quantize :: bool

record session_slot =
  ss_trackId :: string
  ss_sceneId :: string
  ss_queued :: bool

record session_state =
  ss_slots :: "session_slot list"

record transport_position =
  po_positionSamples :: jsnum
  po_isPlaying :: bool
  po_sampleRate :: jsnum

record track_meter =
  me_trackId :: string
  me_peakLeft :: jsnum
  me_peakRight :: jsnum

record meters =
  me_tracks :: "track_meter list"
  me_masterPeakLeft :: jsnum
  me_masterPeakRight :: jsnum

record engine_state =
  es_bufferUnderruns :: jsnum
  es_cpuPercent :: jsnum
  es_latencySamples :: jsnum
  es_pluginBlocksMissed :: jsnum
  es_pluginChildAlive :: bool
  es_pluginChildRestarts :: jsnum
  es_projectId :: string
  es_stemsRenderedTotal :: jsnum
  es_devicePeriodFrames :: jsnum
  es_deviceExclusive :: bool
  es_limiterReductionDb :: jsnum
  es_limiterEngagedBlocks :: jsnum
  es_limiterCeilingDb :: jsnum
  es_limiterEnabled :: bool

record audio_tap =
  tap_firstSeq :: jsnum
  tap_blockCount :: jsnum
  tap_samples :: bytes
  tap_droppedBlocks :: jsnum

record render_request =
  rr_bitDepth :: jsnum

datatype render_status = STARTED | DONE | FAILED | StatusNumber int

record render_state =
  rs_status :: render_status
  rs_wavHash :: string
  rs_error :: string
  rs_lengthSamples :: jsnum
  rs_sampleRate :: jsnum
  rs_bitDepth :: jsnum

record switch_project =
  sp_projectId :: string

record plugin_entry =
  pe_uid :: string
  pe_name :: string
  pe_vendor :: string
  pe_subCategories :: string

record plugin_catalog =
  pc_entries :: "plugin_entry list"

datatype severity = WARNING | ERROR | FATAL | SeverityNumber int

record engine_error =
  ee_severity :: severity
  ee_code :: string
  ee_message :: string

record proto_message =
  m_transport :: "transport_command option"
  m_setMonitor :: "set_monitor option"
  m_tapControl :: "tap_control option"
  m_editor :: "editor_control option"
  m_sessionLaunch :: "session_launch option"
  m_renderRequest :: "render_request option"
  m_switchProject :: "switch_project option"
  m_position :: "transport_position option"
  m_meters :: "meters option"
  m_engineState :: "engine_state option"
  m_error :: "engine_error option"
  m_audioTap :: "audio_tap option"
  m_pluginCatalog :: "plugin_catalog option"
  m_sessionState :: "session_state option"
  m_renderState :: "render_state option"

definition empty_message :: proto_message where
  "empty_message = \<lparr>m_transport = None, m_setMonitor = None, m_tapControl = None, m_editor = None,
     m_sessionLaunch = None, m_renderRequest = None, m_switchProject = None, m_position = None,
     m_meters = None, m_engineState = None, m_error = None, m_audioTap = None, m_pluginCatalog = None,
     m_sessionState = None, m_renderState = None\<rparr>"

record codec =
  pb_encode :: "proto_message \<Rightarrow> bytes"
  pb_decode :: "bytes \<Rightarrow> proto_message option"

section \<open>What the client sends and understands\<close>

text \<open>The data of a transport command: only the action is required.\<close>

record transport_data =
  td_action :: transport_action
  td_seekPosition :: "jsnum option"
  td_loopEnabled :: "bool option"
  td_setRegion :: "bool option"
  td_loopStart :: "jsnum option"
  td_loopEnd :: "jsnum option"
  td_clearRegion :: "bool option"

datatype encode_message =
    Transport transport_data
  | SetMonitor set_monitor
  | TapControl tap_control
  | Editor editor_control
  | SessionLaunch session_launch
  | RenderRequest render_request
  | SwitchProject switch_project

datatype decoded_message =
    Position transport_position
  | DMeters meters
  | State engine_state
  | AudioTap audio_tap
  | PluginCatalog plugin_catalog
  | SessionState session_state
  | RenderState render_state
  | EngineError engine_error

definition transport_of :: "transport_data \<Rightarrow> transport_command" where
  "transport_of d = \<lparr>tc_action = td_action d,
     tc_seekPosition = or_else (td_seekPosition d) (js_int 0),
     tc_loopEnabled = or_else (td_loopEnabled d) False,
     tc_setRegion = or_else (td_setRegion d) False,
     tc_loopStart = or_else (td_loopStart d) (js_int 0),
     tc_loopEnd = or_else (td_loopEnd d) (js_int 0),
     tc_clearRegion = or_else (td_clearRegion d) False\<rparr>"

fun proto_of :: "encode_message \<Rightarrow> proto_message" where
  "proto_of (Transport d) = empty_message\<lparr>m_transport := Some (transport_of d)\<rparr>"
| "proto_of (SetMonitor d) = empty_message\<lparr>m_setMonitor := Some d\<rparr>"
| "proto_of (TapControl d) = empty_message\<lparr>m_tapControl := Some d\<rparr>"
| "proto_of (Editor d) = empty_message\<lparr>m_editor := Some d\<rparr>"
| "proto_of (SessionLaunch d) = empty_message\<lparr>m_sessionLaunch := Some d\<rparr>"
| "proto_of (RenderRequest d) = empty_message\<lparr>m_renderRequest := Some d\<rparr>"
| "proto_of (SwitchProject d) = empty_message\<lparr>m_switchProject := Some d\<rparr>"

section \<open>Frames\<close>

text \<open>\<open>setUint32\<close> and \<open>getUint32\<close> of a \<open>DataView\<close>, big-endian; the first keeps 32 bits.\<close>

definition setUint32 :: "nat \<Rightarrow> bytes" where
  "setUint32 n = [of_nat (n div 2 ^ 24), of_nat (n div 2 ^ 16), of_nat (n div 2 ^ 8), of_nat n]"

definition getUint32 :: "bytes \<Rightarrow> nat" where
  "getUint32 bs = unat (bs ! 0) * 2 ^ 24 + unat (bs ! 1) * 2 ^ 16 + unat (bs ! 2) * 2 ^ 8 + unat (bs ! 3)"

definition length_prefixed :: "bytes \<Rightarrow> bytes" where
  "length_prefixed encoded = setUint32 (length encoded) @ encoded"

definition encodeMessage :: "codec \<Rightarrow> encode_message \<Rightarrow> bytes" where
  "encodeMessage pb msg = length_prefixed (pb_encode pb (proto_of msg))"

definition message_type :: "proto_message \<Rightarrow> decoded_message option" where
  "message_type m =
     (case m_position m of Some d \<Rightarrow> Some (Position d) | None \<Rightarrow>
      case m_meters m of Some d \<Rightarrow> Some (DMeters d) | None \<Rightarrow>
      case m_engineState m of Some d \<Rightarrow> Some (State d) | None \<Rightarrow>
      case m_audioTap m of Some d \<Rightarrow> Some (AudioTap d) | None \<Rightarrow>
      case m_pluginCatalog m of Some d \<Rightarrow> Some (PluginCatalog d) | None \<Rightarrow>
      case m_sessionState m of Some d \<Rightarrow> Some (SessionState d) | None \<Rightarrow>
      case m_renderState m of Some d \<Rightarrow> Some (RenderState d) | None \<Rightarrow>
      map_option EngineError (m_error m))"

definition decodeMessage :: "codec \<Rightarrow> bytes \<Rightarrow> decoded_message option" where
  "decodeMessage pb bytes =
     (if length bytes < 5 then None
      else if getUint32 bytes + 4 \<noteq> length bytes then None
      else (case pb_decode pb (drop 4 bytes) of None \<Rightarrow> None | Some m \<Rightarrow> message_type m))"

section \<open>Facts\<close>

lemma length_setUint32 [simp]: "length (setUint32 n) = 4"
  by (simp add: setUint32_def)

lemma getUint32_append: "4 \<le> length bs \<Longrightarrow> getUint32 (bs @ cs) = getUint32 bs"
  by (auto simp: getUint32_def nth_append)

lemma unat_byte [simp]: "unat (of_nat n :: 8 word) = n mod 256"
  by (simp add: unat_of_nat)

lemma getUint32_setUint32:
  assumes "n < 2 ^ 32"
  shows "getUint32 (setUint32 n) = n"
proof -
  have top: "n div 16777216 mod 256 = n div 16777216" using assms by simp
  have "n div 256 = n div 65536 * 256 + n div 256 mod 256"
    and "n div 65536 = n div 16777216 * 256 + n div 65536 mod 256"
    using div_mult_mod_eq [of "n div 256" 256] div_mult_mod_eq [of "n div 65536" 256]
    by (simp_all add: div_mult2_eq [symmetric])
  moreover have "n = n div 256 * 256 + n mod 256" by (simp only: div_mult_mod_eq)
  moreover have "getUint32 (setUint32 n) = n div 16777216 mod 256 * 16777216 + n div 65536 mod 256 * 65536
      + n div 256 mod 256 * 256 + n mod 256"
    by (simp add: getUint32_def setUint32_def)
  ultimately show ?thesis using top by linarith
qed

lemma of_nat_byte: "of_nat (256 * k + n) = (of_nat n :: 8 word)"
  by (simp add: word_of_nat_eq_iff take_bit_eq_mod del: of_nat_add of_nat_mult)

lemma setUint32_getUint32:
  assumes "length bs = 4"
  shows "setUint32 (getUint32 bs) = bs"
proof -
  obtain a b c d where bs: "bs = [a, b, c, d]"
    using assms by (auto simp: length_Suc_conv eval_nat_numeral)
  have lt: "unat w < 256" for w :: "8 word"
    using unsigned_less [where 'a = nat, of w] by simp
  define N where "N = unat a * 2 ^ 24 + unat b * 2 ^ 16 + unat c * 2 ^ 8 + unat d"
  have "of_nat N = d"
    using of_nat_byte [of "256 * (256 * unat a + unat b) + unat c" "unat d"] by (simp add: N_def algebra_simps)
  moreover have "N div 2 ^ 8 = 256 * (256 * unat a + unat b) + unat c"
    using lt [of d] by (simp add: N_def)
  moreover have "of_nat (256 * (256 * unat a + unat b) + unat c) = c"
    using of_nat_byte [of "256 * unat a + unat b" "unat c"] by simp
  moreover have "N div 2 ^ 16 = 256 * unat a + unat b"
    using lt [of d] lt [of c] by (simp add: N_def)
  moreover have "N div 2 ^ 24 = unat a"
    using lt [of d] lt [of c] lt [of b] by (simp add: N_def)
  ultimately have "setUint32 N = [a, b, c, d]"
    using of_nat_byte [of "unat a" "unat b"] by (simp add: setUint32_def del: of_nat_add of_nat_mult)
  then show ?thesis by (simp add: bs N_def getUint32_def)
qed

lemma length_prefixed_parts:
  assumes "length p < 2 ^ 32"
  shows "getUint32 (length_prefixed p) = length p" and "drop 4 (length_prefixed p) = p"
    and "length (length_prefixed p) = length p + 4"
  using getUint32_append [of "setUint32 (length p)" p] getUint32_setUint32 [OF assms]
  by (simp_all add: length_prefixed_def)

text \<open>A byte string whose first four bytes count the others is a frame.\<close>

lemma length_prefixed_split:
  assumes "4 \<le> length bs" and "getUint32 bs + 4 = length bs"
  shows "bs = length_prefixed (drop 4 bs)" and "length (drop 4 bs) < 2 ^ 32"
proof -
  let ?h = "take 4 bs"
  have h: "length ?h = 4" using assms(1) by simp
  then have g: "getUint32 bs = getUint32 ?h"
    using getUint32_append [of ?h "drop 4 bs"] by simp
  with assms(2) have n: "length (drop 4 bs) = getUint32 ?h" by simp
  show "bs = length_prefixed (drop 4 bs)"
    unfolding length_prefixed_def n setUint32_getUint32 [OF h] by simp
  have "unat w < 256" for w :: "8 word"
    using unsigned_less [where 'a = nat, of w] by simp
  from this [of "?h ! 0"] this [of "?h ! 1"] this [of "?h ! 2"] this [of "?h ! 3"]
  have "getUint32 ?h < 2 ^ 32" unfolding getUint32_def power_numeral by simp
  with n show "length (drop 4 bs) < 2 ^ 32" by simp
qed

section \<open>Property\<close>

text \<open>The decoder accepts exactly the frames: it returns a message when, and only when, the bytes are the
  length of a non-empty payload below 4 GiB followed by that payload, the payload decodes, and the
  message holds something the client understands; every other byte string, truncated, padded or of
  a wrong length, is refused without an exception.\<close>

theorem decodeMessage_accepts_frames:
  "decodeMessage pb bs = Some d \<longleftrightarrow>
    (\<exists>payload m. bs = length_prefixed payload \<and> payload \<noteq> [] \<and> length payload < 2 ^ 32 \<and>
       pb_decode pb payload = Some m \<and> message_type m = Some d)" (is "?l \<longleftrightarrow> ?r")
proof
  assume l: ?l
  then have "5 \<le> length bs" "getUint32 bs + 4 = length bs"
    by (auto simp: decodeMessage_def split: if_splits)
  with l length_prefixed_split [of bs] show ?r
    by (intro exI [of _ "drop 4 bs"]) (auto simp: decodeMessage_def split: if_splits option.splits)
next
  assume ?r
  then show ?l
    using length_prefixed_parts by (fastforce simp: decodeMessage_def Suc_le_eq)
qed

end
