(* ===== verification/Engine_Client.thy ===== *)
theory Engine_Client
  imports Protocol Socket Session
begin

text \<open>
  The connection to the audio engine, \<open>web/src/network/engine_client.ts\<close>: the socket and its handlers,
  the refresh of a refused token, the commands and the telemetry. The codec of the messages is an
  argument; a handler returns its effects in order.
\<close>

section \<open>State\<close>

record monitor =
  mn_solo :: bool
  mn_mute :: bool

record engine_client =
  en_ws :: "ready option"
  en_address :: string
  en_port :: nat
  en_token :: string
  en_reconnectTimer :: bool
  en_sampleRate :: jsnum
  en_hasRefresher :: bool
  en_refreshedOnce :: bool
  en_refreshing :: bool
  en_monitorState :: "(string \<times> monitor) list"
  en_lastPlaying :: bool
  en_engineProjectId :: string

datatype engine_effect =
    ESend bytes
  | EOpenSocket string
  | ECloseSocket
  | EOnConnect
  | EOnDisconnect
  | ERefreshToken
  | EOnPosition jsnum jsnum
  | EOnMeters "track_meter list" jsnum jsnum
  | EOnState engine_state
  | EOnAudioTap jsnum jsnum bytes jsnum
  | EOnPluginCatalog "plugin_entry list"
  | EOnSessionState "session_slot list"
  | EOnRenderState render_state
  | EOnError string
  | EResolved
  | ERejected

type_synonym engine_action = "(engine_client, engine_effect) handler"

record engine_config =
  ec_address :: "string option"
  ec_port :: "nat option"
  ec_token :: "string option"

definition new_engine :: "engine_config \<Rightarrow> bool \<Rightarrow> engine_client" where
  "new_engine config refresher = \<lparr>en_ws = None,
     en_address = or_else (ec_address config) ''127.0.0.1'',
     en_port = or_else (ec_port config) 47821,
     en_token = or_else (ec_token config) [],
     en_reconnectTimer = False, en_sampleRate = js_int 48000, en_hasRefresher = refresher,
     en_refreshedOnce = False, en_refreshing = False, en_monitorState = [], en_lastPlaying = False,
     en_engineProjectId = []\<rparr>"

definition setToken :: "string \<Rightarrow> engine_client \<Rightarrow> engine_client" where
  "setToken tok e = e\<lparr>en_token := tok\<rparr>"

text \<open>The parsed token file, \<open>None\<close> when it does not parse; an empty or zero field is falsy.\<close>

definition truthy :: "'a \<Rightarrow> 'a option \<Rightarrow> 'a \<Rightarrow> 'a" where
  "truthy falsy v old = (case v of None \<Rightarrow> old | Some x \<Rightarrow> if x = falsy then old else x)"

definition setFromTokenFile :: "engine_config option \<Rightarrow> engine_client \<Rightarrow> engine_client" where
  "setFromTokenFile content e =
     (case content of
        None \<Rightarrow> e
      | Some data \<Rightarrow> e\<lparr>en_token := truthy [] (ec_token data) (en_token e),
          en_port := truthy 0 (ec_port data) (en_port e),
          en_address := truthy [] (ec_address data) (en_address e)\<rparr>)"

definition engine_isConnected :: "engine_client \<Rightarrow> bool" where
  "engine_isConnected e \<longleftrightarrow> en_ws e = Some OPEN"

definition isPlaying :: "engine_client \<Rightarrow> bool" where
  "isPlaying e = en_lastPlaying e"

definition engineProjectId :: "engine_client \<Rightarrow> string" where
  "engineProjectId e = en_engineProjectId e"

definition monitorSnapshot :: "engine_client \<Rightarrow> (string \<times> monitor) list" where
  "monitorSnapshot e = en_monitorState e"

section \<open>The connection\<close>

definition engine_schedule :: "engine_client \<Rightarrow> engine_client" where
  "engine_schedule e = e\<lparr>en_reconnectTimer := True\<rparr>"

definition engine_connect :: engine_action where
  "engine_connect e =
     ([EOpenSocket (''ws://'' @ en_address e @ '':'' @ decimal (en_port e) @ ''/'')], e\<lparr>en_ws := Some CONNECTING\<rparr>)"

text \<open>\<open>TextEncoder\<close> on code units below 256: one byte below 128, else two.\<close>

fun utf8 :: "string \<Rightarrow> bytes" where
  "utf8 [] = []"
| "utf8 (c # s) =
     (let n = of_char c :: nat
      in (if n < 128 then [of_nat n] else [of_nat (192 + n div 64), of_nat (128 + n mod 64)]) @ utf8 s)"

definition auth_message :: "string \<Rightarrow> bytes" where
  "auth_message tok = 0 # utf8 tok"

definition engine_onopen :: engine_action where
  "engine_onopen e = ([ESend (auth_message (en_token e)), EOnConnect, EResolved], e)"

text \<open>\<open>onclose\<close> up to its \<open>await\<close>, and what follows it: the token refresher gave a token, or none.\<close>

definition engine_onclose :: "nat \<Rightarrow> engine_action" where
  "engine_onclose code e =
     (if code = 4001 \<and> en_hasRefresher e \<and> \<not> en_refreshedOnce e
      then ([EOnDisconnect, ERefreshToken], e\<lparr>en_refreshedOnce := True, en_refreshing := True\<rparr>)
      else ([EOnDisconnect], engine_schedule e))"

definition engine_refreshed :: "string option \<Rightarrow> engine_action" where
  "engine_refreshed fresh e =
     (let e = e\<lparr>en_refreshing := False\<rparr>;
          tok = or_else fresh []
      in if tok \<noteq> [] then engine_connect (e\<lparr>en_token := tok\<rparr>)
         else ([], engine_schedule e))"

definition engine_onerror :: engine_action where
  "engine_onerror e = ([ERejected], engine_schedule e)"

definition engine_retry :: engine_action where
  "engine_retry e = engine_connect (e\<lparr>en_reconnectTimer := False, en_refreshedOnce := False\<rparr>)"

definition engine_disconnect :: engine_action where
  "engine_disconnect e =
     (if en_ws e = None then [] else [ECloseSocket], e\<lparr>en_reconnectTimer := False, en_ws := None\<rparr>)"

section \<open>Commands\<close>

definition sendBinary :: "bytes \<Rightarrow> engine_action" where
  "sendBinary data e = (if en_ws e = Some OPEN then [ESend data] else [], e)"

definition send_message :: "codec \<Rightarrow> encode_message \<Rightarrow> engine_action" where
  "send_message pb msg = sendBinary (encodeMessage pb msg)"

definition command :: "transport_action \<Rightarrow> transport_data" where
  "command a = \<lparr>td_action = a, td_seekPosition = None, td_loopEnabled = None, td_setRegion = None,
     td_loopStart = None, td_loopEnd = None, td_clearRegion = None\<rparr>"

definition sendTransport :: "codec \<Rightarrow> transport_action \<Rightarrow> jsnum option \<Rightarrow> engine_action" where
  "sendTransport pb a seekPosition =
     send_message pb (Transport (case seekPosition of
        Some p \<Rightarrow> (command a)\<lparr>td_seekPosition := Some p\<rparr> | None \<Rightarrow> command a))"

definition play :: "codec \<Rightarrow> engine_action" where
  "play pb = sendTransport pb PLAY None"

definition stop :: "codec \<Rightarrow> engine_action" where
  "stop pb = sendTransport pb STOP None"

definition seek :: "codec \<Rightarrow> jsnum \<Rightarrow> engine_action" where
  "seek pb positionSamples = sendTransport pb SEEK (Some positionSamples)"

definition setTap :: "codec \<Rightarrow> bool \<Rightarrow> engine_action" where
  "setTap pb enabled = send_message pb (TapControl \<lparr>ta_enabled = enabled\<rparr>)"

definition setEditor :: "codec \<Rightarrow> string \<Rightarrow> bool \<Rightarrow> engine_action" where
  "setEditor pb nodeId show = send_message pb (Editor \<lparr>ed_nodeId = nodeId, ed_open = show\<rparr>)"

definition sessionLaunch :: "codec \<Rightarrow> string \<Rightarrow> string \<Rightarrow> bool \<Rightarrow> bool \<Rightarrow> engine_action" where
  "sessionLaunch pb sceneId trackId halt quantize =
     send_message pb (SessionLaunch \<lparr>sl_sceneId = sceneId, sl_trackId = trackId, sl_stop = halt,
       sl_quantize = quantize\<rparr>)"

definition switchProject :: "codec \<Rightarrow> string \<Rightarrow> engine_action" where
  "switchProject pb projectId = send_message pb (SwitchProject \<lparr>sp_projectId = projectId\<rparr>)"

definition renderRequest :: "codec \<Rightarrow> jsnum \<Rightarrow> engine_action" where
  "renderRequest pb bitDepth = send_message pb (RenderRequest \<lparr>rr_bitDepth = bitDepth\<rparr>)"

definition setLoop :: "codec \<Rightarrow> bool \<Rightarrow> engine_action" where
  "setLoop pb enabled = send_message pb (Transport ((command LOOP)\<lparr>td_loopEnabled := Some enabled\<rparr>))"

definition setLoopRegion :: "codec \<Rightarrow> jsnum \<Rightarrow> jsnum \<Rightarrow> engine_action" where
  "setLoopRegion pb startSample endSample =
     send_message pb (Transport ((command LOOP)\<lparr>td_loopEnabled := Some True, td_setRegion := Some True,
       td_loopStart := Some startSample, td_loopEnd := Some endSample\<rparr>))"

definition clearLoopRegion :: "codec \<Rightarrow> engine_action" where
  "clearLoopRegion pb =
     send_message pb (Transport ((command LOOP)\<lparr>td_loopEnabled := Some False, td_clearRegion := Some True\<rparr>))"

definition monitor_of :: "string \<Rightarrow> engine_client \<Rightarrow> monitor" where
  "monitor_of trackId e = or_else (map_of (en_monitorState e) trackId) \<lparr>mn_solo = False, mn_mute = False\<rparr>"

definition setMonitor :: "codec \<Rightarrow> string \<Rightarrow> bool option \<Rightarrow> bool option \<Rightarrow> engine_action" where
  "setMonitor pb trackId solo mute e =
     (let prev = monitor_of trackId e;
          new = \<lparr>mn_solo = or_else solo (mn_solo prev), mn_mute = or_else mute (mn_mute prev)\<rparr>
      in send_message pb (SetMonitor \<lparr>mo_trackId = trackId, mo_solo = mn_solo new, mo_mute = mn_mute new\<rparr>)
           (e\<lparr>en_monitorState := AList.update trackId new (en_monitorState e)\<rparr>))"

section \<open>Telemetry\<close>

definition on_position :: "transport_position \<Rightarrow> engine_action" where
  "on_position d e =
     (let e = e\<lparr>en_lastPlaying := po_isPlaying d\<rparr>;
          e = (if js_lt (js_int 0) (po_sampleRate d) then e\<lparr>en_sampleRate := po_sampleRate d\<rparr> else e)
      in ([EOnPosition (po_positionSamples d) (en_sampleRate e)], e))"

fun dispatch :: "decoded_message \<Rightarrow> engine_action" where
  "dispatch (Position d) e = on_position d e"
| "dispatch (DMeters d) e = ([EOnMeters (me_tracks d) (me_masterPeakLeft d) (me_masterPeakRight d)], e)"
| "dispatch (State d) e =
     ([EOnState d], if es_projectId d \<noteq> [] then e\<lparr>en_engineProjectId := es_projectId d\<rparr> else e)"
| "dispatch (AudioTap d) e = ([EOnAudioTap (tap_firstSeq d) (tap_blockCount d) (tap_samples d) (tap_droppedBlocks d)], e)"
| "dispatch (PluginCatalog d) e = ([EOnPluginCatalog (pc_entries d)], e)"
| "dispatch (SessionState d) e = ([EOnSessionState (ss_slots d)], e)"
| "dispatch (RenderState d) e = ([EOnRenderState d], e)"
| "dispatch (EngineError d) e = ([EOnError (ee_message d)], e)"

definition handleMessage :: "codec \<Rightarrow> bytes \<Rightarrow> engine_action" where
  "handleMessage pb data e =
     (let e = e\<lparr>en_refreshedOnce := False\<rparr>
      in case decodeMessage pb data of None \<Rightarrow> ([], e) | Some msg \<Rightarrow> dispatch msg e)"

end
