(* ===== verification/Engine_Run.thy ===== *)
theory Engine_Run
  imports Engine_Client
begin

text \<open>
  The life of the connection of \<open>Engine_Client\<close> as a step relation of the network, the timer, the token
  refresher and the application, with what was sent on the connection and how often the client
  refreshed its token or opened a socket. The refresher of \<open>web/src/app/wiring.ts\<close> catches every
  error, so it always answers.
\<close>

section \<open>Worlds and steps\<close>

record engine_world =
  ew_engine :: engine_client
  ew_conn :: "bytes list"
  ew_refreshes :: nat
  ew_attempts :: nat
  ew_ticks :: nat
  ew_data :: nat

fun sends_of :: "engine_effect list \<Rightarrow> bytes list" where
  "sends_of [] = []"
| "sends_of (ESend b # es) = b # sends_of es"
| "sends_of (_ # es) = sends_of es"

definition refreshes_of :: "engine_effect list \<Rightarrow> nat" where
  "refreshes_of es = length (filter (\<lambda>x. x = ERefreshToken) es)"

fun opens_of :: "engine_effect list \<Rightarrow> nat" where
  "opens_of [] = 0"
| "opens_of (EOpenSocket _ # es) = Suc (opens_of es)"
| "opens_of (_ # es) = opens_of es"

definition erun :: "engine_action \<Rightarrow> engine_world \<Rightarrow> engine_world" where
  "erun a w =
     (let (es, e) = a (ew_engine w)
      in w\<lparr>ew_engine := e, ew_conn := ew_conn w @ sends_of es, ew_refreshes := ew_refreshes w + refreshes_of es,
        ew_attempts := ew_attempts w + opens_of es\<rparr>)"

definition status_of :: "engine_world \<Rightarrow> ready option" where
  "status_of w = en_ws (ew_engine w)"

definition set_status :: "ready \<Rightarrow> engine_world \<Rightarrow> engine_world" where
  "set_status r = ew_engine_update (en_ws_update (\<lambda>_. Some r))"

definition engine_start :: "engine_config \<Rightarrow> bool \<Rightarrow> engine_world" where
  "engine_start config refresher = erun engine_connect
     \<lparr>ew_engine = new_engine config refresher, ew_conn = [], ew_refreshes = 0, ew_attempts = 0, ew_ticks = 0,
      ew_data = 0\<rparr>"

inductive engine_step :: "codec \<Rightarrow> engine_world \<Rightarrow> engine_world \<Rightarrow> bool" for pb where
  eopened: "status_of w = Some CONNECTING \<Longrightarrow>
     engine_step pb w (erun engine_onopen (set_status OPEN (w\<lparr>ew_conn := []\<rparr>)))"
| efailed: "status_of w = Some CONNECTING \<Longrightarrow>
     engine_step pb w (erun (seq engine_onerror (engine_onclose 1006)) (set_status CLOSED w))"
| eclosing: "status_of w = Some OPEN \<Longrightarrow> engine_step pb w (set_status CLOSING w)"
| eclosed: "status_of w \<in> {Some OPEN, Some CLOSING} \<Longrightarrow>
     engine_step pb w (erun (engine_onclose code) (set_status CLOSED w))"
| erefreshed: "en_refreshing (ew_engine w) \<Longrightarrow> engine_step pb w (erun (engine_refreshed fresh) w)"
| eretry: "en_reconnectTimer (ew_engine w) \<Longrightarrow>
     engine_step pb w (erun engine_retry (w\<lparr>ew_ticks := ew_ticks w + 1\<rparr>))"
| edata: "status_of w = Some OPEN \<Longrightarrow>
     engine_step pb w (erun (handleMessage pb bs) (w\<lparr>ew_data := ew_data w + 1\<rparr>))"
| ecommand: "engine_step pb w (erun (send_message pb msg) w)"
| emonitor: "engine_step pb w (erun (setMonitor pb i solo mute) w)"

inductive engine_reachable :: "codec \<Rightarrow> engine_world \<Rightarrow> bool" for pb where
  estart: "engine_reachable pb (engine_start config refresher)"
| emore: "engine_reachable pb w \<Longrightarrow> engine_step pb w w' \<Longrightarrow> engine_reachable pb w'"

section \<open>Invariant\<close>

text \<open>
  Exactly one thing keeps a closed client going, the timer or the refresh; every open connection
  began with the token; every refresh is paid for by a tick, by data or by the budget.
\<close>

definition engine_alive :: "engine_client \<Rightarrow> bool" where
  "engine_alive e \<longleftrightarrow> en_ws e \<noteq> None \<and> (en_ws e = Some CLOSED \<longleftrightarrow> en_reconnectTimer e \<noteq> en_refreshing e) \<and>
     \<not> (en_reconnectTimer e \<and> en_refreshing e)"

definition token_first :: "engine_world \<Rightarrow> bool" where
  "token_first w \<longleftrightarrow> (status_of w = Some OPEN \<longrightarrow>
     ew_conn w \<noteq> [] \<and> hd (ew_conn w) = auth_message (en_token (ew_engine w)))"

definition paid :: "engine_world \<Rightarrow> bool" where
  "paid w \<longleftrightarrow> ew_refreshes w \<le> ew_ticks w + ew_data w + (if en_refreshedOnce (ew_engine w) then 1 else 0) \<and>
     ew_attempts w + (if en_refreshing (ew_engine w) then 1 else 0) \<le> 1 + ew_ticks w + ew_refreshes w"

definition engine_ok :: "engine_world \<Rightarrow> bool" where
  "engine_ok w \<longleftrightarrow> engine_alive (ew_engine w) \<and> token_first w \<and> paid w"

text \<open>What the telemetry leaves alone.\<close>

lemma dispatch_same:
  "en_ws (snd (dispatch d e)) = en_ws e" "en_token (snd (dispatch d e)) = en_token e"
  "en_reconnectTimer (snd (dispatch d e)) = en_reconnectTimer e"
  "en_refreshing (snd (dispatch d e)) = en_refreshing e"
  "en_refreshedOnce (snd (dispatch d e)) = en_refreshedOnce e"
  "sends_of (fst (dispatch d e)) = []" "refreshes_of (fst (dispatch d e)) = 0" "opens_of (fst (dispatch d e)) = 0"
  by (cases d; simp add: on_position_def Let_def refreshes_of_def)+

lemma erun_handleMessage: "\<exists>e. erun (handleMessage pb bs) w = w\<lparr>ew_engine := e\<rparr> \<and>
    en_ws e = en_ws (ew_engine w) \<and> en_token e = en_token (ew_engine w) \<and> \<not> en_refreshedOnce e \<and>
    en_reconnectTimer e = en_reconnectTimer (ew_engine w) \<and> en_refreshing e = en_refreshing (ew_engine w)"
proof (cases "decodeMessage pb bs")
  case None
  then show ?thesis
    by (intro exI [of _ "(ew_engine w)\<lparr>en_refreshedOnce := False\<rparr>"])
      (simp add: erun_def handleMessage_def refreshes_of_def Let_def)
next
  case (Some d)
  then show ?thesis
    using dispatch_same [of d "ew_engine w\<lparr>en_refreshedOnce := False\<rparr>"]
    by (intro exI [of _ "snd (dispatch d (ew_engine w\<lparr>en_refreshedOnce := False\<rparr>))"])
      (simp add: erun_def handleMessage_def Let_def split_beta)
qed

lemma erun_send: "erun (send_message pb msg) w =
   (if status_of w = Some OPEN then w\<lparr>ew_conn := ew_conn w @ [encodeMessage pb msg]\<rparr> else w)"
  by (simp add: erun_def send_message_def sendBinary_def status_of_def refreshes_of_def)

lemma erun_monitor: "erun (setMonitor pb i solo mute) w =
   erun (send_message pb (SetMonitor \<lparr>mo_trackId = i, mo_solo = or_else solo (mn_solo (monitor_of i (ew_engine w))),
       mo_mute = or_else mute (mn_mute (monitor_of i (ew_engine w)))\<rparr>))
     (ew_engine_update (\<lambda>e. e\<lparr>en_monitorState := AList.update i
       \<lparr>mn_solo = or_else solo (mn_solo (monitor_of i e)), mn_mute = or_else mute (mn_mute (monitor_of i e))\<rparr>
       (en_monitorState e)\<rparr>) w)"
  by (simp add: erun_def setMonitor_def Let_def)

lemma erun_onopen: "erun engine_onopen w = w\<lparr>ew_conn := ew_conn w @ [auth_message (en_token (ew_engine w))]\<rparr>"
  by (simp add: erun_def engine_onopen_def refreshes_of_def)

lemma erun_onclose: "erun (engine_onclose code) w =
   (if code = 4001 \<and> en_hasRefresher (ew_engine w) \<and> \<not> en_refreshedOnce (ew_engine w)
    then w\<lparr>ew_engine := (ew_engine w)\<lparr>en_refreshedOnce := True, en_refreshing := True\<rparr>, ew_refreshes := ew_refreshes w + 1\<rparr>
    else w\<lparr>ew_engine := (ew_engine w)\<lparr>en_reconnectTimer := True\<rparr>\<rparr>)"
  by (simp add: erun_def engine_onclose_def engine_schedule_def refreshes_of_def)

lemma erun_failed: "erun (seq engine_onerror (engine_onclose 1006)) w = w\<lparr>ew_engine := (ew_engine w)\<lparr>en_reconnectTimer := True\<rparr>\<rparr>"
  by (simp add: erun_def seq_def engine_onerror_def engine_onclose_def engine_schedule_def refreshes_of_def)

lemma erun_refreshed: "erun (engine_refreshed fresh) w =
   (if or_else fresh [] = [] then w\<lparr>ew_engine := (ew_engine w)\<lparr>en_refreshing := False, en_reconnectTimer := True\<rparr>\<rparr>
    else w\<lparr>ew_engine := (ew_engine w)\<lparr>en_refreshing := False, en_token := or_else fresh [], en_ws := Some CONNECTING\<rparr>,
      ew_attempts := ew_attempts w + 1\<rparr>)"
  by (simp add: erun_def engine_refreshed_def engine_schedule_def engine_connect_def refreshes_of_def Let_def)

lemma erun_retry: "erun engine_retry w =
   w\<lparr>ew_engine := (ew_engine w)\<lparr>en_reconnectTimer := False, en_refreshedOnce := False, en_ws := Some CONNECTING\<rparr>,
     ew_attempts := ew_attempts w + 1\<rparr>"
  by (simp add: erun_def engine_retry_def engine_connect_def refreshes_of_def)

lemma set_status_alt: "set_status r w = w\<lparr>ew_engine := (ew_engine w)\<lparr>en_ws := Some r\<rparr>\<rparr>"
  by (simp add: set_status_def)

lemmas erun_simps = erun_onopen erun_onclose erun_failed erun_refreshed erun_retry erun_send set_status_alt
  status_of_def

lemma step_engine_alive:
  assumes "engine_step pb w w'" and "engine_alive (ew_engine w)"
  shows "engine_alive (ew_engine w')"
  using assms
proof cases
  case (edata bs)
  then show ?thesis
    using erun_handleMessage [of pb bs "w\<lparr>ew_data := ew_data w + 1\<rparr>"] assms(2) by (auto simp: engine_alive_def)
next
  case (emonitor i solo mute)
  then show ?thesis using assms(2) by (simp add: engine_alive_def erun_monitor erun_send)
qed (auto simp: engine_alive_def erun_simps)

lemma step_token_first:
  assumes "engine_step pb w w'" and "engine_alive (ew_engine w)" and "token_first w"
  shows "token_first w'"
  using assms
proof cases
  case (edata bs)
  then show ?thesis
    using erun_handleMessage [of pb bs "w\<lparr>ew_data := ew_data w + 1\<rparr>"] assms(3)
    by (auto simp: token_first_def status_of_def)
next
  case (emonitor i solo mute)
  then show ?thesis using assms(3) by (auto simp: token_first_def erun_monitor erun_simps)
qed (auto simp: token_first_def erun_simps engine_alive_def)

lemma step_paid:
  assumes "engine_step pb w w'" and "engine_alive (ew_engine w)" and "paid w"
  shows "paid w'"
  using assms
proof cases
  case (edata bs)
  then show ?thesis
    using erun_handleMessage [of pb bs "w\<lparr>ew_data := ew_data w + 1\<rparr>"] assms(3)
    by (auto simp: paid_def split: if_splits)
next
  case (emonitor i solo mute)
  then show ?thesis using assms(3) by (auto simp: paid_def erun_monitor erun_simps)
qed (auto simp: paid_def erun_simps engine_alive_def split: if_splits)

lemma engine_reachable_ok: "engine_reachable pb w \<Longrightarrow> engine_ok w"
proof (induction rule: engine_reachable.induct)
  case (estart config refresher)
  show ?case
    by (simp add: engine_ok_def engine_alive_def token_first_def paid_def status_of_def engine_start_def erun_def
        engine_connect_def new_engine_def refreshes_of_def)
qed (auto simp: engine_ok_def intro: step_engine_alive step_token_first step_paid)

section \<open>Coming back\<close>

interpretation en: reconnecting status_of "\<lambda>w. en_reconnectTimer (ew_engine w) \<or> en_refreshing (ew_engine w)"
  "engine_step pb" "engine_reachable pb" for pb
proof
  fix w w' :: engine_world
  show "engine_reachable pb w \<Longrightarrow> engine_step pb w w' \<Longrightarrow> engine_reachable pb w'"
    by (rule engine_reachable.emore)
  show "engine_reachable pb w \<Longrightarrow> status_of w \<noteq> None \<and>
      (status_of w = Some CLOSED \<longrightarrow> en_reconnectTimer (ew_engine w) \<or> en_refreshing (ew_engine w))"
    using engine_reachable_ok [of pb w] by (auto simp: engine_ok_def engine_alive_def status_of_def)
  show "\<exists>w'. engine_step pb w w' \<and> status_of w' = Some OPEN" if "status_of w = Some CONNECTING"
    by (rule exI, rule conjI, rule engine_step.eopened [OF that]) (simp add: erun_simps)
  show "\<exists>w'. engine_step pb w w' \<and> status_of w' = Some CLOSED" if "status_of w = Some CLOSING"
    by (rule exI, rule conjI, rule engine_step.eclosed [where code = 1000])
      (simp add: that, simp add: erun_simps)
  show "\<exists>w'. engine_step pb w w' \<and> status_of w' = Some CONNECTING"
    if due: "en_reconnectTimer (ew_engine w) \<or> en_refreshing (ew_engine w)"
  proof (cases "en_reconnectTimer (ew_engine w)")
    case True
    show ?thesis
      by (rule exI, rule conjI, rule engine_step.eretry [OF True]) (simp add: erun_simps)
  next
    case False
    with due have "en_refreshing (ew_engine w)" by simp
    then show ?thesis
      by (intro exI conjI) (rule engine_step.erefreshed [where fresh = "Some ''t''"], simp_all add: erun_simps)
  qed
qed

section \<open>Monitoring\<close>

text \<open>What the calls of a sequence give for one track, the last one counting.\<close>

definition given :: "('m \<Rightarrow> bool option) \<Rightarrow> string \<Rightarrow> (string \<times> 'm) list \<Rightarrow> bool list" where
  "given f i calls = concat (map (\<lambda>(k, m). if k = i then (case f m of None \<Rightarrow> [] | Some b \<Rightarrow> [b]) else []) calls)"

definition setMonitors :: "codec \<Rightarrow> (string \<times> bool option \<times> bool option) list \<Rightarrow> engine_action" where
  "setMonitors pb calls = do_all (map (\<lambda>(i, solo, mute). setMonitor pb i solo mute) calls)"

lemma setMonitors_simps:
  "setMonitors pb [] e = ([], e)"
  "snd (setMonitors pb ((i, solo, mute) # calls) e) = snd (setMonitors pb calls (snd (setMonitor pb i solo mute e)))"
  by (simp_all add: setMonitors_def do_all_def nothing_def seq_def split_beta Let_def)

lemma monitor_after:
  "monitor_of k (snd (setMonitor pb i solo mute e)) =
    (if k = i then \<lparr>mn_solo = or_else solo (mn_solo (monitor_of i e)), mn_mute = or_else mute (mn_mute (monitor_of i e))\<rparr>
     else monitor_of k e)"
  by (simp add: setMonitor_def Let_def send_message_def sendBinary_def monitor_of_def map_of_update)

lemma monitors_after:
  "mn_solo (monitor_of k (snd (setMonitors pb calls e))) = last (mn_solo (monitor_of k e) # given fst k calls) \<and>
   mn_mute (monitor_of k (snd (setMonitors pb calls e))) = last (mn_mute (monitor_of k e) # given snd k calls)"
proof (induction calls arbitrary: e)
  case (Cons c calls)
  obtain i solo mute where c: "c = (i, solo, mute)" by (cases c)
  show ?case
    unfolding c setMonitors_simps using Cons.IH [of "snd (setMonitor pb i solo mute e)"]
    by (cases solo; cases mute) (auto simp: monitor_after given_def)
qed (simp add: setMonitors_simps given_def)

section \<open>Properties\<close>

lemma example_engine: "engine_reachable pb (engine_start \<lparr>ec_address = None, ec_port = None, ec_token = None\<rparr> True)"
  by (rule engine_reachable.estart)

text \<open>C24. The connection to the engine is never lost for good: from every reachable state the network, the timer and
  the token refresher can bring the client back to an open connection, on which the first bytes sent
  are the authentication with the current token.\<close>

theorem engine_comes_back:
  assumes "engine_reachable pb w"
  shows "\<exists>w' rest. (engine_step pb)\<^sup>*\<^sup>* w w' \<and> status_of w' = Some OPEN \<and>
    ew_conn w' = auth_message (en_token (ew_engine w')) # rest"
proof -
  obtain u where "(engine_step pb)\<^sup>*\<^sup>* w u" "engine_reachable pb u" "status_of u = Some OPEN"
    using en.comes_back [OF assms] by blast
  moreover from this have "token_first u" using engine_reachable_ok by (auto simp: engine_ok_def)
  ultimately show ?thesis by (cases "ew_conn u") (auto simp: token_first_def)
qed

theorem engine_comes_back_witness:
  "\<exists>w' rest. (engine_step \<lparr>pb_encode = (\<lambda>_. []), pb_decode = (\<lambda>_. None)\<rparr>)\<^sup>*\<^sup>*
      (engine_start \<lparr>ec_address = None, ec_port = None, ec_token = None\<rparr> True) w' \<and>
    status_of w' = Some OPEN \<and> ew_conn w' = auth_message (en_token (ew_engine w')) # rest"
  by (rule engine_comes_back [OF example_engine])

text \<open>C36. A refused token never makes the client loop: in every reachable state the number of token refreshes is at
  most one more than the ticks of the 3 second timer and the messages received together, and the
  sockets opened are at most twice the ticks plus the messages plus two.\<close>

theorem engine_no_tight_loop:
  assumes "engine_reachable pb w"
  shows "ew_refreshes w \<le> ew_ticks w + ew_data w + 1 \<and> ew_attempts w \<le> 2 * ew_ticks w + ew_data w + 2"
  using engine_reachable_ok [OF assms] by (auto simp: engine_ok_def paid_def split: if_splits)

theorem engine_no_tight_loop_witness:
  "ew_attempts (engine_start \<lparr>ec_address = None, ec_port = None, ec_token = None\<rparr> True) \<le> 2"
  using engine_no_tight_loop [OF example_engine]
  by (simp add: engine_start_def erun_def engine_connect_def)

text \<open>A one-sided solo or mute merges with what was set before: after any sequence of calls, on any tracks, the
  solo state of a track is the last one given for that track, and so is its mute state,
  each unchanged where no call gave it.\<close>

theorem setMonitor_merges:
  "monitor_of k (snd (setMonitors pb calls e)) =
    \<lparr>mn_solo = last (mn_solo (monitor_of k e) # given fst k calls),
     mn_mute = last (mn_mute (monitor_of k e) # given snd k calls)\<rparr>"
  using monitors_after [of k pb calls e] by simp

section \<open>Limits\<close>

text \<open>
  A call while the socket is not open is recorded and never sent, so that the state a later call
  merges with is not the one last sent, whatever the comment on \<open>monitorState\<close> says.
\<close>

theorem setMonitor_offline:
  assumes "en_ws e \<noteq> Some OPEN"
  shows "fst (setMonitor pb i (Some True) None e) = [] \<and> mn_solo (monitor_of i (snd (setMonitor pb i (Some True) None e)))"
  using assms by (simp add: monitor_after) (simp add: setMonitor_def Let_def send_message_def sendBinary_def)

text \<open>After \<open>disconnect\<close> the close event of the old socket schedules a reconnection.\<close>

theorem engine_disconnect_reconnects:
  "en_reconnectTimer (snd (engine_onclose 1000 (snd (engine_disconnect e))))"
  by (simp add: engine_onclose_def engine_disconnect_def engine_schedule_def)

end
