(* ===== verification/Exchange.thy ===== *)
theory Exchange
  imports Project Server_Run
begin

text \<open>
  The exchange of documents between the project and the sync server, \<open>web/src/app/wiring.ts\<close>
  (\<open>onDocument\<close>, \<open>onChange\<close>) and \<open>web/src/app/context.ts\<close> (\<open>sendLastChange\<close>): what the callbacks of the
  server client do to the project and what they call on the client. Rendering, the guard on the
  document's version and the starter panel are left out.
\<close>

section \<open>Callbacks\<close>

record 'd app_state =
  ap_project :: "'d project_state"
  ap_hasLoadedInitialDoc :: bool
  ap_resyncCycles :: nat

definition new_app :: "'d automerge \<Rightarrow> 'd app_state" where
  "new_app A = \<lparr>ap_project = new_project A, ap_hasLoadedInitialDoc = False, ap_resyncCycles = 0\<rparr>"

text \<open>The cycles still owed after an exchange, and the resync they ask for.\<close>

definition owed_cycles :: "bool \<Rightarrow> nat \<Rightarrow> nat" where
  "owed_cycles moved cycles = (if moved then 2 else if 0 < cycles then cycles - 1 else cycles)"

definition merge_document ::
  "'d automerge \<Rightarrow> bytes \<Rightarrow> bool \<Rightarrow> bool \<Rightarrow> 'd app_state \<Rightarrow> client_call list \<times> 'd app_state" where
  "merge_document A data firstContact hadPending s =
     (case mergeRemote A data (ap_project s) of
        (Error, p) \<Rightarrow> ([CallResync 500], s\<lparr>ap_project := p\<rparr>)
      | (merged, p) \<Rightarrow>
          (let missing = getMissingChanges A data p;
               cycles = owed_cycles (merged = New \<and> \<not> firstContact \<or> hadPending \<or> missing \<noteq> [])
                 (ap_resyncCycles s)
           in (map CallSend missing @ (if 0 < cycles then [CallResync 1000] else []),
               s\<lparr>ap_project := p, ap_resyncCycles := cycles\<rparr>)))"

definition onDocument ::
  "'d automerge \<Rightarrow> bytes \<Rightarrow> nat \<Rightarrow> 'd app_state \<Rightarrow> client_call list \<times> 'd app_state" where
  "onDocument A data pending s =
     (let firstContact = \<not> ap_hasLoadedInitialDoc s;
          s = s\<lparr>ap_hasLoadedInitialDoc := True\<rparr>;
          hadPending = (0 < pending)
      in if firstContact \<and> \<not> hadPending \<and> isPristineSeed A (ap_project s)
         then ([], s\<lparr>ap_project := load A data (ap_project s)\<rparr>)
         else merge_document A data firstContact hadPending s)"

definition onChange :: "'d automerge \<Rightarrow> bytes \<Rightarrow> 'd app_state \<Rightarrow> client_call list \<times> 'd app_state" where
  "onChange A change s =
     (let (applied, p) = applyChange A change (ap_project s)
      in (if applied then [] else [CallResync 200], s\<lparr>ap_project := p\<rparr>))"

text \<open>\<open>while ((change = getLastChange())) sendChange(change)\<close>\<close>

function sendLastChange :: "'d project_state \<Rightarrow> client_call list \<times> 'd project_state" where
  "sendLastChange p =
     (case getLastChange p of
        (None, p') \<Rightarrow> ([], p')
      | (Some change, p') \<Rightarrow> (let (calls, p'') = sendLastChange p' in (CallSend change # calls, p'')))"
  by pat_completeness auto
termination
  by (relation "measure (\<lambda>p. length (ps_pending p))") (auto simp: getLastChange_def split: list.splits)

declare sendLastChange.simps [simp del]

text \<open>The client and the application together: the first binary message of a connection, and a later one.\<close>

definition receive_document ::
  "'d automerge \<Rightarrow> nat \<Rightarrow> bytes \<Rightarrow> server_client \<times> 'd app_state \<Rightarrow> effect list \<times> (server_client \<times> 'd app_state)" where
  "receive_document A alive data cs =
     (let (c, s) = cs;
          (calls, s') = onDocument A data (pendingCount c) s;
          (es, c') = on_binary calls alive data c
      in (es, (c', s')))"

section \<open>Sending what a gesture queued\<close>

lemma sendLastChange_all: "sendLastChange p = (map CallSend (ps_pending p), p\<lparr>ps_pending := []\<rparr>)"
proof (induction "ps_pending p" arbitrary: p)
  case Nil
  then show ?case by (subst sendLastChange.simps) (simp add: getLastChange_def)
next
  case (Cons c cs)
  from Cons.hyps(1) [of "p\<lparr>ps_pending := cs\<rparr>"] Cons.hyps(2) [symmetric]
  show ?case by (subst sendLastChange.simps) (simp add: getLastChange_def)
qed

section \<open>Exchanges\<close>

text \<open>The frames that the calls of a callback send on an open connection.\<close>

lemma calls_sends:
  assumes "sv_ws c = Some OPEN" and "\<not> sv_awaitingInitialDoc c"
  shows "frames_of (fst (do_calls (map CallSend bs @ (if b then [CallResync ms] else [])) c)) = map BinaryFrame bs"
    and "snd (do_calls (map CallSend bs @ (if b then [CallResync ms] else [])) c) = (if b then requestResync ms c else c)"
  using assms
  by (induction bs) (auto simp: do_calls_def do_all_def seq_def nothing_def sendChange_def act_def Let_def split_beta)

lemma on_binary_sends:
  assumes open_ws: "sv_ws c = Some OPEN" and wait: "sv_awaitingInitialDoc c" and ls: "\<not> ls_denied (sv_storage c)"
    and q: "read_queues (ls_items (sv_storage c)) (orphan_keys c) = Some adopted"
    and n: "length (adopted @ sv_outbox c) \<le> alive"
  shows "binary_frames (frames_of (fst (on_binary (map CallSend bs @ (if b then [CallResync ms] else [])) alive data c)))
    = bs @ adopted @ sv_outbox c"
proof -
  let ?calls = "map CallSend bs @ (if b then [CallResync ms] else [])"
  let ?c = "c\<lparr>sv_awaitingInitialDoc := False\<rparr>"
  define d where "d = (if b then requestResync ms ?c else ?c)"
  have d: "sv_ws d = Some OPEN" "sv_outbox d = sv_outbox c" "sv_storage d = sv_storage c" "orphan_keys d = orphan_keys c"
    using open_ws by (simp_all add: d_def requestResync_def orphan_keys_def storageKey_def key_prefix_def)
  have calls: "frames_of (fst (do_calls ?calls ?c)) = map BinaryFrame bs" "snd (do_calls ?calls ?c) = d"
    using calls_sends [of ?c bs b ms] open_ws by (simp_all add: d_def)
  have a: "sv_outbox (adoptOrphanOutboxes d) = adopted @ sv_outbox c"
    using q ls by (auto simp: adoptOrphanOutboxes_def d Let_def split: option.splits)
  have "frames_of (fst (on_binary ?calls alive data c))
      = frames_of (fst (do_calls ?calls ?c)) @ frames_of (fst (flushOutbox alive (adoptOrphanOutboxes (snd (do_calls ?calls ?c)))))"
    unfolding on_binary_def using wait by (simp add: handler_defs split_beta)
  also have "\<dots> = map BinaryFrame (bs @ adopted @ sv_outbox c)"
    using a n by (simp add: calls flushOutbox_def d(1) comp_def [symmetric])
  finally show ?thesis by (simp del: map_append)
qed

text \<open>
  What Automerge documents of its histories: a merge has the changes of both documents, and the
  changes got from a pair are those the first lacks.
\<close>

definition history_law :: "'d automerge \<Rightarrow> ('d \<Rightarrow> bytes set) \<Rightarrow> bool" where
  "history_law A hist \<longleftrightarrow>
     (\<forall>d r m. am_merge A d r = Some m \<longrightarrow> hist m = hist d \<union> hist r) \<and>
     (\<forall>r d. set (am_getChanges A r d) = hist d - hist r)"

text \<open>An exchange that is not the adoption of the server's document by an untouched placeholder.\<close>

definition merges :: "'d automerge \<Rightarrow> nat \<Rightarrow> 'd app_state \<Rightarrow> bool" where
  "merges A pending s \<longleftrightarrow> ap_hasLoadedInitialDoc s \<or> 0 < pending \<or> \<not> isPristineSeed A (ap_project s)"

lemma onDocument_merges:
  assumes "merges A pending s" and "am_load A data = Some r" and "am_merge A (ps_doc (ap_project s)) r = Some m"
  shows "\<exists>b. fst (onDocument A data pending s) = map CallSend (am_getChanges A r m) @ (if b then [CallResync 1000] else [])"
    and "ps_doc (ap_project (snd (onDocument A data pending s))) = m"
  using assms
  by (auto simp: onDocument_def merges_def merge_document_def mergeRemote_def getMissingChanges_def Let_def)

section \<open>Properties\<close>

text \<open>C3. An exchange leaves nothing behind: when a document of the server arrives on an open connection and
  merges, the project then holds every change of both sides, and what the client sends on that
  connection brings the server every change of the project it lacked, and every change of the queue.\<close>

theorem exchange_converges:
  assumes "history_law A hist"
    and "sv_ws c = Some OPEN" and "sv_awaitingInitialDoc c" and "\<not> ls_denied (sv_storage c)"
    and "read_queues (ls_items (sv_storage c)) (orphan_keys c) = Some adopted"
    and "length (adopted @ sv_outbox c) \<le> alive"
    and "merges A (pendingCount c) s" and "am_load A data = Some r"
    and "am_merge A (ps_doc (ap_project s)) r = Some m"
    and "receive_document A alive data (c, s) = (es, (c', s'))"
  shows "hist (ps_doc (ap_project s')) = hist (ps_doc (ap_project s)) \<union> hist r \<and>
    hist (ps_doc (ap_project s')) \<subseteq> hist r \<union> set (binary_frames (frames_of es)) \<and>
    set (sv_outbox c) \<subseteq> set (binary_frames (frames_of es))"
proof -
  obtain b where b: "fst (onDocument A data (pendingCount c) s)
      = map CallSend (am_getChanges A r m) @ (if b then [CallResync 1000] else [])"
    using onDocument_merges(1) [OF assms(7-9)] by blast
  have "s' = snd (onDocument A data (pendingCount c) s)"
    and es: "es = fst (on_binary (fst (onDocument A data (pendingCount c) s)) alive data c)"
    using assms(10) by (simp_all add: receive_document_def split_beta)
  with onDocument_merges(2) [OF assms(7-9)] have "ps_doc (ap_project s') = m" by simp
  moreover have "binary_frames (frames_of es) = am_getChanges A r m @ adopted @ sv_outbox c"
    unfolding es b by (rule on_binary_sends [OF assms(2-6)])
  ultimately show ?thesis
    using assms(1,9) by (auto simp: history_law_def)
qed

text \<open>A document as the list of its changes.\<close>

definition list_automerge :: "project \<Rightarrow> bytes list automerge" where
  "list_automerge v = \<lparr>am_view = (\<lambda>_. v), am_change = (\<lambda>d _. d), am_getLastLocalChange = (\<lambda>_. None),
     am_load = (\<lambda>b. Some [b]), am_save = concat, am_getHeads = (\<lambda>_. []), am_merge = (\<lambda>d r. Some (d @ r)),
     am_applyChange = (\<lambda>d c. Some (d @ [c])), am_getMissingDeps = (\<lambda>_. []),
     am_getChanges = (\<lambda>r d. filter (\<lambda>c. c \<notin> set r) d), am_seed = []\<rparr>"

definition example_client :: server_client where
  "example_client = (new_client ''ws://h'' None ''t'' \<lparr>ls_denied = False, ls_full = False, ls_items = []\<rparr>)
     \<lparr>sv_ws := Some OPEN, sv_outbox := [[2]]\<rparr>"

theorem exchange_converges_witness:
  "\<exists>es c' s'. receive_document (list_automerge (createEmptyDocument (Fin 48000))) 1 [1] (example_client,
      \<lparr>ap_project = \<lparr>ps_doc = [[2], [3]], ps_pending = [], ps_journal = empty_journal\<rparr>,
       ap_hasLoadedInitialDoc = True, ap_resyncCycles = 0\<rparr>) = (es, (c', s')) \<and>
    set (ps_doc (ap_project s')) = {[1], [2], [3 :: 8 word]} \<and> [2] \<in> set (binary_frames (frames_of es))"
proof -
  let ?s = "\<lparr>ap_project = \<lparr>ps_doc = [[2], [3]], ps_pending = [], ps_journal = empty_journal\<rparr>,
       ap_hasLoadedInitialDoc = True, ap_resyncCycles = 0\<rparr>"
  obtain es c' s' where e: "receive_document (list_automerge (createEmptyDocument (Fin 48000))) 1 [1] (example_client, ?s) = (es, (c', s'))"
    by (cases "receive_document (list_automerge (createEmptyDocument (Fin 48000))) 1 [1] (example_client, ?s)") auto
  have h: "history_law (list_automerge (createEmptyDocument (Fin 48000))) set" by (auto simp: history_law_def list_automerge_def)
  have c: "sv_ws example_client = Some OPEN" "sv_awaitingInitialDoc example_client"
    "\<not> ls_denied (sv_storage example_client)" "sv_outbox example_client = [[2]]"
    "read_queues (ls_items (sv_storage example_client)) (orphan_keys example_client) = Some []"
    by (simp_all add: example_client_def new_client_def orphan_keys_def)
  show ?thesis
    using e exchange_converges [OF h c(1,2,3,5) _ _ _ _ e, of "[[1]]" "[[2],[3],[1]]"] c(4)
    by (auto simp: merges_def list_automerge_def)
qed

section \<open>The verification cycles\<close>

fun exchanges :: "'d automerge \<Rightarrow> bytes list \<Rightarrow> 'd app_state \<Rightarrow> client_call list \<times> 'd app_state" where
  "exchanges A [] s = ([], s)"
| "exchanges A (data # ds) s =
     (let (calls, s') = onDocument A data 0 s; (calls', s'') = exchanges A ds s' in (calls @ calls', s''))"

text \<open>An exchange that moves nothing, in either direction.\<close>

definition quiet :: "'d automerge \<Rightarrow> 'd project_state \<Rightarrow> bytes \<Rightarrow> bool" where
  "quiet A p data \<longleftrightarrow> mergeRemote A data p = (Same, p) \<and> getMissingChanges A data p = []"

lemma quiet_exchange:
  assumes "ap_hasLoadedInitialDoc s" and "quiet A (ap_project s) data"
  shows "onDocument A data 0 s =
    (if 1 < ap_resyncCycles s then [CallResync 1000] else [], s\<lparr>ap_resyncCycles := ap_resyncCycles s - 1\<rparr>)"
  using assms by (auto simp: onDocument_def merge_document_def quiet_def owed_cycles_def Let_def)

lemma quiet_exchanges:
  assumes "ap_hasLoadedInitialDoc s" and "\<forall>data\<in>set ds. quiet A (ap_project s) data"
  shows "fst (exchanges A ds s) = replicate (min (length ds) (ap_resyncCycles s - 1)) (CallResync 1000)
    \<and> ap_resyncCycles (snd (exchanges A ds s)) = ap_resyncCycles s - length ds"
  using assms
proof (induction ds arbitrary: s)
  case (Cons data ds)
  let ?s = "s\<lparr>ap_resyncCycles := ap_resyncCycles s - 1\<rparr>"
  have "fst (exchanges A ds ?s) = replicate (min (length ds) (ap_resyncCycles s - 1 - 1)) (CallResync 1000)
      \<and> ap_resyncCycles (snd (exchanges A ds ?s)) = ap_resyncCycles s - 1 - length ds"
    using Cons.IH [of ?s] Cons.prems by simp
  moreover have "onDocument A data 0 s =
      (if 1 < ap_resyncCycles s then [CallResync 1000] else [], ?s)"
    using Cons.prems by (intro quiet_exchange) auto
  ultimately show ?case
    by (cases "ap_resyncCycles s - 1") (auto simp: split_beta Let_def)
qed simp

text \<open>C26. The verification stops: once the documents of the server move nothing any more, the client asks for exactly
  as many further resyncs as it owed minus one, at most one after the two cycles an exchange that
  moved something demands, and then for none.\<close>

theorem resync_cycles_end:
  assumes "ap_hasLoadedInitialDoc s" and "\<forall>data\<in>set ds. quiet A (ap_project s) data"
  shows "fst (exchanges A ds s) = replicate (min (length ds) (ap_resyncCycles s - 1)) (CallResync 1000)"
  using quiet_exchanges [OF assms] by simp

theorem resync_cycles_end_witness:
  "fst (exchanges ((list_automerge (createEmptyDocument (Fin 48000)))\<lparr>am_merge := (\<lambda>d r. Some d)\<rparr>) [[], [], [], []]
    \<lparr>ap_project = \<lparr>ps_doc = [[]], ps_pending = [], ps_journal = empty_journal\<rparr>,
     ap_hasLoadedInitialDoc = True, ap_resyncCycles = 2\<rparr>) = [CallResync 1000]"
  by (subst resync_cycles_end) (simp_all add: quiet_def mergeRemote_def getMissingChanges_def list_automerge_def)

section \<open>Limits\<close>

text \<open>
  A first document that does not load is not an error when the placeholder is untouched: the seed
  takes its place, and no resync is asked for.
\<close>

theorem unreadable_first_document:
  assumes "am_load A data = None" and "isPristineSeed A (ap_project s)" and "\<not> ap_hasLoadedInitialDoc s"
  shows "fst (onDocument A data 0 s) = [] \<and> ps_doc (ap_project (snd (onDocument A data 0 s))) = am_seed A"
  using assms by (simp add: onDocument_def load_def)

end
