(* ===== verification/Navigation.thy ===== *)
theory Navigation
  imports Geometry
begin

text \<open>
  Zoom and grid of the timeline, \<open>web/src/app/navigation.ts\<close>: the step of the grid at a zoom, the snap
  on the musical grid, the length of the content and the zoom around an anchor. \<open>TIMELINE.pps\<close>, the
  pixels of a second, is part of the state; drawing is left out.
\<close>

section \<open>The grid\<close>

text \<open>\<open>doc.sampleRate || 48000\<close>.\<close>

definition doc_rate :: "project \<Rightarrow> jsnum" where
  "doc_rate doc = js_or (d_sampleRate doc) (js_int 48000)"

definition snapStep :: "jsnum \<Rightarrow> jsnum" where
  "snapStep pps =
     (if js_le (js_int 80) pps then Fin (1/16)
      else if js_le (js_int 40) pps then Fin (1/8)
      else if js_le (js_int 10) pps then Fin (1/4)
      else Fin (1/2))"

definition snapTickStep :: "jsnum \<Rightarrow> jsnum" where
  "snapTickStep pps =
     (if js_le (js_int 80) pps then js_int 120
      else if js_le (js_int 40) pps then js_int 240
      else if js_le (js_int 10) pps then js_int 480
      else js_int 960)"

lemma snapStep_pos: "\<exists>k>0. snapStep v = Fin k"
proof -
  have "snapStep v \<in> {Fin (1/16), Fin (1/8), Fin (1/4), Fin (1/2)}" by (simp add: snapStep_def)
  then show ?thesis by (auto intro: exI [of _ "1/16"] exI [of _ "1/8"] exI [of _ "1/4"] exI [of _ "1/2"])
qed

text \<open>The nearest point of a grid.\<close>

definition snap_on :: "jsnum \<Rightarrow> jsnum \<Rightarrow> jsnum" where
  "snap_on step v = js_mul (js_round (js_div v step)) step"

definition snapSecMusical :: "jsnum \<Rightarrow> project \<Rightarrow> jsnum \<Rightarrow> jsnum js_result" where
  "snapSecMusical pps doc sec =
     js_bind (sampleToTick doc (js_mul sec (doc_rate doc))) (\<lambda>t.
     js_bind (tickToSample doc (js_max (js_int 0) (snap_on (snapTickStep pps) t))) (\<lambda>s.
       Inr (js_div s (doc_rate doc))))"

section \<open>Zoom\<close>

definition ZOOM_MIN :: jsnum where "ZOOM_MIN = js_int 4"

definition ZOOM_MAX :: jsnum where "ZOOM_MAX = js_int 200"

definition headWidth :: jsnum where "headWidth = js_int 260"

text \<open>The loop over the clips: the greatest end so far, in seconds.\<close>

fun latest_end :: "project \<Rightarrow> clip list \<Rightarrow> jsnum \<Rightarrow> jsnum js_result" where
  "latest_end doc [] end_sec = Inr end_sec"
| "latest_end doc (c # cs) end_sec =
     js_bind (clipEndSamples c doc) (\<lambda>e. latest_end doc cs (js_max end_sec (js_div e (doc_rate doc))))"

fun js_ceil :: "jsnum \<Rightarrow> jsnum" where
  "js_ceil (Fin x) = js_int \<lceil>x\<rceil>"
| "js_ceil v = v"

definition contentSeconds :: "project option \<Rightarrow> jsnum js_result" where
  "contentSeconds doc =
     js_bind (case doc of
         None \<Rightarrow> Inr (js_int 30)
       | Some d \<Rightarrow> latest_end d (concat (map t_clips (d_tracks d))) (js_int 30)) (\<lambda>e.
       Inr (js_add (js_ceil e) (js_int 5)))"

text \<open>The frame that is asked for keeps the anchor of the call that asked for it.\<close>

record view =
  vw_pps :: jsnum
  vw_followPaused :: bool
  vw_zoomRaf :: "(jsnum \<times> jsnum) option"
  vw_programmaticScroll :: bool
  vw_scrollLeft :: jsnum

definition setZoom :: "jsnum \<Rightarrow> jsnum \<Rightarrow> jsnum \<Rightarrow> view \<Rightarrow> view" where
  "setZoom newPps anchorSec anchorViewportX v =
     (let pps = js_min ZOOM_MAX (js_max ZOOM_MIN newPps) in
      if js_eq pps (vw_pps v) then v
      else v\<lparr>vw_pps := pps, vw_followPaused := True,
             vw_zoomRaf := (if vw_zoomRaf v = None then Some (anchorSec, anchorViewportX) else vw_zoomRaf v)\<rparr>)"

definition zoomFrame :: "view \<Rightarrow> view" where
  "zoomFrame v =
     (case vw_zoomRaf v of
        None \<Rightarrow> v
      | Some (anchorSec, x) \<Rightarrow>
          v\<lparr>vw_zoomRaf := None, vw_programmaticScroll := True,
            vw_scrollLeft := js_max (js_int 0) (js_sub (js_mul anchorSec (vw_pps v)) (js_sub x headWidth))\<rparr>)"

definition fitAll :: "project option \<Rightarrow> jsnum \<Rightarrow> view \<Rightarrow> view js_result" where
  "fitAll doc width v =
     js_bind (contentSeconds doc) (\<lambda>secs.
       Inr (setZoom (js_div (js_sub (js_sub width headWidth) (js_int 20)) secs) (js_int 0) headWidth v))"

end
