(* ===== verification/Playback.thy ===== *)
theory Playback
  imports Engine_Run Transport_Sync Navigation
begin

text \<open>
  The transport of a tab: \<open>web/src/app/transport.ts\<close> (play and stop), the links of \<open>web/src/app/wiring.ts\<close>
  between the transport anchors and the engine, and the loop region of
  \<open>web/src/app/loop_region.ts\<close>. The codec of the engine's messages and what the handlers read (the
  time, the clocks) are arguments. Flashing buttons and titles are left out; the state of the
  loop button, which the code reads back, is kept.
\<close>

section \<open>State\<close>

record playback =
  pl_engine :: engine_client
  pl_sync :: transport_sync
  pl_jamListening :: bool
  pl_insertMarkerSec :: jsnum
  pl_lastPlayheadSec :: jsnum
  pl_followPaused :: bool
  pl_loopRegion :: "(jsnum \<times> jsnum) option"
  pl_loopPressed :: bool

datatype playback_effect = ToEngine engine_effect | ToPeers sync_signal | Refused

type_synonym playback_action = "(playback, playback_effect) handler"

definition on_engine :: "engine_action \<Rightarrow> playback_action" where
  "on_engine a s = (let (es, e) = a (pl_engine s) in (map ToEngine es, s\<lparr>pl_engine := e\<rparr>))"

definition on_sync :: "(transport_sync \<Rightarrow> sync_signal list \<times> transport_sync) \<Rightarrow> playback_action" where
  "on_sync a s = (let (es, y) = a (pl_sync s) in (map ToPeers es, s\<lparr>pl_sync := y\<rparr>))"

text \<open>\<open>ctx.project?.getDocument().sampleRate || 48000\<close>\<close>

definition sample_rate :: "project option \<Rightarrow> jsnum" where
  "sample_rate doc =
     (case doc of
        None \<Rightarrow> js_int 48000
      | Some d \<Rightarrow> if d_sampleRate d = js_int 0 \<or> d_sampleRate d = NaN then js_int 48000 else d_sampleRate d)"

definition at_sample :: "project option \<Rightarrow> jsnum \<Rightarrow> jsnum" where
  "at_sample doc sec = js_round (js_mul sec (sample_rate doc))"

section \<open>Play and stop\<close>

definition transportRefusedByProjectGuard :: "string \<Rightarrow> playback \<Rightarrow> bool" where
  "transportRefusedByProjectGuard projectId s \<longleftrightarrow>
     engineProjectId (pl_engine s) \<noteq> [] \<and> engineProjectId (pl_engine s) \<noteq> projectId"

definition startPlayback :: "codec \<Rightarrow> sync_env \<Rightarrow> string \<Rightarrow> project option \<Rightarrow> playback_action" where
  "startPlayback pb env projectId doc s =
     (if \<not> engine_isConnected (pl_engine s) then ([], s)
      else if pl_jamListening s then ([], s)
      else if transportRefusedByProjectGuard projectId s then ([Refused], s)
      else do_all
        [on_engine (seek pb (at_sample doc (pl_insertMarkerSec s))),
         on_engine (play pb),
         on_sync (publish env True (pl_insertMarkerSec s)),
         act (pl_followPaused_update (\<lambda>_. False))] s)"

definition stopPlayback :: "codec \<Rightarrow> sync_env \<Rightarrow> project option \<Rightarrow> playback_action" where
  "stopPlayback pb env doc s =
     (if \<not> engine_isConnected (pl_engine s) then ([], s)
      else if isPlaying (pl_engine s)
      then do_all
        [on_engine (stop pb),
         on_sync (publish env False (js_max (js_int 0) (pl_lastPlayheadSec s)))] s
      else do_all
        [on_engine (seek pb (at_sample doc (pl_insertMarkerSec s))),
         on_sync (publish env False (pl_insertMarkerSec s))] s)"

text \<open>An anchor of a peer drives the engine; the answer to a rejoin request comes from it.\<close>

definition onApply :: "codec \<Rightarrow> project option \<Rightarrow> bool \<Rightarrow> jsnum \<Rightarrow> playback_action" where
  "onApply pb doc playing posSec s =
     (if \<not> engine_isConnected (pl_engine s) then ([], s)
      else if playing
      then do_all [on_engine (seek pb (at_sample doc posSec)), on_engine (play pb)] s
      else do_all [on_engine (stop pb), on_engine (seek pb (at_sample doc posSec))] s)"

definition anchorProvider :: "playback \<Rightarrow> (bool \<times> jsnum) option" where
  "anchorProvider s =
     (if engine_isConnected (pl_engine s) \<and> isPlaying (pl_engine s)
      then Some (True, js_max (js_int 0) (pl_lastPlayheadSec s)) else None)"

definition stateProvider :: "playback \<Rightarrow> live_state" where
  "stateProvider s = \<lparr>lv_engineConnected = engine_isConnected (pl_engine s),
     lv_playing = isPlaying (pl_engine s), lv_posSec = js_max (js_int 0) (pl_lastPlayheadSec s)\<rparr>"

text \<open>A message of a peer, as the tab handles it: the anchor it applies goes to the engine.\<close>

definition receive_anchor :: "codec \<Rightarrow> sync_env \<Rightarrow> project option \<Rightarrow> anchor_msg \<Rightarrow> playback_action" where
  "receive_anchor pb env doc m s =
     (let env = env\<lparr>env_anchor := anchorProvider s, env_live := Some (stateProvider s),
            env_suspended := pl_jamListening s\<rparr>;
          (sent, applied, y) = sync_handleSignal env m (pl_sync s);
          s' = s\<lparr>pl_sync := y\<rparr>;
          (es, s'') = (case applied of None \<Rightarrow> ([], s') | Some (playing, posSec) \<Rightarrow> onApply pb doc playing posSec s')
      in (map ToPeers sent @ es, s''))"

section \<open>The loop region\<close>

definition MIN_DRAG_PX :: jsnum where
  "MIN_DRAG_PX = js_int 4"

definition reassertLoopRegion :: "codec \<Rightarrow> project option \<Rightarrow> playback \<Rightarrow> bool \<times> playback_effect list \<times> playback" where
  "reassertLoopRegion pb doc s =
     (case pl_loopRegion s of
        None \<Rightarrow> (False, [], s)
      | Some (startSec, endSec) \<Rightarrow>
          (True, on_engine (setLoopRegion pb (at_sample doc startSec) (at_sample doc endSec)) s))"

text \<open>\<open>onConnect\<close> of the engine: the region, else the plain toggle if the button is pressed.\<close>

definition reassert_loop :: "codec \<Rightarrow> project option \<Rightarrow> playback_action" where
  "reassert_loop pb doc s =
     (case reassertLoopRegion pb doc s of
        (True, es, s') \<Rightarrow> (es, s')
      | (False, _, _) \<Rightarrow> if pl_loopPressed s then on_engine (setLoop pb True) s else ([], s))"

text \<open>
  The gesture on the band of the ruler: a press that is still a click (the second it points at and
  its x), and a drag (the second it began at, the start and the end).
\<close>

record loop_gesture =
  lg_candidate :: "(jsnum \<times> jsnum) option"
  lg_drag :: "(jsnum \<times> jsnum \<times> jsnum) option"

text \<open>Where the pointer is: its x, the left edge of the band, and the scale in pixels per second.\<close>

record pointer =
  pt_x :: jsnum
  pt_left :: jsnum
  pt_pps :: jsnum
  pt_alt :: bool

definition secAt :: "pointer \<Rightarrow> jsnum" where
  "secAt p = js_max (js_int 0) (js_div (js_sub (pt_x p) (pt_left p)) (pt_pps p))"

definition snap :: "pointer \<Rightarrow> jsnum \<Rightarrow> jsnum" where
  "snap p sec =
     (if pt_alt p then sec
      else (let step = snapStep (pt_pps p) in js_mul (js_round (js_div sec step)) step))"

definition loop_down :: "pointer \<Rightarrow> loop_gesture \<Rightarrow> loop_gesture" where
  "loop_down p g = g\<lparr>lg_candidate := Some (secAt p, pt_x p)\<rparr>"

text \<open>The candidate becomes a drag after 4 pixels.\<close>

definition loop_arm :: "pointer \<Rightarrow> loop_gesture \<Rightarrow> loop_gesture" where
  "loop_arm p g =
     (case (lg_drag g, lg_candidate g) of
        (None, Some (origin, x)) \<Rightarrow>
          (let d = js_sub (pt_x p) x in
           if js_le MIN_DRAG_PX (js_max d (js_neg d))
           then \<lparr>lg_candidate = None, lg_drag = Some (origin, origin, origin)\<rparr> else g)
      | _ \<Rightarrow> g)"

definition loop_move :: "pointer \<Rightarrow> loop_gesture \<Rightarrow> loop_gesture" where
  "loop_move p g0 =
     (let g = loop_arm p g0 in
      case lg_drag g of
        None \<Rightarrow> g
      | Some (origin, _, _) \<Rightarrow>
          (let cur = secAt p
           in g\<lparr>lg_drag := Some (origin, snap p (js_min origin cur), snap p (js_max origin cur))\<rparr>))"

definition loop_escape :: "loop_gesture \<Rightarrow> loop_gesture" where
  "loop_escape g = g\<lparr>lg_drag := None\<rparr>"

definition loop_commit :: "codec \<Rightarrow> project option \<Rightarrow> jsnum \<Rightarrow> jsnum \<Rightarrow> playback_action" where
  "loop_commit pb doc startSec endSec =
     do_all [act (pl_loopRegion_update (\<lambda>_. Some (startSec, endSec))),
       on_engine (setLoopRegion pb (at_sample doc startSec) (at_sample doc endSec)),
       act (pl_loopPressed_update (\<lambda>_. True))]"

definition loop_up ::
  "codec \<Rightarrow> project option \<Rightarrow> jsnum \<Rightarrow> loop_gesture \<Rightarrow> playback_action" where
  "loop_up pb doc pps g s =
     (case lg_drag g of
        None \<Rightarrow> ([], s)
      | Some (_, startSec, endSec) \<Rightarrow>
          if js_lt (js_mul (js_sub endSec startSec) pps) MIN_DRAG_PX then ([], s)
          else loop_commit pb doc startSec endSec s)"

definition no_gesture :: loop_gesture where
  "no_gesture = \<lparr>lg_candidate = None, lg_drag = None\<rparr>"

definition loop_dblclick :: "codec \<Rightarrow> playback_action" where
  "loop_dblclick pb s =
     (if pl_loopRegion s = None then ([], s)
      else
        (let (es, s) = on_engine (clearLoopRegion pb) (s\<lparr>pl_loopRegion := None\<rparr>)
         in (es, s\<lparr>pl_loopPressed := False\<rparr>)))"

text \<open>The loop button of \<open>wiring.ts\<close>.\<close>

definition toggle_loop :: "codec \<Rightarrow> playback_action" where
  "toggle_loop pb s =
     (let on = (\<not> pl_loopPressed s) in on_engine (setLoop pb on) (s\<lparr>pl_loopPressed := on\<rparr>))"

section \<open>The gestures of the loop\<close>

datatype loop_event =
    PointerDown pointer
  | PointerMove pointer
  | PointerUp jsnum
  | EscapeKey
  | DoubleClick
  | LoopButton

fun loop_handle :: "codec \<Rightarrow> project option \<Rightarrow> loop_event \<Rightarrow> (loop_gesture \<times> playback, playback_effect) handler" where
  "loop_handle pb doc (PointerDown p) (g, s) = ([], loop_down p g, s)"
| "loop_handle pb doc (PointerMove p) (g, s) = ([], loop_move p g, s)"
| "loop_handle pb doc (PointerUp pps) (g, s) = (let (es, s') = loop_up pb doc pps g s in (es, no_gesture, s'))"
| "loop_handle pb doc EscapeKey (g, s) = ([], loop_escape g, s)"
| "loop_handle pb doc DoubleClick (g, s) = (let (es, s') = loop_dblclick pb s in (es, g, s'))"
| "loop_handle pb doc LoopButton (g, s) = (let (es, s') = toggle_loop pb s in (es, g, s'))"

definition loop_events :: "codec \<Rightarrow> project option \<Rightarrow> loop_event list \<Rightarrow> (loop_gesture \<times> playback, playback_effect) handler" where
  "loop_events pb doc evs = do_all (map (loop_handle pb doc) evs)"

text \<open>Finite coordinates and a positive scale, as a browser gives them.\<close>

definition real_pointer :: "pointer \<Rightarrow> bool" where
  "real_pointer p \<longleftrightarrow> js_finite (pt_x p) \<and> js_finite (pt_left p) \<and> (\<exists>k>0. pt_pps p = Fin k)"

fun real_event :: "loop_event \<Rightarrow> bool" where
  "real_event (PointerDown p) = real_pointer p"
| "real_event (PointerMove p) = real_pointer p"
| "real_event (PointerUp pps) = (\<exists>k>0. pps = Fin k)"
| "real_event _ = True"

text \<open>A region is none, or runs from a second not below 0 to a later one.\<close>

definition region_ok :: "(jsnum \<times> jsnum) option \<Rightarrow> bool" where
  "region_ok r \<longleftrightarrow> r = None \<or> (\<exists>a b. r = Some (Fin a, Fin b) \<and> 0 \<le> a \<and> a < b)"

definition gesture_ok :: "loop_gesture \<Rightarrow> bool" where
  "gesture_ok g \<longleftrightarrow> (\<forall>c x. lg_candidate g = Some (c, x) \<longrightarrow> (\<exists>c'. c = Fin c' \<and> 0 \<le> c')) \<and>
     (\<forall>c a b. lg_drag g = Some (c, a, b) \<longrightarrow>
       (\<exists>c' a' b'. c = Fin c' \<and> 0 \<le> c' \<and> a = Fin a' \<and> b = Fin b' \<and> 0 \<le> a' \<and> a' \<le> b'))"

lemma secAt_real: "real_pointer p \<Longrightarrow> \<exists>c. secAt p = Fin c \<and> 0 \<le> c"
  by (cases "pt_x p"; cases "pt_left p") (auto simp: real_pointer_def secAt_def js_arith split: if_splits)

lemma snap_mono:
  assumes "real_pointer p" and "0 \<le> a" and "a \<le> b"
  shows "\<exists>a' b'. snap p (Fin a) = Fin a' \<and> snap p (Fin b) = Fin b' \<and> 0 \<le> a' \<and> a' \<le> b'"
proof (cases "pt_alt p")
  case False
  obtain k where k: "snapStep (pt_pps p) = Fin k" "0 < k" using snapStep_pos by blast
  have "(0 :: int) \<le> \<lfloor>a / k + 1/2\<rfloor>" using assms(2) k(2) by simp
  moreover have "\<lfloor>a / k + 1/2\<rfloor> \<le> \<lfloor>b / k + 1/2\<rfloor>"
    using assms(3) k(2) by (intro floor_mono) (simp add: divide_right_mono)
  ultimately have "0 \<le> of_int \<lfloor>a / k + 1/2\<rfloor> * k" and "of_int \<lfloor>a / k + 1/2\<rfloor> * k \<le> of_int \<lfloor>b / k + 1/2\<rfloor> * k"
    using k(2) by (simp_all add: mult_right_mono)
  then show ?thesis using False k by (simp add: snap_def)
qed (use assms in \<open>simp add: snap_def\<close>)

lemma drag_ok:
  assumes "real_pointer p" and "0 \<le> c" and "cur = Fin c'" and "0 \<le> c'"
  shows "\<exists>a b. snap p (js_min (Fin c) cur) = Fin a \<and> snap p (js_max (Fin c) cur) = Fin b \<and> 0 \<le> a \<and> a \<le> b"
  using snap_mono [OF assms(1), of "min c c'" "max c c'"] assms(2-4)
  by (auto simp: js_min_def js_max_def min_def max_def split: if_splits)

lemma loop_move_ok:
  assumes "real_pointer p" and "gesture_ok g"
  shows "gesture_ok (loop_move p g)"
proof -
  have arm: "gesture_ok (loop_arm p g)"
    using assms(2) by (auto simp: loop_arm_def gesture_ok_def Let_def split: option.splits)
  show ?thesis
  proof (cases "lg_drag (loop_arm p g)")
    case (Some d)
    obtain c a b where d: "d = (Fin c, a, b)" "0 \<le> c"
      using arm Some by (cases d) (auto simp: gesture_ok_def)
    obtain c' where c': "secAt p = Fin c'" "0 \<le> c'" using secAt_real [OF assms(1)] by blast
    show ?thesis
      using arm Some d drag_ok [OF assms(1) d(2) c'] by (auto simp: loop_move_def gesture_ok_def Let_def)
  qed (use arm in \<open>simp add: loop_move_def Let_def\<close>)
qed

lemma on_engine_same [simp]:
  "pl_loopRegion (snd (on_engine a s)) = pl_loopRegion s" "pl_loopPressed (snd (on_engine a s)) = pl_loopPressed s"
  "pl_jamListening (snd (on_engine a s)) = pl_jamListening s"
  by (simp_all add: on_engine_def split_beta Let_def)

lemma loop_up_ok:
  assumes "gesture_ok g" and "region_ok (pl_loopRegion s)" and "0 < k"
  shows "region_ok (pl_loopRegion (snd (loop_up pb doc (Fin k) g s)))"
proof (cases "lg_drag g")
  case (Some d)
  then obtain c a b where d: "d = (c, Fin a, Fin b)" "0 \<le> a"
    using assms(1) by (cases d) (auto simp: gesture_ok_def)
  show ?thesis
  proof (cases "(b - a) * k < 4")
    case False
    then have "0 < (b - a) * k" by linarith
    then have "0 < b - a" using assms(3) by (simp add: zero_less_mult_iff)
    with False d Some show ?thesis
      by (simp add: loop_up_def loop_commit_def handler_defs split_beta region_ok_def js_sub_def MIN_DRAG_PX_def)
  qed (use assms(2) d Some in \<open>simp add: loop_up_def js_sub_def MIN_DRAG_PX_def\<close>)
qed (use assms(2) in \<open>simp add: loop_up_def\<close>)

lemma loop_event_ok:
  assumes "real_event ev" and "gesture_ok g" and "region_ok (pl_loopRegion s)"
  shows "gesture_ok (fst (snd (loop_handle pb doc ev (g, s)))) \<and>
    region_ok (pl_loopRegion (snd (snd (loop_handle pb doc ev (g, s)))))"
proof (cases ev)
  case (PointerDown p)
  then show ?thesis
    using assms secAt_real [of p] by (auto simp: loop_down_def gesture_ok_def)
next
  case (PointerUp pps)
  then show ?thesis
    using assms loop_up_ok [OF assms(2,3)] by (auto simp: split_beta Let_def no_gesture_def gesture_ok_def)
next
  case (PointerMove p)
  then show ?thesis using assms loop_move_ok by simp
qed (use assms in \<open>auto simp: loop_escape_def loop_dblclick_def toggle_loop_def split_beta Let_def
  gesture_ok_def region_ok_def\<close>)

lemma loop_events_ok:
  assumes "\<forall>ev\<in>set evs. real_event ev" and "gesture_ok g" and "region_ok (pl_loopRegion s)"
  shows "region_ok (pl_loopRegion (snd (snd (loop_events pb doc evs (g, s)))))"
  using assms
proof (induction evs arbitrary: g s)
  case Nil
  then show ?case by (simp add: loop_events_def do_all_def nothing_def)
next
  case (Cons ev evs)
  obtain es g' s' where e: "loop_handle pb doc ev (g, s) = (es, g', s')"
    by (cases "loop_handle pb doc ev (g, s)") auto
  then have "snd (loop_events pb doc (ev # evs) (g, s)) = snd (loop_events pb doc evs (g', s'))"
    by (simp add: loop_events_def do_all_def seq_def split_beta Let_def)
  moreover have "gesture_ok g'" "region_ok (pl_loopRegion s')"
    using loop_event_ok [of ev g s pb doc] Cons.prems e by simp_all
  ultimately show ?case using Cons.IH [of g' s'] Cons.prems(1) by simp
qed

section \<open>Playing\<close>

definition command_frame :: "codec \<Rightarrow> transport_data \<Rightarrow> playback_effect" where
  "command_frame pb d = ToEngine (ESend (encodeMessage pb (Transport d)))"

definition seek_to :: "jsnum \<Rightarrow> transport_data" where
  "seek_to v = (command SEEK)\<lparr>td_seekPosition := Some v\<rparr>"

lemma on_engine_seek: "engine_isConnected (pl_engine s) \<Longrightarrow>
    on_engine (seek pb v) s = ([command_frame pb (seek_to v)], s)"
  by (simp add: on_engine_def seek_def sendTransport_def send_message_def sendBinary_def engine_isConnected_def
      command_frame_def seek_to_def)

lemma on_engine_play: "engine_isConnected (pl_engine s) \<Longrightarrow>
    on_engine (play pb) s = ([command_frame pb (command PLAY)], s)"
  by (simp add: on_engine_def play_def sendTransport_def send_message_def sendBinary_def engine_isConnected_def
      command_frame_def)

lemma startPlayback_effects:
  "fst (startPlayback pb env projectId doc s) =
    (if \<not> engine_isConnected (pl_engine s) \<or> pl_jamListening s then []
     else if transportRefusedByProjectGuard projectId s then [Refused]
     else [command_frame pb (seek_to (at_sample doc (pl_insertMarkerSec s))), command_frame pb (command PLAY)]
       @ (if tx_enabled (pl_sync s) then [ToPeers (SendAnchor None True (pl_insertMarkerSec s) (env_now env))] else []))"
  by (simp add: startPlayback_def do_all_def seq_def nothing_def act_def Let_def on_engine_seek on_engine_play
      on_sync_def publish_def split_beta)

lemma onApply_playing: "engine_isConnected (pl_engine s) \<Longrightarrow>
    fst (onApply pb doc True posSec s) = [command_frame pb (seek_to (at_sample doc posSec)), command_frame pb (command PLAY)]"
  by (simp add: onApply_def do_all_def seq_def nothing_def Let_def on_engine_seek on_engine_play split_beta)

text \<open>The message a published anchor is on the wire, and a tab that can follow it.\<close>

definition anchor_from :: "string \<Rightarrow> jsnum \<Rightarrow> rat \<Rightarrow> anchor_msg" where
  "anchor_from peer posSec t = \<lparr>am_ta = Some (js_int 1), am_from = Some peer, am_to = None, am_playing = Some True,
     am_posSec = Some posSec, am_t = Some (Fin t)\<rparr>"

text \<open>
  \<open>follows env peer d t b\<close>: tab \<open>b\<close> is armed and connected, does not listen to a jam, knows that
  the clock of \<open>peer\<close> is ahead of its own by \<open>d\<close>, and holds no later anchor.
\<close>

definition follows :: "sync_env \<Rightarrow> string \<Rightarrow> rat \<Rightarrow> rat \<Rightarrow> playback \<Rightarrow> bool" where
  "follows env peer d t b \<longleftrightarrow> tx_enabled (pl_sync b) \<and> engine_isConnected (pl_engine b) \<and> \<not> pl_jamListening b \<and>
     peer \<noteq> [] \<and> peer \<noteq> env_me env \<and>
     (\<exists>pc. map_of (env_peers env) peer = Some pc \<and> offsetMs pc = Fin d) \<and>
     \<not> (\<exists>l. tx_last (pl_sync b) = Some l \<and> older_than (Fin (t - d)) peer l)"

lemma receive_anchor_followed:
  assumes "follows env peer d t b" and "env_now env = Fin now"
  shows "fst (receive_anchor pb env doc (anchor_from peer (Fin p) t) b) =
    [command_frame pb (seek_to (at_sample doc (Fin (max 0 (p + (now - (t - d)) / 1000))))),
     command_frame pb (command PLAY)]"
proof -
  let ?env = "env\<lparr>env_anchor := anchorProvider b, env_live := Some (stateProvider b), env_suspended := pl_jamListening b\<rparr>"
  obtain pc where pc: "map_of (env_peers env) peer = Some pc" "offsetMs pc = Fin d"
    using assms(1) by (auto simp: follows_def)
  have "\<exists>y. sync_handleSignal ?env (anchor_from peer (Fin p) t) (pl_sync b)
      = ([], Some (True, Fin (max 0 (p + (now - (t - d)) / 1000))), y)"
  proof -
    have r: "now - (t - d) = now + (d - t)" by simp
    show ?thesis
      using assms pc unfolding r
      by (simp add: follows_def sync_handleSignal_def anchor_from_def tryApply_def Let_def js_arith max_def)
  qed
  then obtain y where y: "sync_handleSignal ?env (anchor_from peer (Fin p) t) (pl_sync b)
      = ([], Some (True, Fin (max 0 (p + (now - (t - d)) / 1000))), y)" by blast
  have "engine_isConnected (pl_engine (b\<lparr>pl_sync := y\<rparr>))" using assms(1) by (simp add: follows_def)
  then show ?thesis
    using onApply_playing [of "b\<lparr>pl_sync := y\<rparr>" pb doc] y by (simp add: receive_anchor_def split_beta Let_def)
qed

section \<open>Properties\<close>


definition example_tab :: "string \<Rightarrow> playback" where
  "example_tab tab = \<lparr>pl_engine = (new_engine \<lparr>ec_address = None, ec_port = None, ec_token = None\<rparr> False)\<lparr>en_ws := Some OPEN\<rparr>,
     pl_sync = new_sync\<lparr>tx_enabled := True\<rparr>, pl_jamListening = False, pl_insertMarkerSec = Fin 2,
     pl_lastPlayheadSec = Fin 0, pl_followPaused = False, pl_loopRegion = None, pl_loopPressed = False\<rparr>"


text \<open>A tab never makes the engine play what it does not show: starting playback sends something to the engine or
  the peers only when the engine is connected, the tab does not listen to a jam, and the engine's
  project is the tab's own, or unknown.\<close>

theorem playback_only_own_project:
  assumes "e \<in> set (fst (startPlayback pb env projectId doc s))" and "e \<noteq> Refused"
  shows "engine_isConnected (pl_engine s) \<and> \<not> pl_jamListening s \<and>
    (engineProjectId (pl_engine s) = [] \<or> engineProjectId (pl_engine s) = projectId)"
  using assms by (auto simp: startPlayback_effects transportRefusedByProjectGuard_def split: if_splits)

theorem playback_only_own_project_witness:
  "engine_isConnected (pl_engine (example_tab ''a''))"
  using playback_only_own_project [of "command_frame pb (command PLAY)" pb
      "\<lparr>env_me = ''a'', env_now = Fin 100, env_peers = [], env_suspended = False, env_anchor = None, env_live = None\<rparr>"
      "''p''" None "example_tab ''a''"]
  by (simp add: startPlayback_effects example_tab_def engine_isConnected_def new_sync_def new_engine_def
      transportRefusedByProjectGuard_def engineProjectId_def command_frame_def)

text \<open>C40. The loop region is always a region: after any sequence of presses, moves, releases, Escapes, double clicks
  and uses of the button, at any zoom, it is absent or runs from a second not below zero to a
  later one.\<close>

theorem loop_region_well_formed:
  assumes "\<forall>ev\<in>set evs. real_event ev" and "pl_loopRegion s = None"
  shows "region_ok (pl_loopRegion (snd (snd (loop_events pb doc evs (no_gesture, s)))))"
  using loop_events_ok [OF assms(1), of no_gesture s] assms(2)
  by (simp add: gesture_ok_def no_gesture_def region_ok_def)

theorem loop_region_well_formed_witness:
  "region_ok (pl_loopRegion (snd (snd (loop_events \<lparr>pb_encode = (\<lambda>_. []), pb_decode = (\<lambda>_. None)\<rparr> None
    [PointerDown \<lparr>pt_x = Fin 100, pt_left = Fin 0, pt_pps = Fin 20, pt_alt = False\<rparr>,
     PointerMove \<lparr>pt_x = Fin 10, pt_left = Fin 0, pt_pps = Fin 20, pt_alt = False\<rparr>, PointerUp (Fin 20)]
    (no_gesture, example_tab ''a'')))))"
  by (rule loop_region_well_formed) (simp_all add: real_pointer_def example_tab_def)

section \<open>Limits\<close>

text \<open>
  The region outlives the button: after the loop was switched off with a region set, a reconnection
  of the engine switches it on again, since the region is sent with \<open>loopEnabled\<close> true whatever the
  button says.
\<close>

theorem reconnection_reenables_loop:
  assumes "engine_isConnected (pl_engine s)" and "pl_loopRegion s = Some r" and "\<not> pl_loopPressed s"
  shows "\<exists>d. fst (reassert_loop pb doc s) = [command_frame pb d] \<and> td_action d = LOOP \<and> td_loopEnabled d = Some True"
  using assms
  by (cases r) (auto simp: reassert_loop_def reassertLoopRegion_def on_engine_def setLoopRegion_def send_message_def
      sendBinary_def engine_isConnected_def command_frame_def command_def)

end
