(* ===== verification/Clip_Selection.thy ===== *)
theory Clip_Selection
  imports Schema
begin

text \<open>
  The selection of clips, \<open>web/src/app/clip_selection.ts\<close>: the main clip, the lot of selected clips and
  the selected span of time. A JavaScript \<open>Set\<close> is the list of its elements in insertion order.
\<close>

section \<open>State and operations\<close>

record selection =
  se_trackId :: "string option"
  se_clipId :: "string option"
  se_clipIds :: "string list"
  se_time :: "(jsnum \<times> jsnum) option"

definition set_add :: "'a \<Rightarrow> 'a list \<Rightarrow> 'a list" where
  "set_add x xs = (if x \<in> set xs then xs else xs @ [x])"

definition last_of :: "'a list \<Rightarrow> 'a option" where
  "last_of xs = (if xs = [] then None else Some (last xs))"

definition selectClip :: "string \<Rightarrow> string \<Rightarrow> bool \<Rightarrow> selection \<Rightarrow> selection" where
  "selectClip clipId trackId adding s0 =
     (let s = s0\<lparr>se_time := None\<rparr>
      in if adding \<and> clipId \<in> set (se_clipIds s) \<and> 1 < length (se_clipIds s)
         then
           (let rest = removeAll clipId (se_clipIds s)
            in s\<lparr>se_clipIds := rest,
                 se_clipId := (if se_clipId s = Some clipId then last_of rest else se_clipId s),
                 se_trackId := Some trackId\<rparr>)
         else s\<lparr>se_clipIds := (if adding then set_add clipId (se_clipIds s) else [clipId]),
           se_clipId := Some clipId, se_trackId := Some trackId\<rparr>)"

definition clearClipSelection :: "selection \<Rightarrow> selection" where
  "clearClipSelection s = s\<lparr>se_clipIds := [], se_clipId := None, se_time := None\<rparr>"

definition setTimeSelection :: "jsnum \<Rightarrow> jsnum \<Rightarrow> selection \<Rightarrow> selection" where
  "setTimeSelection startSec endSec s =
     s\<lparr>se_time := (if js_lt startSec endSec then Some (startSec, endSec) else None)\<rparr>"

definition setClipSelection :: "string list \<Rightarrow> bool \<Rightarrow> selection \<Rightarrow> selection" where
  "setClipSelection ids adding s =
     (let lot = fold set_add ids (if adding then se_clipIds s else [])
      in s\<lparr>se_clipIds := lot,
           se_clipId := (if ids \<noteq> [] then Some (last ids)
             else if \<not> adding \<or> lot = [] then None else se_clipId s)\<rparr>)"

definition isClipSelected :: "string \<Rightarrow> selection \<Rightarrow> bool" where
  "isClipSelected clipId s \<longleftrightarrow> clipId \<in> set (se_clipIds s)"

definition lot_in :: "project \<Rightarrow> string list \<Rightarrow> (string \<times> clip) list" where
  "lot_in doc ids = concat (map (\<lambda>t. map (\<lambda>c. (t_id t, c)) (filter (\<lambda>c. c_id c \<in> set ids) (t_clips t))) (d_tracks doc))"

definition selectedClips :: "project option \<Rightarrow> selection \<Rightarrow> (string \<times> clip) list \<times> selection" where
  "selectedClips doc s =
     (case doc of
        None \<Rightarrow> ([], s)
      | Some d \<Rightarrow>
          (let out = lot_in d (se_clipIds s);
               alive = map (\<lambda>(_, c). c_id c) out
           in (out, s\<lparr>se_clipIds := filter (\<lambda>i. i \<in> set alive) (se_clipIds s),
                se_clipId := (case se_clipId s of
                    None \<Rightarrow> None
                  | Some i \<Rightarrow> if i \<in> set alive then Some i else last_of alive)\<rparr>)))"

section \<open>The invariant\<close>

text \<open>The main clip is in the lot, or both are empty; the lot has no duplicate.\<close>

definition selection_ok :: "selection \<Rightarrow> bool" where
  "selection_ok s \<longleftrightarrow> distinct (se_clipIds s) \<and>
     (se_clipId s = None \<longrightarrow> se_clipIds s = []) \<and> (\<forall>i. se_clipId s = Some i \<longrightarrow> i \<in> set (se_clipIds s))"

datatype selection_op =
    Select string string bool
  | Clear
  | Time jsnum jsnum
  | Lasso "string list" bool
  | Resolve "project option"

fun select_op :: "selection_op \<Rightarrow> selection \<Rightarrow> selection" where
  "select_op (Select c t adding) s = selectClip c t adding s"
| "select_op Clear s = clearClipSelection s"
| "select_op (Time a b) s = setTimeSelection a b s"
| "select_op (Lasso ids adding) s = setClipSelection ids adding s"
| "select_op (Resolve doc) s = snd (selectedClips doc s)"

lemma set_add_facts [simp]: "set (set_add x xs) = insert x (set xs)" "distinct xs \<Longrightarrow> distinct (set_add x xs)"
  by (auto simp: set_add_def)

lemma fold_set_add:
  "set (fold set_add ids xs) = set ids \<union> set xs" "distinct xs \<Longrightarrow> distinct (fold set_add ids xs)"
  by (induction ids arbitrary: xs) auto

lemma last_of_facts: "last_of xs = Some x \<Longrightarrow> x \<in> set xs" "last_of xs = None \<longleftrightarrow> xs = []"
  by (auto simp: last_of_def split: if_splits)

lemma removeAll_other: "a \<in> set xs \<Longrightarrow> a \<noteq> c \<Longrightarrow> removeAll c xs \<noteq> []"
  by (metis DiffI empty_iff list.set(1) set_removeAll singletonD)

lemma selectClip_ok: "selection_ok s \<Longrightarrow> selection_ok (selectClip c t adding s)"
  using last_of_facts [of "removeAll c (se_clipIds s)"] removeAll_other [of _ "se_clipIds s" c]
  by (cases "se_clipId s"; cases "last_of (removeAll c (se_clipIds s))")
    (auto simp: selectClip_def selection_ok_def Let_def distinct_removeAll)

text \<open>A clip of the resolved lot was in the lot.\<close>

lemma lot_in_ids: "i \<in> set (map (\<lambda>(_, c). c_id c) (lot_in d ids)) \<Longrightarrow> i \<in> set ids"
  by (auto simp: lot_in_def)

lemma selectedClips_ok: "selection_ok s \<Longrightarrow> selection_ok (snd (selectedClips doc s))"
proof (cases doc)
  case (Some d)
  assume ok: "selection_ok s"
  let ?alive = "map (\<lambda>(_, c). c_id c) (lot_in d (se_clipIds s))"
  show ?thesis
  proof (cases "last_of ?alive")
    case None
    then have "?alive = []" by (simp only: last_of_facts)
    then show ?thesis
      using ok Some by (auto simp: selectedClips_def selection_ok_def Let_def last_of_def split: option.splits)
  next
    case (Some i)
    then have "i \<in> set ?alive" by (rule last_of_facts)
    then show ?thesis
      using ok \<open>doc = Some d\<close> Some lot_in_ids [of i d "se_clipIds s"] lot_in_ids [of _ d "se_clipIds s"]
      by (auto simp: selectedClips_def selection_ok_def Let_def split: option.splits)
  qed
qed (simp add: selectedClips_def)

lemma setClipSelection_ok: "selection_ok s \<Longrightarrow> selection_ok (setClipSelection ids adding s)"
  by (cases ids rule: rev_cases) (auto simp: setClipSelection_def selection_ok_def Let_def fold_set_add)

lemma select_op_ok:
  assumes "selection_ok s"
  shows "selection_ok (select_op op s)"
proof (cases op)
  case (Time a b)
  then show ?thesis using assms by (simp add: setTimeSelection_def selection_ok_def)
qed (use assms in \<open>simp_all add: selectClip_ok selectedClips_ok setClipSelection_ok, simp_all add: clearClipSelection_def selection_ok_def\<close>)

section \<open>Property\<close>

text \<open>The main clip is always in the lot, or both are empty: whatever clicks, lassos, clearings and changes of
  the document happen, in any order, from an empty selection.\<close>

theorem selection_invariant:
  "selection_ok (fold select_op ops \<lparr>se_trackId = None, se_clipId = None, se_clipIds = [], se_time = None\<rparr>)"
proof -
  have "selection_ok s \<Longrightarrow> selection_ok (fold select_op ops s)" for s
    by (induction ops arbitrary: s) (simp_all add: select_op_ok)
  then show ?thesis by (simp add: selection_ok_def)
qed

end
