(* ===== verification/Reorder.thy ===== *)
theory Reorder
  imports Exchange Reversal
begin

text \<open>
  Drag and drop of tracks, devices and session slots: the drop of \<open>web/src/app/track_reorder.ts\<close>,
  \<open>device_reorder.ts\<close> and \<open>slot_reorder.ts\<close> on the project, and the slot under the pointer. The
  threshold of a drag, its insertion line and Escape only touch the page.
\<close>

section \<open>Drops\<close>

text \<open>The slot: how many elements, given by their start and size, have their middle before the pointer.\<close>

definition slotAt :: "jsnum \<Rightarrow> (jsnum \<times> jsnum) list \<Rightarrow> nat" where
  "slotAt v els = length (filter (\<lambda>(start, size). js_lt (js_add start (js_div size (js_int 2))) v) els)"

definition MIN_GAP :: jsnum where
  "MIN_GAP = Fin (1 / 10 ^ 9)"

definition nth_opt :: "'a list \<Rightarrow> nat \<Rightarrow> 'a option" where
  "nth_opt xs i = (if i < length xs then Some (xs ! i) else None)"

definition keyOf :: "track list \<Rightarrow> string \<Rightarrow> jsnum option" where
  "keyOf ts = fold (\<lambda>(i, t) m. m(t_id t \<mapsto> or_else (t_order t) (js_int (int i)))) (enumerate 0 ts) Map.empty"

definition key_of :: "track list \<Rightarrow> track \<Rightarrow> jsnum" where
  "key_of ts t = or_else (keyOf ts (t_id t)) NaN"

text \<open>\<open>target.forEach((id, i) => setTrackOrder(id, i))\<close>\<close>

definition renumber :: "'d automerge \<Rightarrow> string list \<Rightarrow> 'd project_state \<Rightarrow> 'd project_state" where
  "renumber A target s = fold (\<lambda>(i, trackId). perform A (setTrackOrder trackId (js_int (int i)))) (enumerate 0 target) s"

definition place_track ::
  "'d automerge \<Rightarrow> track list \<Rightarrow> string \<Rightarrow> track list \<Rightarrow> nat \<Rightarrow> 'd project_state \<Rightarrow> 'd project_state" where
  "place_track A ts trackId others pos s =
     (case (if pos = 0 then None else nth_opt others (pos - 1), nth_opt others pos) of
        (None, None) \<Rightarrow> s
      | (None, Some nxt) \<Rightarrow> perform A (setTrackOrder trackId (js_sub (key_of ts nxt) (js_int 1))) s
      | (Some prv, None) \<Rightarrow> perform A (setTrackOrder trackId (js_add (key_of ts prv) (js_int 1))) s
      | (Some prv, Some nxt) \<Rightarrow>
          (let a = key_of ts prv; b = key_of ts nxt
           in if js_lt (js_sub b a) MIN_GAP
              then renumber A (splice_in pos trackId (map t_id others)) s
              else perform A (setTrackOrder trackId (js_div (js_add a b) (js_int 2))) s))"

definition drop_track :: "'d automerge \<Rightarrow> string \<Rightarrow> nat \<Rightarrow> 'd project_state \<Rightarrow> 'd project_state" where
  "drop_track A trackId slot s =
     (let doc = getDocument A s;
          shown = orderedTracks doc
      in case find_index (\<lambda>t. t_id t = trackId) shown of
           None \<Rightarrow> s
         | Some srcPos \<Rightarrow>
             if slot = srcPos \<or> slot = srcPos + 1 then s
             else
               (let others = filter (\<lambda>t. t_id t \<noteq> trackId) shown;
                    posInOthers = (if srcPos < slot then slot - 1 else slot)
                in endUndoGroup (place_track A (d_tracks doc) trackId others posInOthers (beginUndoGroup s))))"

definition applyDrop_track :: "'d automerge \<Rightarrow> string \<Rightarrow> nat \<Rightarrow> 'd project_state \<Rightarrow> client_call list \<times> 'd project_state" where
  "applyDrop_track A trackId slot s = sendLastChange (drop_track A trackId slot s)"

text \<open>A device dropped in the rack.\<close>

definition applyDrop_device ::
  "'d automerge \<Rightarrow> string \<Rightarrow> string \<Rightarrow> nat \<Rightarrow> 'd project_state \<Rightarrow> client_call list \<times> 'd project_state" where
  "applyDrop_device A trackId procId slot s =
     (case Option.bind (find_track trackId (getDocument A s)) (\<lambda>t. find_index (\<lambda>p. p_id p = procId) (t_chain t)) of
        None \<Rightarrow> ([], s)
      | Some srcPos \<Rightarrow>
          if slot = srcPos \<or> slot = srcPos + 1 then ([], s)
          else
            (let toIndex = (if srcPos < slot then slot - 1 else slot)
             in sendLastChange (perform A (moveProcessor trackId procId (js_int (int toIndex))) s)))"

text \<open>A session slot dropped on a cell: the cell's track, scene and clip.\<close>

definition applyDrop_slot ::
  "'d automerge \<Rightarrow> string \<Rightarrow> string \<Rightarrow> string \<Rightarrow> string \<times> string \<times> string option \<Rightarrow> 'd project_state \<Rightarrow>
   client_call list \<times> 'd project_state \<times> js_error option" where
  "applyDrop_slot A fromTrack fromScene clipId cell s =
     (let (toTrack, toScene, there) = cell in
      if toTrack = [] \<or> toScene = [] then ([], s, None)
      else if or_else there [] \<noteq> [] then ([], s, None)
      else if toTrack = fromTrack \<and> toScene = fromScene then ([], s, None)
      else if find_clip fromTrack clipId (getDocument A s) = None then ([], s, None)
      else
        (let s1 = beginUndoGroup s;
             s2 = (if toScene \<noteq> fromScene then perform A (setClipScene fromTrack clipId toScene) s1 else s1)
         in case (if toTrack \<noteq> fromTrack then moveClipToTrack A fromTrack clipId toTrack None s2 else (s2, None)) of
              (s3, Some e) \<Rightarrow> ([], s3, Some e)
            | (s3, None) \<Rightarrow> (let (calls, s4) = sendLastChange (endUndoGroup s3) in (calls, s4, None))))"

section \<open>Where a dropped track lands\<close>

text \<open>Finite orders and distinct ids, as validated documents have them.\<close>

definition drop_ready :: "track list \<Rightarrow> bool" where
  "drop_ready ts \<longleftrightarrow> distinct (map t_id ts) \<and> (\<forall>t\<in>set ts. \<forall>v. t_order t = Some v \<longrightarrow> js_finite v)"

fun fin_of :: "jsnum \<Rightarrow> rat" where
  "fin_of (Fin x) = x"
| "fin_of _ = 0"

definition rank :: "track list \<Rightarrow> nat \<Rightarrow> rat" where
  "rank ts i = fin_of (display_key i (ts ! i))"

definition before :: "(nat \<Rightarrow> rat) \<Rightarrow> nat \<Rightarrow> nat \<Rightarrow> bool" where
  "before k i j \<longleftrightarrow> k i < k j \<or> k i = k j \<and> i < j"

lemma rank_key: "drop_ready ts \<Longrightarrow> i < length ts \<Longrightarrow> display_key i (ts ! i) = Fin (rank ts i)"
proof -
  assume r: "drop_ready ts" "i < length ts"
  then have "js_finite (display_key i (ts ! i))"
    by (cases "t_order (ts ! i)") (auto simp: drop_ready_def display_key_def)
  then show ?thesis by (cases "display_key i (ts ! i)") (auto simp: rank_def)
qed

lemma drop_ready_keys: "drop_ready ts \<Longrightarrow> keys_ok ts"
  by (auto simp: drop_ready_def keys_ok_def)

lemma shows_in_order_iff:
  assumes "drop_ready ts"
  shows "shows_in_order ts p \<longleftrightarrow> distinct p \<and> set p = {..<length ts} \<and> sorted_wrt (before (rank ts)) p"
proof -
  let ?R = "\<lambda>i j. js_lt (display_key i (ts ! i)) (display_key j (ts ! j)) \<or>
       display_key i (ts ! i) = display_key j (ts ! j) \<and> i < j"
  have "?R i j = before (rank ts) i j" if "i < length ts" "j < length ts" for i j
    using that rank_key [OF assms] by (simp add: before_def)
  then have "sorted_wrt ?R p = sorted_wrt (before (rank ts)) p" if "set p = {..<length ts}"
    using that by (intro iffI; elim sorted_wrt_mono_rel [rotated]) auto
  then show ?thesis by (auto simp: shows_in_order_def)
qed

lemma orderedTracks_is:
  assumes "drop_ready (d_tracks doc)" and "shows_in_order (d_tracks doc) p"
  shows "orderedTracks doc = map (\<lambda>i. d_tracks doc ! i) p"
proof -
  obtain q where q: "shows_in_order (d_tracks doc) q" "orderedTracks doc = map (\<lambda>i. d_tracks doc ! i) q"
    using orderedTracks_order [OF drop_ready_keys [OF assms(1)]] by blast
  have "q = p"
  proof (rule sorted_wrt_unique)
    show "sorted_wrt (before (rank (d_tracks doc))) q" "sorted_wrt (before (rank (d_tracks doc))) p" "set q = set p"
      using assms q(1) shows_in_order_iff [OF assms(1)] by auto
  qed (auto simp: before_def)
  with q(2) show ?thesis by simp
qed

lemma orderedTracks_shown:
  assumes "drop_ready (d_tracks doc)"
  obtains p where "shows_in_order (d_tracks doc) p" and "orderedTracks doc = map (\<lambda>i. d_tracks doc ! i) p"
  using orderedTracks_order [OF drop_ready_keys [OF assms]] by blast

text \<open>Writing an order.\<close>

lemma update_first_nth:
  assumes "distinct (map f xs)" and "i < length xs"
  shows "update_first (\<lambda>x. f x = f (xs ! i)) g xs = xs[i := g (xs ! i)]"
  using assms
proof (induction xs arbitrary: i)
  case (Cons x xs)
  then show ?case by (cases i) (auto simp: nth_Cons split: nat.splits dest: nth_mem)
qed simp

lemma setTrackOrder_doc:
  assumes "change_law A" and "drop_ready (d_tracks (getDocument A s))" and "i < length (d_tracks (getDocument A s))"
  shows "d_tracks (getDocument A (perform A (setTrackOrder (t_id (d_tracks (getDocument A s) ! i)) (Fin v)) s)) =
    (d_tracks (getDocument A s))[i := (d_tracks (getDocument A s) ! i)\<lparr>t_order := Some (Fin v)\<rparr>]"
proof -
  let ?ts = "d_tracks (getDocument A s)"
  have d: "distinct (map t_id ?ts)" using assms(2) by (simp add: drop_ready_def)
  have find: "find_track (t_id (?ts ! i)) (getDocument A s) = Some (?ts ! i)"
    unfolding find_track_def using d assms(3)
    by (auto simp: find_Some_iff intro!: exI [of _ i] dest: nth_eq_iff_index_eq [OF d] simp: distinct_conv_nth)
  show ?thesis
  proof (cases "t_order (?ts ! i) = Some (Fin v)")
    case True
    then have e: "(?ts ! i)\<lparr>t_order := Some (Fin v)\<rparr> = ?ts ! i" by simp
    show ?thesis unfolding e using True find by (simp add: perform_def setTrackOrder_def js_eq_def)
  next
    case False
    then have "\<not> opt_eq (t_order (?ts ! i)) (Some (Fin v))"
      by (cases "t_order (?ts ! i)") (auto simp: js_eq_def)
    then show ?thesis
      using find assms(1) update_first_nth [OF d assms(3)]
      by (simp add: perform_def setTrackOrder_def upd_track_def)
  qed
qed

lemma drop_ready_update:
  "drop_ready ts \<Longrightarrow> i < length ts \<Longrightarrow> drop_ready (ts[i := (ts ! i)\<lparr>t_order := Some (Fin v)\<rparr>])"
proof -
  assume a: "drop_ready ts" "i < length ts"
  have "map t_id (ts[i := (ts ! i)\<lparr>t_order := Some (Fin v)\<rparr>]) = map t_id ts"
    using a(2) by (simp add: map_update list_update_same_conv)
  with a show ?thesis
    unfolding drop_ready_def by (auto dest!: set_update_subset_insert [THEN subsetD])
qed

lemma rank_update:
  "j < length ts \<Longrightarrow> rank (ts[j := (ts ! j)\<lparr>t_order := Some (Fin v)\<rparr>]) i = (if i = j then v else rank ts i)"
  by (simp add: rank_def display_key_def)

lemma in_take_nth: "x \<in> set (take n xs) \<Longrightarrow> \<exists>m<n. m < length xs \<and> x = xs ! m"
  by (auto simp: in_set_conv_nth)

lemma in_drop_nth: "x \<in> set (drop n xs) \<Longrightarrow> \<exists>m\<ge>n. m < length xs \<and> x = xs ! m"
  by (auto simp: in_set_conv_nth) (metis add.commute le_add1 less_diff_conv nth_drop)

text \<open>One new order between the neighbours puts the track between them.\<close>

lemma land_between:
  fixes ts j p v pos
  defines "p' \<equiv> filter (\<lambda>i. i \<noteq> j) p"
  assumes "drop_ready ts" and "shows_in_order ts p" and "j < length ts" and "pos \<le> length p'"
    and prv: "0 < pos \<Longrightarrow> rank ts (p' ! (pos - 1)) < v" and nxt: "pos < length p' \<Longrightarrow> v < rank ts (p' ! pos)"
  shows "shows_in_order (ts[j := (ts ! j)\<lparr>t_order := Some (Fin v)\<rparr>]) (splice_in pos j p')"
proof -
  let ?k = "rank ts" and ?ts = "ts[j := (ts ! j)\<lparr>t_order := Some (Fin v)\<rparr>]"
  have p: "distinct p" "set p = {..<length ts}" "sorted_wrt (before ?k) p"
    using assms(2,3) shows_in_order_iff by auto
  have srt: "sorted_wrt (before ?k) p'" unfolding p'_def using p(3) by (rule sorted_wrt_filter)
  have le: "?k (p' ! m) \<le> ?k (p' ! m')" if "m \<le> m'" "m' < length p'" for m m'
    using sorted_wrt_nth_less [OF srt, of m m'] that by (cases "m = m'") (auto simp: before_def)
  have left: "?k i < v" if i: "i \<in> set (take pos p')" for i
  proof -
    obtain m where "m < pos" "m < length p'" "i = p' ! m" using in_take_nth [OF i] by blast
    then show ?thesis using le [of m "pos - 1"] prv assms(5) by fastforce
  qed
  have right: "v < ?k i" if i: "i \<in> set (drop pos p')" for i
  proof -
    obtain m where "pos \<le> m" "m < length p'" "i = p' ! m" using in_drop_nth [OF i] by blast
    then show ?thesis using le [of pos m] nxt by fastforce
  qed
  have j: "j \<notin> set (take pos p')" "j \<notin> set (drop pos p')"
    by (auto simp: p'_def dest: in_set_takeD in_set_dropD)
  have parts: "sorted_wrt (before ?k) (take pos p')" "sorted_wrt (before ?k) (drop pos p')"
    using srt by (simp_all add: sorted_wrt_take sorted_wrt_drop)
  have "sorted_wrt (before (rank ?ts)) (splice_in pos j p')"
  proof -
    have keep: "sorted_wrt (before (rank ?ts)) xs" if "sorted_wrt (before ?k) xs" "j \<notin> set xs" for xs
      using that by (elim sorted_wrt_mono_rel [rotated]) (auto simp: before_def rank_update [OF assms(4)])
    have across: "before (rank ?ts) a b" if "a \<in> set (take pos p')" "b \<in> set (drop pos p')" for a b
      using left [OF that(1)] right [OF that(2)] that j by (auto simp: before_def rank_update [OF assms(4)])
    have ends: "\<forall>a\<in>set (take pos p'). before (rank ?ts) a j" "\<forall>b\<in>set (drop pos p'). before (rank ?ts) j b"
      using left right j by (auto simp: before_def rank_update [OF assms(4)])
    show ?thesis
      using keep [OF parts(1) j(1)] keep [OF parts(2) j(2)] across ends by (auto simp: splice_in_def sorted_wrt_append)
  qed
  moreover have "distinct (splice_in pos j p')"
    using p(1) j set_take_disj_set_drop_if_distinct [of p' pos pos] by (auto simp: splice_in_def p'_def)
  moreover have "set (splice_in pos j p') = {..<length ?ts}"
    using p(2) assms(4) by (auto simp: p'_def)
  ultimately show ?thesis
    using shows_in_order_iff [OF drop_ready_update [OF assms(2,4)]] by blast
qed

text \<open>Renumbering gives every track its place as its order.\<close>

lemma renumber_from:
  assumes "change_law A" and "drop_ready (d_tracks (getDocument A s))"
    and "set qs \<subseteq> {..<length (d_tracks (getDocument A s))}" and "distinct qs"
    and "s' = fold (\<lambda>(i, trackId). perform A (setTrackOrder trackId (js_int (int i))))
      (enumerate k (map (\<lambda>i. t_id (d_tracks (getDocument A s) ! i)) qs)) s"
  shows "map t_id (d_tracks (getDocument A s')) = map t_id (d_tracks (getDocument A s)) \<and>
    drop_ready (d_tracks (getDocument A s')) \<and>
    (\<forall>m<length qs. t_order (d_tracks (getDocument A s') ! (qs ! m)) = Some (js_int (int (k + m)))) \<and>
    (\<forall>i. i \<notin> set qs \<longrightarrow> d_tracks (getDocument A s') ! i = d_tracks (getDocument A s) ! i)"
  using assms
proof (induction qs arbitrary: k s)
  case (Cons q qs)
  let ?ts = "d_tracks (getDocument A s)"
  let ?s1 = "perform A (setTrackOrder (t_id (?ts ! q)) (js_int (int k))) s"
  let ?ts1 = "d_tracks (getDocument A ?s1)"
  have q: "q < length ?ts" "q \<notin> set qs" using Cons.prems by auto
  have ts1: "?ts1 = ?ts[q := (?ts ! q)\<lparr>t_order := Some (js_int (int k))\<rparr>]"
    by (rule setTrackOrder_doc [OF Cons.prems(1,2) q(1)])
  have ids: "map t_id ?ts1 = map t_id ?ts" unfolding ts1 using q(1) by (simp add: map_update list_update_same_conv)
  have ready: "drop_ready ?ts1" unfolding ts1 by (rule drop_ready_update [OF Cons.prems(2) q(1)])
  have same: "map (\<lambda>i. t_id (?ts1 ! i)) qs = map (\<lambda>i. t_id (?ts ! i)) qs"
    unfolding ts1 using q(2) by (intro map_cong refl) (metis nth_list_update_neq)
  have s': "s' = fold (\<lambda>(i, trackId). perform A (setTrackOrder trackId (js_int (int i))))
      (enumerate (Suc k) (map (\<lambda>i. t_id (?ts1 ! i)) qs)) ?s1"
    unfolding same using Cons.prems(5) by simp
  have len: "length ?ts1 = length ?ts" unfolding ts1 by simp
  have IH: "map t_id (d_tracks (getDocument A s')) = map t_id ?ts1 \<and> drop_ready (d_tracks (getDocument A s')) \<and>
    (\<forall>m<length qs. t_order (d_tracks (getDocument A s') ! (qs ! m)) = Some (js_int (int (Suc k + m)))) \<and>
    (\<forall>i. i \<notin> set qs \<longrightarrow> d_tracks (getDocument A s') ! i = ?ts1 ! i)"
    by (rule Cons.IH [OF Cons.prems(1) ready _ _ s']) (use Cons.prems(3,4) len in auto)
  have "t_order (d_tracks (getDocument A s') ! q) = Some (js_int (int k))"
    using IH q unfolding ts1 by simp
  moreover have "\<forall>i. i \<noteq> q \<longrightarrow> ?ts1 ! i = ?ts ! i" unfolding ts1 by simp
  ultimately show ?case
    using IH ids by (auto simp: nth_Cons split: nat.splits)
qed simp

lemma land_renumbered:
  assumes "drop_ready ts" and "distinct q" and "set q = {..<length ts}"
    and "\<forall>m<length q. t_order (ts ! (q ! m)) = Some (js_int (int m))"
  shows "shows_in_order ts q"
proof -
  have "rank ts (q ! m) = of_nat m" if "m < length q" for m
    using assms(4) that by (simp add: rank_def display_key_def)
  then have "sorted_wrt (before (rank ts)) q"
    by (auto simp: sorted_wrt_iff_nth_less before_def)
  then show ?thesis using assms(1-3) shows_in_order_iff by blast
qed

lemma fold_keys:
  assumes "distinct (map (t_id \<circ> snd) its)" and "(i, t) \<in> set its"
  shows "fold (\<lambda>(i, t) m. m(t_id t \<mapsto> or_else (t_order t) (js_int (int i)))) its m (t_id t) = Some (display_key i t)"
  using assms
proof (induction its rule: rev_induct)
  case (snoc x its)
  then show ?case by (cases x) (force simp: display_key_def)
qed simp

lemma key_of_display:
  assumes "drop_ready ts" and "i < length ts"
  shows "key_of ts (ts ! i) = Fin (rank ts i)"
proof -
  have "distinct (map (t_id \<circ> snd) (enumerate 0 ts))"
    using assms(1) by (simp add: drop_ready_def flip: map_map)
  moreover have "(i, ts ! i) \<in> set (enumerate 0 ts)"
    using assms(2) by (auto simp: in_set_enumerate_eq)
  ultimately show ?thesis
    using fold_keys [of "enumerate 0 ts" i "ts ! i" Map.empty] rank_key [OF assms] by (simp add: key_of_def keyOf_def)
qed

text \<open>Removing one element and counting what is left of a slot.\<close>

lemma find_index_position:
  "distinct xs \<Longrightarrow> i < length xs \<Longrightarrow> find_index (\<lambda>x. x = xs ! i) xs = Some i"
proof (induction xs arbitrary: i)
  case (Cons x xs)
  then show ?case by (cases i) auto
qed simp

lemma filter_splice_out: "distinct xs \<Longrightarrow> i < length xs \<Longrightarrow> filter (\<lambda>x. x \<noteq> xs ! i) xs = splice_out i xs"
proof (induction xs arbitrary: i)
  case (Cons x xs)
  then show ?case by (cases i) (auto simp: splice_out_def filter_id_conv)
qed simp

lemma splice_in_filter:
  "splice_in (length (filter P (take n xs))) x (filter P xs) = filter P (take n xs) @ x # filter P (drop n xs)"
proof -
  have "filter P xs = filter P (take n xs) @ filter P (drop n xs)" by (simp flip: filter_append)
  then show ?thesis by (simp add: splice_in_def)
qed

lemma length_filter_take:
  assumes "distinct xs" and "i < length xs" and "n \<le> length xs"
  shows "length (filter (\<lambda>x. x \<noteq> xs ! i) (take n xs)) = (if i < n then n - 1 else n)"
proof (cases "i < n")
  case True
  then have "take n xs ! i = xs ! i" by simp
  then have "filter (\<lambda>x. x \<noteq> xs ! i) (take n xs) = splice_out i (take n xs)"
    using filter_splice_out [of "take n xs" i] assms True by simp
  then show ?thesis using True assms(3) by simp
next
  case False
  then have "xs ! i \<notin> set (take n xs)"
    using assms by (auto simp: in_set_conv_nth nth_eq_iff_index_eq)
  then have "filter (\<lambda>x. x \<noteq> xs ! i) (take n xs) = take n xs" by (auto simp: filter_id_conv)
  then show ?thesis using False assms(3) by simp
qed

text \<open>The two ways a drop writes orders put the track at its place.\<close>

lemma place_track_lands:
  fixes A s p j pos
  defines "p' \<equiv> filter (\<lambda>i. i \<noteq> j) p" and "ts \<equiv> d_tracks (getDocument A s)"
  assumes "change_law A" and ready: "drop_ready ts" and "shows_in_order ts p" and "j < length ts" and "pos \<le> length p'"
    and "p' \<noteq> []"
    and "s' = place_track A ts (t_id (ts ! j)) (map (\<lambda>i. ts ! i) p') pos s"
  shows "\<exists>ts'. d_tracks (getDocument A s') = ts' \<and> drop_ready ts' \<and> map t_id ts' = map t_id ts \<and>
    shows_in_order ts' (splice_in pos j p')"
proof -
  have p: "distinct p" "set p = {..<length ts}" "sorted_wrt (before (rank ts)) p"
    using assms(5) shows_in_order_iff [OF ready] by auto
  have in_ts: "p' ! m < length ts" if "m < length p'" for m
    using nth_mem [OF that] p(2) by (auto simp: p'_def)
  have key: "key_of ts (ts ! (p' ! m)) = Fin (rank ts (p' ! m))" if "m < length p'" for m
    by (rule key_of_display [OF ready in_ts [OF that]])
  have single: ?thesis if s: "s' = perform A (setTrackOrder (t_id (ts ! j)) (Fin v)) s"
    and prv: "0 < pos \<Longrightarrow> rank ts (p' ! (pos - 1)) < v" and nxt: "pos < length p' \<Longrightarrow> v < rank ts (p' ! pos)" for v
  proof -
    have "d_tracks (getDocument A s') = ts[j := (ts ! j)\<lparr>t_order := Some (Fin v)\<rparr>]"
      using setTrackOrder_doc [OF assms(3), of s j v] assms(4,6) unfolding s ts_def by simp
    moreover have "shows_in_order (ts[j := (ts ! j)\<lparr>t_order := Some (Fin v)\<rparr>]) (splice_in pos j p')"
      using land_between [OF ready assms(5,6)] assms(7) prv nxt unfolding p'_def by blast
    ultimately show ?thesis
      using drop_ready_update [OF ready assms(6)] assms(6) by (simp add: map_update list_update_same_conv)
  qed
  consider (first) "pos = 0" | (last) "0 < pos" "pos = length p'" | (mid) "0 < pos" "pos < length p'"
    using assms(7) by fastforce
  then show ?thesis
  proof cases
    case first
    then have "s' = perform A (setTrackOrder (t_id (ts ! j)) (Fin (rank ts (p' ! 0) - 1))) s"
      using assms(8,9) key [of 0] by (simp add: place_track_def nth_opt_def js_sub_def)
    then show ?thesis by (rule single) (use first in simp_all)
  next
    case last
    then have "s' = perform A (setTrackOrder (t_id (ts ! j)) (Fin (rank ts (p' ! (pos - 1)) + 1))) s"
      using assms(9) key [of "pos - 1"] by (simp add: place_track_def nth_opt_def)
    then show ?thesis by (rule single) (use last in simp_all)
  next
    case mid
    let ?a = "rank ts (p' ! (pos - 1))" and ?b = "rank ts (p' ! pos)"
    have k: "key_of ts (ts ! (p' ! (pos - 1))) = Fin ?a" "key_of ts (ts ! (p' ! pos)) = Fin ?b"
      using key mid by simp_all
    show ?thesis
    proof (cases "?b - ?a < 1 / 10 ^ 9")
      case False
      then have "?a < ?b" by simp
      have "s' = perform A (setTrackOrder (t_id (ts ! j)) (Fin ((?a + ?b) / 2))) s"
        using assms(9) k mid False by (simp add: place_track_def nth_opt_def js_sub_def MIN_GAP_def)
      then show ?thesis by (rule single) (use \<open>?a < ?b\<close> in simp_all)
    next
      case True
      let ?q = "splice_in pos j p'"
      have dist: "distinct ?q"
        using p(1) set_take_disj_set_drop_if_distinct [of p' pos pos]
        by (auto simp: splice_in_def p'_def dest: in_set_takeD in_set_dropD)
      have set: "set ?q = {..<length ts}" using p(2) assms(6) by (auto simp: p'_def)
      have "map (\<lambda>i. t_id (ts ! i)) ?q = splice_in pos (t_id (ts ! j)) (map t_id (map (\<lambda>i. ts ! i) p'))"
        by (simp add: splice_in_def take_map drop_map comp_def)
      then have fold: "s' = fold (\<lambda>(i, trackId). perform A (setTrackOrder trackId (js_int (int i))))
          (enumerate 0 (map (\<lambda>i. t_id (ts ! i)) ?q)) s"
        using assms(9) k mid True by (simp add: place_track_def nth_opt_def js_sub_def MIN_GAP_def renumber_def)
      have sub: "set ?q \<subseteq> {..<length ts}" unfolding set ..
      note r = renumber_from [OF assms(3), of s ?q s' 0, folded ts_def, OF ready sub dist fold]
      then have "map t_id (d_tracks (getDocument A s')) = map t_id ts" and "drop_ready (d_tracks (getDocument A s'))"
        and "\<forall>m<length ?q. t_order (d_tracks (getDocument A s') ! (?q ! m)) = Some (js_int (int m))"
        using r by simp_all
      then show ?thesis
        using land_renumbered [OF _ dist] set map_eq_imp_length_eq by (metis (no_types, lifting))
    qed
  qed
qed

lemma sendLastChange_doc [simp]: "getDocument A (snd (sendLastChange s)) = getDocument A s"
  by (simp add: sendLastChange_all getDocument_def)

lemma drop_track_lands:
  assumes law: "change_law A" and ready: "drop_ready (d_tracks (getDocument A s))"
    and here: "trackId \<in> t_id ` set (d_tracks (getDocument A s))" and slot: "slot \<le> length (d_tracks (getDocument A s))"
  shows "map t_id (orderedTracks (getDocument A (drop_track A trackId slot s))) =
    (let ids = map t_id (orderedTracks (getDocument A s)) in
      filter (\<lambda>i. i \<noteq> trackId) (take slot ids) @ trackId # filter (\<lambda>i. i \<noteq> trackId) (drop slot ids))"
proof -
  let ?ts = "d_tracks (getDocument A s)"
  obtain p where p: "shows_in_order ?ts p" "orderedTracks (getDocument A s) = map (\<lambda>i. ?ts ! i) p"
    using orderedTracks_shown [OF ready] by blast
  then have pd: "distinct p" "set p = {..<length ?ts}" using shows_in_order_iff [OF ready] by auto
  have len: "length p = length ?ts" using pd distinct_card by fastforce
  obtain j where j: "j < length ?ts" "t_id (?ts ! j) = trackId" using here by (auto simp: in_set_conv_nth)
  obtain src where src: "src < length p" "p ! src = j" using j(1) pd(2) by (metis in_set_conv_nth lessThan_iff)
  have inj: "t_id (?ts ! i) = trackId \<longleftrightarrow> i = j" if "i < length ?ts" for i
    using nth_eq_iff_index_eq [of "map t_id ?ts" i j] ready j that by (simp add: drop_ready_def)
  let ?ids = "map t_id (map (\<lambda>i. ?ts ! i) p)"
  have "distinct (map (\<lambda>i. map t_id ?ts ! i) p)"
    using ready pd by (auto simp: drop_ready_def distinct_map inj_on_def nth_eq_iff_index_eq simp del: nth_map)
  moreover have "map (\<lambda>i. map t_id ?ts ! i) p = ?ids" using pd(2) by auto
  ultimately have dist: "distinct ?ids" by simp
  have id: "?ids ! src = trackId" "src < length ?ids" using src j by simp_all
  have find: "find_index (\<lambda>t. t_id t = trackId) (map (\<lambda>i. ?ts ! i) p) = Some src"
  proof -
    have e: "find_index (\<lambda>t. t_id t = trackId) xs = find_index (\<lambda>i. i = trackId) (map t_id xs)" for xs
      by (induction xs) auto
    show ?thesis using find_index_position [OF dist id(2)] unfolding id(1) e .
  qed
  let ?p' = "filter (\<lambda>i. i \<noteq> j) p"
  let ?pos = "if src < slot then slot - 1 else slot"
  have others: "filter (\<lambda>t. t_id t \<noteq> trackId) (map (\<lambda>i. ?ts ! i) p) = map (\<lambda>i. ?ts ! i) ?p'"
  proof -
    have "filter (\<lambda>i. t_id (?ts ! i) \<noteq> trackId) p = ?p'" using inj pd(2) by (intro filter_cong) auto
    then show ?thesis by (simp add: filter_map comp_def)
  qed
  have p': "?p' = splice_out src p" using filter_splice_out [OF pd(1) src(1)] src(2) by simp
  have target: "map (\<lambda>i. t_id (?ts ! i)) (splice_in ?pos j ?p') =
      filter (\<lambda>i. i \<noteq> trackId) (take slot ?ids) @ trackId # filter (\<lambda>i. i \<noteq> trackId) (drop slot ?ids)"
  proof -
    have pos: "?pos = length (filter (\<lambda>i. i \<noteq> trackId) (take slot ?ids))"
      using length_filter_take [OF dist id(2), of slot] id(1) slot len by simp
    have f: "map (\<lambda>i. t_id (?ts ! i)) ?p' = filter (\<lambda>i. i \<noteq> trackId) ?ids"
      using arg_cong [OF others, of "map t_id"] by (simp add: filter_map comp_def)
    have "map (\<lambda>i. t_id (?ts ! i)) (splice_in ?pos j ?p') = splice_in ?pos trackId (map (\<lambda>i. t_id (?ts ! i)) ?p')"
      using j(2) by (simp add: splice_in_def take_map drop_map)
    then show ?thesis unfolding f pos by (simp only: splice_in_filter)
  qed
  show ?thesis
  proof (cases "slot = src \<or> slot = src + 1")
    case True
    then have "drop_track A trackId slot s = s" using find p(2) by (auto simp: drop_track_def Let_def)
    moreover have "splice_in ?pos j ?p' = p" using True src p' splice_in_out [OF src(1)] by auto
    ultimately show ?thesis using target p(2) by (simp add: Let_def comp_def)
  next
    case False
    let ?s' = "place_track A ?ts (t_id (?ts ! j)) (map (\<lambda>i. ?ts ! i) ?p') ?pos (beginUndoGroup s)"
    have pos: "?pos \<le> length ?p'" using p' slot len src(1) by auto
    have "?p' \<noteq> []"
    proof
      assume "?p' = []"
      then have "length p = 1" using p' src(1) length_splice_out [OF src(1)] by simp
      with src(1) slot len False show False by auto
    qed
    then obtain ts' where ts': "d_tracks (getDocument A ?s') = ts'" "drop_ready ts'" "map t_id ts' = map t_id ?ts"
        "shows_in_order ts' (splice_in ?pos j ?p')"
      using place_track_lands [OF law, of "beginUndoGroup s" p j ?pos] ready p(1) j(1) pos
      by (auto simp: beginUndoGroup_def)
    have d: "getDocument A (drop_track A trackId slot s) = getDocument A ?s'"
      using find p(2) False others j(2) by (simp add: drop_track_def Let_def endUndoGroup_def)
    have "orderedTracks (getDocument A ?s') = map (\<lambda>i. ts' ! i) (splice_in ?pos j ?p')"
      using orderedTracks_is ts' by blast
    moreover have "t_id (ts' ! i) = t_id (?ts ! i)" if "i < length ?ts" for i
      using ts'(3) that by (metis length_map nth_map)
    moreover have "set (splice_in ?pos j ?p') \<subseteq> {..<length ?ts}" using pd(2) j(1) by auto
    ultimately have "map t_id (orderedTracks (getDocument A ?s')) = map (\<lambda>i. t_id (?ts ! i)) (splice_in ?pos j ?p')"
      by auto
    then show ?thesis using target p(2) d by (simp add: Let_def comp_def)
  qed
qed

section \<open>Properties\<close>

text \<open>C14. A dragged track lands where it was dropped: after a drop at a slot of the displayed list, the display shows the
  track at that slot and every other track in its old order, whether the new order is below the
  first, above the last, between two neighbours, or all orders had to be renumbered because the
  neighbours were too close.\<close>

theorem track_lands_at_slot:
  assumes "change_law A" and "drop_ready (d_tracks (getDocument A s))"
    and "trackId \<in> t_id ` set (d_tracks (getDocument A s))" and "slot \<le> length (d_tracks (getDocument A s))"
  shows "map t_id (orderedTracks (getDocument A (snd (applyDrop_track A trackId slot s)))) =
    (let ids = map t_id (orderedTracks (getDocument A s)) in
      filter (\<lambda>i. i \<noteq> trackId) (take slot ids) @ trackId # filter (\<lambda>i. i \<noteq> trackId) (drop slot ids))"
  using drop_track_lands [OF assms] by (simp add: applyDrop_track_def)

definition three_tracks :: "project project_state" where
  "three_tracks = \<lparr>ps_doc = (createEmptyDocument (js_int 48000))\<lparr>d_tracks :=
       [(witness_track ''a'' None)\<lparr>t_id := ''a''\<rparr>, (witness_track ''b'' None)\<lparr>t_id := ''b''\<rparr>, (witness_track ''c'' None)\<lparr>t_id := ''c''\<rparr>]\<rparr>,
     ps_pending = [], ps_journal = empty_journal\<rparr>"

lemma three_tracks_doc: "getDocument local_automerge three_tracks = (createEmptyDocument (js_int 48000))\<lparr>d_tracks :=
       [(witness_track ''a'' None)\<lparr>t_id := ''a''\<rparr>, (witness_track ''b'' None)\<lparr>t_id := ''b''\<rparr>, (witness_track ''c'' None)\<lparr>t_id := ''c''\<rparr>]\<rparr>"
  by (simp add: getDocument_def local_automerge_def three_tracks_def)

lemma three_tracks_shown: "map t_id (orderedTracks (getDocument local_automerge three_tracks)) = [''a'', ''b'', ''c'']"
  by (simp add: three_tracks_doc orderedTracks_def display_entries_def display_key_def witness_track_def makeTrackDef_def
      js_sort_def display_cmp_def js_or_def js_sub_def)

lemma three_tracks_ready: "drop_ready (d_tracks (getDocument local_automerge three_tracks))"
    "''c'' \<in> t_id ` set (d_tracks (getDocument local_automerge three_tracks))"
    "1 \<le> length (d_tracks (getDocument local_automerge three_tracks))"
  by (simp_all add: three_tracks_doc drop_ready_def witness_track_def makeTrackDef_def)

theorem track_lands_at_slot_witness:
  "map t_id (orderedTracks (getDocument local_automerge (snd (applyDrop_track local_automerge ''c'' 1 three_tracks)))) =
    [''a'', ''c'', ''b'']"
  unfolding track_lands_at_slot [OF local_change_law three_tracks_ready] three_tracks_shown by simp

text \<open>A dragged device lands where it was dropped: after a drop at a slot of the rack the chain of the track holds
  the device, unchanged, at that slot, and every other device in its old order.\<close>

theorem device_lands_at_slot:
  assumes "change_law A" and "find_track trackId (getDocument A s) = Some t"
    and "distinct (map p_id (t_chain t))" and "src < length (t_chain t)" and "slot \<le> length (t_chain t)"
  shows "\<exists>t'. find_track trackId (getDocument A (snd (applyDrop_device A trackId (p_id (t_chain t ! src)) slot s))) = Some t' \<and>
    t_chain t' = (let d = t_chain t ! src in
      filter (\<lambda>x. x \<noteq> d) (take slot (t_chain t)) @ d # filter (\<lambda>x. x \<noteq> d) (drop slot (t_chain t)))"
proof -
  let ?ch = "t_chain t"
  let ?d = "?ch ! src" and ?pos = "if src < slot then slot - 1 else slot"
  have dist: "distinct ?ch" using assms(3) by (simp add: distinct_map)
  have find: "find_index (\<lambda>p. p_id p = p_id ?d) ?ch = Some src"
  proof -
    have e: "find_index (\<lambda>p. p_id p = i) xs = find_index (\<lambda>j. j = i) (map p_id xs)" for i xs
      by (induction xs) auto
    show ?thesis using find_index_position [OF assms(3), of src] assms(4) by (simp add: e)
  qed
  have goal: "splice_in ?pos ?d (splice_out src ?ch) =
      filter (\<lambda>x. x \<noteq> ?d) (take slot ?ch) @ ?d # filter (\<lambda>x. x \<noteq> ?d) (drop slot ?ch)"
    using length_filter_take [OF dist assms(4,5)] splice_in_filter [of "\<lambda>x. x \<noteq> ?d" slot ?ch ?d]
      filter_splice_out [OF dist assms(4)] by simp
  show ?thesis
  proof (cases "slot = src \<or> slot = src + 1")
    case True
    then have "splice_in ?pos ?d (splice_out src ?ch) = ?ch" using splice_in_out [OF assms(4)] by auto
    with True goal show ?thesis using assms(2) find by (simp add: applyDrop_device_def Let_def)
  next
    case False
    have len: "length (splice_out src ?ch) = length ?ch - 1" using assms(4) by simp
    have clamp: "js_clamp (js_int 0) (js_int (int (length ?ch) - 1)) (js_round (js_int (int ?pos))) = js_int (int ?pos)"
      using assms(4,5) by (subst js_round_js_int, subst js_clamp_js_int) auto
    have clamp': "js_clamp (js_int 0) (js_int (int (length ?ch - 1))) (js_int (int ?pos)) = js_int (int ?pos)"
      using assms(4,5) by (subst js_clamp_js_int) auto
    have "\<not> js_eq (js_int (int ?pos)) (js_int (int src))" using False by (auto simp: js_eq_def)
    then have "moveProcessor trackId (p_id ?d) (js_int (int ?pos)) (getDocument A s) =
        Some (MoveProcessor trackId (p_id ?d) (js_int (int src)), upd_track trackId (move_device (p_id ?d) ?d (js_int (int ?pos))))"
      using assms(2) find clamp by (simp only: moveProcessor_def option.case Let_def if_False)
    then have "getDocument A (snd (applyDrop_device A trackId (p_id ?d) slot s)) =
        upd_track trackId (move_device (p_id ?d) ?d (js_int (int ?pos))) (getDocument A s)"
      using assms(1,2) find False by (simp add: applyDrop_device_def Let_def perform_def)
    moreover have "t_chain (move_device (p_id ?d) ?d (js_int (int ?pos)) t) = splice_in ?pos ?d (splice_out src ?ch)"
      using find clamp' len by (simp add: move_device_def Let_def splice_index_def)
    ultimately show ?thesis
      using goal assms(2) track.get_upd [of "move_device (p_id ?d) ?d (js_int (int ?pos))" trackId "getDocument A s"]
      by (simp add: Let_def)
  qed
qed

definition example_device :: "string \<Rightarrow> processor" where
  "example_device i = \<lparr>p_id = i, p_type = ''gain'', p_uid = None, p_name = None, p_bypass = False, p_params = [], p_stateHash = None, p_stateVersion = None, p_stemHash = None, p_stemKey = None, p_stemLatencySamples = None\<rparr>"

definition rack :: "project project_state" where
  "rack = \<lparr>ps_doc = (createEmptyDocument (js_int 48000))\<lparr>d_tracks := [(witness_track ''a'' None)\<lparr>t_id := ''a'',
       t_chain := [example_device ''x'', example_device ''y'', example_device ''z'']\<rparr>]\<rparr>,
     ps_pending = [], ps_journal = empty_journal\<rparr>"

theorem device_lands_at_slot_witness:
  "\<exists>t'. find_track ''a'' (getDocument local_automerge (snd (applyDrop_device local_automerge ''a'' ''x'' 2 rack))) = Some t' \<and>
    t_chain t' = [example_device ''y'', example_device ''x'', example_device ''z'']"
proof -
  have t: "find_track ''a'' (getDocument local_automerge rack) = Some ((witness_track ''a'' None)\<lparr>t_id := ''a'',
       t_chain := [example_device ''x'', example_device ''y'', example_device ''z'']\<rparr>)"
    by (simp add: getDocument_def local_automerge_def rack_def find_track_def)
  show ?thesis
    using device_lands_at_slot [OF local_change_law t, of 0 2] by (simp add: example_device_def Let_def)
qed

end
