(* ===== verification/Coalesced.thy ===== *)
theory Coalesced
  imports Reversal Exchange
begin

text \<open>
  Coalesced gestures: a drag writes its target on every animation frame, inside one undo group, and
  a last time on release. The interface of an operation that can be repeated this way, the one
  thing the writes of a gesture amount to, and the operations of the project that have it.
\<close>

section \<open>One operation on the project\<close>

lemma do_op_doc_step:
  assumes "change_law A"
  shows "case doc_step op (getDocument A s) of
      None \<Rightarrow> do_op A op s = s
    | Some (iop, d') \<Rightarrow> getDocument A (do_op A op s) = d' \<and> ps_journal (do_op A op s) = capture iop (ps_journal s)"
  using assms
  by (auto simp: doc_step_def do_op_def perform_result_def perform_def split: sum.splits option.splits)

lemma sendLastChange_keeps [simp]:
  "getDocument A (snd (sendLastChange p)) = getDocument A p"
  "ps_journal (snd (sendLastChange p)) = ps_journal p"
  by (simp_all add: sendLastChange_all getDocument_def)

section \<open>The interface\<close>

text \<open>
  \<open>op p\<close> writes the value \<open>p\<close>. Once a first write went through, another one does what it would have done
  in the first place, on the same undo target, and captures what undoes the first.
\<close>

locale coalesced =
  fixes op :: "'p \<Rightarrow> inverse_op"
  assumes absorb: "doc_step (op p) d = Some (iop, d') \<Longrightarrow>
    (case doc_step (op q) d of
       None \<Rightarrow> doc_step (op q) d' = None
     | Some (iop2, e) \<Rightarrow> iop2 = iop \<and> (\<exists>iop'. doc_step (op q) d' = Some (iop', e) \<and> targetKey iop' = targetKey iop))"

text \<open>Inside a gesture that began in \<open>s0\<close>: nothing written yet, or the traces of one write of the start.\<close>

definition in_gesture :: "'d automerge \<Rightarrow> ('p \<Rightarrow> inverse_op) \<Rightarrow> 'd project_state \<Rightarrow> 'd project_state \<Rightarrow> bool" where
  "in_gesture A op s0 s \<longleftrightarrow>
     getDocument A s = getDocument A s0 \<and> ps_journal s = beginGroup (ps_journal s0) \<or>
     (\<exists>p iop. doc_step (op p) (getDocument A s0) = Some (iop, getDocument A s) \<and>
        ps_journal s = (ps_journal s0)\<lparr>j_grouping := Some (entry iop), j_redo := []\<rparr>)"

lemma in_gesture_begin: "in_gesture A op s0 (beginUndoGroup s0)"
  by (simp add: in_gesture_def beginUndoGroup_def on_journal_def getDocument_def)

lemma in_gesture_send [simp]: "in_gesture A op s0 (snd (sendLastChange s)) = in_gesture A op s0 s"
  by (simp add: in_gesture_def)

context coalesced
begin

lemma write_effect:
  assumes "change_law A" and "idle s0" and "in_gesture A op s0 s"
    and "doc_step (op q) (getDocument A s0) = Some (iop, e)"
  shows "getDocument A (do_op A (op q) s) = e \<and>
    ps_journal (do_op A (op q) s) = (ps_journal s0)\<lparr>j_grouping := Some (entry iop), j_redo := []\<rparr>"
  using assms(3) unfolding in_gesture_def
proof (elim disjE conjE exE)
  assume "getDocument A s = getDocument A s0" "ps_journal s = beginGroup (ps_journal s0)"
  then show ?thesis
    using do_op_doc_step [OF assms(1), of "op q" s] assms(2,4)
    by (simp add: beginGroup_def capture_def add_to_group_def entry_def idle_def)
next
  fix p iop0
  assume s: "doc_step (op p) (getDocument A s0) = Some (iop0, getDocument A s)"
    "ps_journal s = (ps_journal s0)\<lparr>j_grouping := Some (entry iop0), j_redo := []\<rparr>"
  have "iop = iop0" and "\<exists>iop'. doc_step (op q) (getDocument A s) = Some (iop', e) \<and> targetKey iop' = targetKey iop0"
    using absorb [OF s(1), of q] assms(4) by auto
  then show ?thesis
    using do_op_doc_step [OF assms(1), of "op q" s] s(2) assms(2)
    by (auto simp: capture_def add_to_group_def entry_def idle_def)
qed

lemma write_keeps:
  assumes "change_law A" and "idle s0" and "in_gesture A op s0 s"
  shows "in_gesture A op s0 (do_op A (op q) s)"
proof (cases "doc_step (op q) (getDocument A s0)")
  case None
  then have "doc_step (op q) (getDocument A s) = None"
    using assms(3) absorb [of _ "getDocument A s0" _ "getDocument A s" q] unfolding in_gesture_def by force
  then show ?thesis using do_op_doc_step [OF assms(1), of "op q" s] assms(3) by simp
next
  case (Some x)
  then obtain iop e where "doc_step (op q) (getDocument A s0) = Some (iop, e)" by (cases x) auto
  then show ?thesis using write_effect [OF assms] by (auto simp: in_gesture_def)
qed

text \<open>
  The whole gesture: the document is what the last write alone would have made of the start, the
  journal has one entry more, and undoing it gives the start back.
\<close>

lemma gesture_amounts:
  assumes "change_law A" and "idle s0" and "in_gesture A op s0 s" and "undoDepth (ps_journal s0) < 100"
    and "doc_step (op q) (getDocument A s0) = Some (iop, e)" and "reversible iop e"
    and "\<exists>iop'. doc_step iop e = Some (iop', getDocument A s0)"
    and "ps_doc s' = ps_doc (endUndoGroup (do_op A (op q) s))"
    and "ps_journal s' = ps_journal (endUndoGroup (do_op A (op q) s))"
  shows "getDocument A s' = e \<and> idle s' \<and> undoDepth (ps_journal s') = undoDepth (ps_journal s0) + 1 \<and>
    getDocument A (fst (undo A us s')) = getDocument A s0 \<and>
    undoDepth (ps_journal (fst (undo A us s'))) = undoDepth (ps_journal s0)"
proof -
  note eff = write_effect [OF assms(1-3,5)]
  have doc: "getDocument A s' = e"
    using eff assms(8) by (simp add: getDocument_def endUndoGroup_def on_journal_def)
  have j: "ps_journal s' = (ps_journal s0)\<lparr>j_undo := j_undo (ps_journal s0) @ [entry iop], j_redo := []\<rparr>"
    using eff assms(2,4,9)
    by (simp add: endUndoGroup_def on_journal_def endGroup_def push_routed_def push_entry_def entry_def
        idle_def undoDepth_def MAX_ENTRIES_def Let_def)
  have idle: "idle s'" using assms(2) j by (simp add: idle_def)
  obtain iop' d' where u: "doc_step iop e = Some (iop', d')" "getDocument A (fst (undo A us s')) = d'"
      "j_undo (ps_journal (fst (undo A us s'))) = j_undo (ps_journal s0)"
    using undo_one [OF assms(1) idle, of iop "j_undo (ps_journal s0)" us] assms(6) doc j
    by (auto simp: MAX_ENTRIES_def)
  then show ?thesis using doc j idle assms(7) by (auto simp: undoDepth_def)
qed

end

section \<open>Operations that coalesce\<close>

lemma js_round_from_again [simp]:
  "js_round_from (Fin 0) (js_round_from (Fin 0) v) = js_round_from (Fin 0) v"
  "js_round_from (Fin 1024) (js_round_from (Fin 1024) v) = js_round_from (Fin 1024) v"
  by (cases v; auto simp: js_round_from_def js_max_def)+

text \<open>What the writes leave alone: the tempo, and whether the clip is musical.\<close>

lemma resolver_upd [simp]:
  "d_sampleRate (upd_clip t c f d) = d_sampleRate d" "d_sampleRate (ensureV2 d) = d_sampleRate d"
  "effectiveTempoMap (upd_clip t c f d) = effectiveTempoMap d" "effectiveTempoMap (ensureV2 d) = effectiveTempoMap d"
  by (simp_all add: upd_clip_def upd_track_def ensureV2_def effectiveTempoMap_def)

lemma targetTick_upd [simp]:
  "targetTick (upd_clip t c f d) x = targetTick d x" "targetTick (ensureV2 d) x = targetTick d x"
  by (simp_all add: targetTick_def sampleToTick_def resolverFor_def)

lemma ensureV2_clip [simp]:
  "find_clip t c (ensureV2 d) = find_clip t c d" "ensureV2 (ensureV2 d) = ensureV2 d"
  "ensureV2 (upd_clip t c f d) = upd_clip t c f (ensureV2 d)"
  by (simp_all add: ensureV2_def find_clip_def find_track_def upd_clip_def upd_track_def)

lemma put_timing_musical [simp]: "isMusicalClip (put_timing (ti\<lparr>ti_startTick := Some st\<rparr>) c)"
  by (simp add: put_timing_def isMusicalClip_def)

lemma doc_step_SetClipTiming:
  "find_clip t c d = Some cl \<Longrightarrow>
   doc_step (SetClipTiming t c (ti\<lparr>ti_startTick := Some st\<rparr>)) d =
     Some (SetClipTiming t c (timingOf cl), upd_clip t c (put_timing (ti\<lparr>ti_startTick := Some st\<rparr>)) (ensureV2 d))"
  by (simp add: doc_step_def setClipTiming_alt no_ticks_def)

text \<open>A second timing written over a first.\<close>

lemma put_timing_over:
  assumes "find_clip t c d = Some cl" and "put_timing ti' (put_timing ti cl) = put_timing ti2 cl"
  shows "upd_clip t c (put_timing ti') (ensureV2 (upd_clip t c (put_timing ti) (ensureV2 d))) =
    upd_clip t c (put_timing ti2) (ensureV2 d)"
  using clip.upd_cong [of t c "ensureV2 d" cl "\<lambda>x. put_timing ti' (put_timing ti x)" "put_timing ti2"] assms
  by (simp add: clip.upd_upd)

lemma doc_step_SetClipStart:
  "doc_step (SetClipStart t c x) d =
     (case find_clip t c d of
        None \<Rightarrow> None
      | Some cl \<Rightarrow>
          if isMusicalClip cl
          then (case targetTick d x of
                  Inl e \<Rightarrow> None
                | Inr st \<Rightarrow> doc_step (SetClipTiming t c ((timingOf cl)\<lparr>ti_startTick := Some st\<rparr>)) d)
          else Some (SetClipStart t c (or_else (c_startSample cl) (js_int 0)),
                 upd_clip t c (\<lambda>c. c\<lparr>c_startSample := Some (js_round_from (js_int 0) x)\<rparr>) d))"
  by (auto simp: doc_step_def setClipStart_def js_bind_def split: option.splits sum.splits)

interpretation clip_start: coalesced "SetClipStart t c" for t c
proof
  fix p q d iop d'
  assume p: "doc_step (SetClipStart t c p) d = Some (iop, d')"
  then obtain cl where cl: "find_clip t c d = Some cl"
    by (auto simp: doc_step_SetClipStart split: option.splits)
  show "case doc_step (SetClipStart t c q) d of
      None \<Rightarrow> doc_step (SetClipStart t c q) d' = None
    | Some (iop2, e) \<Rightarrow> iop2 = iop \<and>
        (\<exists>iop'. doc_step (SetClipStart t c q) d' = Some (iop', e) \<and> targetKey iop' = targetKey iop)"
  proof (cases "isMusicalClip cl")
    case True
    then obtain st where st: "targetTick d p = Inr st" "iop = SetClipTiming t c (timingOf cl)"
        "d' = upd_clip t c (put_timing ((timingOf cl)\<lparr>ti_startTick := Some st\<rparr>)) (ensureV2 d)"
      using p cl by (auto simp: doc_step_SetClipStart doc_step_SetClipTiming split: sum.splits)
    have over: "put_timing ((timingOf (put_timing ((timingOf cl)\<lparr>ti_startTick := Some st\<rparr>) cl))\<lparr>ti_startTick := Some st'\<rparr>)
        (put_timing ((timingOf cl)\<lparr>ti_startTick := Some st\<rparr>) cl) = put_timing ((timingOf cl)\<lparr>ti_startTick := Some st'\<rparr>) cl" for st'
      by (simp add: put_timing_def timingOf_def option.map_comp comp_def)
    show ?thesis
      using True cl st put_timing_over [OF cl over]
      by (auto simp: doc_step_SetClipStart doc_step_SetClipTiming clip.get_upd split: sum.splits)
  next
    case False
    then show ?thesis
      using p cl by (auto simp: doc_step_SetClipStart clip.get_upd clip.overwrite isMusicalClip_def)
  qed
qed

text \<open>The timing that \<open>setClipBounds\<close> gives a musical clip.\<close>

definition bounds_timing :: "project \<Rightarrow> clip_bounds \<Rightarrow> clip \<Rightarrow> clip_timing js_result" where
  "bounds_timing d b cl =
     js_bind (targetTick d (b_startSample b)) (\<lambda>st.
     js_bind (case c_lengthTick cl of
         Some _ \<Rightarrow> js_bind (targetTick d (js_add (b_startSample b) (b_lengthSamples b))) (\<lambda>en.
           Inr ((timingOf cl)\<lparr>ti_lengthTick := Some (js_max (js_int 1) (js_sub en st))\<rparr>))
       | None \<Rightarrow> Inr ((timingOf cl)\<lparr>ti_lengthSamples := Some (js_round_from (js_int 1024) (b_lengthSamples b))\<rparr>))
       (\<lambda>ti. Inr (ti\<lparr>ti_startTick := Some st, ti_offsetSamples := Some (js_round_from (js_int 0) (b_offsetSamples b))\<rparr>)))"

lemma bounds_timing_musical:
  "bounds_timing d b cl = Inr ti \<Longrightarrow> \<exists>ti' st. ti = ti'\<lparr>ti_startTick := Some st\<rparr>"
proof -
  assume "bounds_timing d b cl = Inr ti"
  then have "ti_startTick ti \<noteq> None"
    by (auto simp: bounds_timing_def js_bind_def split: sum.splits option.splits)
  then show ?thesis by (intro exI [of _ ti]) (cases ti, auto)
qed

lemma bounds_timing_upd [simp]:
  "bounds_timing (upd_clip t c f d) b cl = bounds_timing d b cl" "bounds_timing (ensureV2 d) b cl = bounds_timing d b cl"
  by (simp_all add: bounds_timing_def cong: option.case_cong)

lemma bounds_timing_over:
  assumes "bounds_timing d p cl = Inr ti"
  shows "case bounds_timing d q cl of
      Inl e \<Rightarrow> bounds_timing d q (put_timing ti cl) = Inl e
    | Inr ti2 \<Rightarrow> \<exists>ti'. bounds_timing d q (put_timing ti cl) = Inr ti' \<and>
        put_timing ti' (put_timing ti cl) = put_timing ti2 cl"
  using assms
  by (auto simp: bounds_timing_def js_bind_def put_timing_def timingOf_def option.map_comp comp_def
      split: sum.splits option.splits)

lemma doc_step_SetClipBounds:
  "doc_step (SetClipBounds t c b) d =
     (case find_clip t c d of
        None \<Rightarrow> None
      | Some cl \<Rightarrow>
          if isMusicalClip cl
          then (case bounds_timing d b cl of
                  Inl e \<Rightarrow> None
                | Inr ti \<Rightarrow> doc_step (SetClipTiming t c ti) d)
          else Some (SetClipBounds t c
              \<lparr>b_startSample = or_else (c_startSample cl) (js_int 0),
               b_lengthSamples = or_else (c_lengthSamples cl) (js_int 0),
               b_offsetSamples = or_else (c_offsetSamples cl) NaN\<rparr>,
            upd_clip t c (\<lambda>c. c\<lparr>c_startSample := Some (js_round_from (js_int 0) (b_startSample b)),
              c_lengthSamples := Some (js_round_from (js_int 1024) (b_lengthSamples b)),
              c_offsetSamples := Some (js_round_from (js_int 0) (b_offsetSamples b))\<rparr>) d))"
  by (auto simp: doc_step_def setClipBounds_def bounds_timing_def js_bind_def split: option.splits sum.splits)

interpretation clip_bounds: coalesced "SetClipBounds t c" for t c
proof
  fix p q d iop d'
  assume p: "doc_step (SetClipBounds t c p) d = Some (iop, d')"
  then obtain cl where cl: "find_clip t c d = Some cl"
    by (auto simp: doc_step_SetClipBounds split: option.splits)
  show "case doc_step (SetClipBounds t c q) d of
      None \<Rightarrow> doc_step (SetClipBounds t c q) d' = None
    | Some (iop2, e) \<Rightarrow> iop2 = iop \<and>
        (\<exists>iop'. doc_step (SetClipBounds t c q) d' = Some (iop', e) \<and> targetKey iop' = targetKey iop)"
  proof (cases "isMusicalClip cl")
    case True
    then obtain ti where ti: "bounds_timing d p cl = Inr ti"
      using p cl by (auto simp: doc_step_SetClipBounds split: sum.splits)
    then obtain ti1 st where ti1: "ti = ti1\<lparr>ti_startTick := Some st\<rparr>" using bounds_timing_musical by blast
    have d': "iop = SetClipTiming t c (timingOf cl)" "d' = upd_clip t c (put_timing ti) (ensureV2 d)"
      using p cl True ti by (auto simp: doc_step_SetClipBounds doc_step_SetClipTiming ti1)
    then have found: "find_clip t c d' = Some (put_timing ti cl)" "isMusicalClip (put_timing ti cl)"
      using cl by (simp_all add: clip.get_upd ti1)
    note over = bounds_timing_over [OF ti, of q]
    show ?thesis
    proof (cases "bounds_timing d q cl")
      case (Inl e)
      then show ?thesis using True cl found over d' by (simp add: doc_step_SetClipBounds)
    next
      case (Inr ti2)
      then obtain ti' where ti': "bounds_timing d' q (put_timing ti cl) = Inr ti'"
          "put_timing ti' (put_timing ti cl) = put_timing ti2 cl"
        using over d' by auto
      obtain x st2 y st3 where form: "ti2 = x\<lparr>ti_startTick := Some st2\<rparr>" "ti' = y\<lparr>ti_startTick := Some st3\<rparr>"
        using bounds_timing_musical [OF Inr] bounds_timing_musical [OF ti'(1)] by blast
      have "upd_clip t c (put_timing ti') (ensureV2 d') = upd_clip t c (put_timing ti2) (ensureV2 d)"
        using put_timing_over [OF cl ti'(2)] d'(2) by simp
      then show ?thesis
        using True cl found ti' Inr d'(1) doc_step_SetClipTiming [OF cl, where ti = x and st = st2]
          doc_step_SetClipTiming [OF found(1), where ti = y and st = st3]
        by (simp add: doc_step_SetClipBounds form [symmetric])
    qed
  next
    case False
    then show ?thesis
      using p cl by (auto simp: doc_step_SetClipBounds clip.get_upd clip.overwrite isMusicalClip_def)
  qed
qed

lemma doc_step_SetClipFades:
  "doc_step (SetClipFades t c fi fo) d =
     (case find_clip t c d of
        None \<Rightarrow> None
      | Some cl \<Rightarrow> Some (SetClipFades t c (or_else (c_fadeInSamples cl) (js_int 0))
          (or_else (c_fadeOutSamples cl) (js_int 0)), upd_clip t c (put_fades fi fo) d))"
  by (auto simp: doc_step_def setClipFades_alt setClipFades_def put_fades_def [abs_def] half_length_def Let_def
      split: option.splits)

interpretation clip_fades: coalesced "\<lambda>p. SetClipFades t c (fst p) (snd p)" for t c
proof
  have over: "put_fades a b (put_fades a' b' cl) = put_fades a b cl" for a b a' b' cl
    by (simp add: put_fades_def half_length_def)
  fix p q :: "jsnum \<times> jsnum" and d iop d'
  assume "doc_step (SetClipFades t c (fst p) (snd p)) d = Some (iop, d')"
  then show "case doc_step (SetClipFades t c (fst q) (snd q)) d of
      None \<Rightarrow> doc_step (SetClipFades t c (fst q) (snd q)) d' = None
    | Some (iop2, e) \<Rightarrow> iop2 = iop \<and>
        (\<exists>iop'. doc_step (SetClipFades t c (fst q) (snd q)) d' = Some (iop', e) \<and> targetKey iop' = targetKey iop)"
    by (auto simp: doc_step_SetClipFades clip.get_upd clip.overwrite over split: option.splits)
qed

interpretation track_gain: coalesced "SetTrackGain t" for t
  by standard (auto simp: doc_step_def setTrackGain_def track.get_upd track.overwrite split: option.splits)

interpretation track_pan: coalesced "SetTrackPan t" for t
  by standard (auto simp: doc_step_def setTrackPan_def track.get_upd track.overwrite split: option.splits)

interpretation master_gain: coalesced SetMasterGain
  by standard (auto simp: doc_step_def setMasterGain_def)

section \<open>Several targets\<close>

text \<open>Operations that all go through: their inverses in order, and the document.\<close>

fun all_steps :: "inverse_op list \<Rightarrow> project \<Rightarrow> (inverse_op list \<times> project) option" where
  "all_steps [] d = Some ([], d)"
| "all_steps (op # ops) d =
     (case doc_step op d of
        None \<Rightarrow> None
      | Some (iop, d') \<Rightarrow> map_option (\<lambda>(iops, e). (iop # iops, e)) (all_steps ops d'))"

lemma all_steps_append:
  "all_steps (xs @ ys) d =
     Option.bind (all_steps xs d) (\<lambda>(is, d'). map_option (\<lambda>(js, e). (is @ js, e)) (all_steps ys d'))"
proof (induction xs arbitrary: d)
  case (Cons x xs)
  then show ?case
    by (auto simp: option.map_comp comp_def split_beta split: option.splits bind_splits)
qed (simp add: option.map_ident split_beta id_def)

text \<open>An undo of a group of operations that all go back.\<close>

lemma replay_run:
  assumes "change_law A" and "good_run doc_step reversible ops (getDocument A s)"
    and "j_grouping (ps_journal s) \<noteq> None"
  shows "\<exists>s'. replay A us ops s = (s', None) \<and> getDocument A s' = snd (run_ops doc_step ops (getDocument A s)) \<and>
    j_undo (ps_journal s') = j_undo (ps_journal s) \<and> j_route (ps_journal s') = j_route (ps_journal s)"
  using assms(2-)
proof (induction ops arbitrary: s us)
  case (Cons op ops)
  then obtain iop f where f: "\<And>u. replay_op u op (getDocument A s) = Inr (Some (iop, f))"
    using reversible_round_trip [of op "getDocument A s"] by (auto simp: round_trip_def)
  let ?s = "commit A iop f s"
  have st: "doc_step op (getDocument A s) = Some (iop, f (getDocument A s))" by (simp add: doc_step_def f)
  have doc: "getDocument A ?s = f (getDocument A s)" using assms(1) by simp
  have j: "j_grouping (ps_journal ?s) \<noteq> None" "j_undo (ps_journal ?s) = j_undo (ps_journal s)"
      "j_route (ps_journal ?s) = j_route (ps_journal s)"
    using Cons.prems(2) by (auto simp: capture_def)
  have "good_run doc_step reversible ops (getDocument A ?s)" using Cons.prems(1) st doc by simp
  from Cons.IH [OF this j(1), of "tl us"] show ?case
    using st doc j by (auto simp: perform_result_def perform_def f split_beta)
qed simp

lemma undo_group:
  assumes "change_law A" and "idle s" and "j_undo (ps_journal s) = st @ [g]"
    and "good_run doc_step reversible (rev (g_ops g)) (getDocument A s)"
  shows "getDocument A (fst (undo A us s)) = snd (run_ops doc_step (rev (g_ops g)) (getDocument A s)) \<and>
    snd (undo A us s) = Inr True \<and> undoDepth (ps_journal (fst (undo A us s))) = length st"
proof -
  let ?j = "(ps_journal s)\<lparr>j_undo := st\<rparr>"
  let ?s = "on_journal (openReplay ToRedo) (s\<lparr>ps_journal := ?j\<rparr>)"
  have pop: "popUndo (ps_journal s) = (Some (rev (g_ops g)), ?j)" by (simp add: popUndo_def assms(3))
  have s: "getDocument A ?s = getDocument A s" "j_grouping (ps_journal ?s) \<noteq> None"
      "j_undo (ps_journal ?s) = st" "j_route (ps_journal ?s) = ToRedo"
    using assms(2) by (simp_all add: openReplay_def beginGroup_def idle_def)
  obtain s' where s': "replay A us (rev (g_ops g)) ?s = (s', None)"
      "getDocument A s' = snd (run_ops doc_step (rev (g_ops g)) (getDocument A s))"
      "j_undo (ps_journal s') = st" "j_route (ps_journal s') = ToRedo"
    using replay_run [OF assms(1), of "rev (g_ops g)" ?s us] assms(4) s by auto
  have "undo A us s = (on_journal closeReplay s', Inr True)"
    by (simp add: undo_def pop routeReplay_def s'(1))
  moreover have "j_undo (closeReplay (ps_journal s')) = st"
    using s'(3,4) by (auto simp: closeReplay_def endGroup_def push_routed_def Let_def split: option.splits)
  ultimately show ?thesis using s'(2) by (simp add: undoDepth_def)
qed

text \<open>Reversible operations on different targets, inside one group, are one undo entry.\<close>

lemma grouped_run:
  assumes "change_law A" and "good_run doc_step reversible ops (getDocument A s)" and "run_ops doc_step ops (getDocument A s) = (iops, e)"
    and "j_grouping (ps_journal s) = Some g" and "j_route (ps_journal s) = Normal"
    and "distinct (map targetKey iops)" and "g_seen g \<inter> targetKey ` set iops = {}"
  shows "getDocument A (fold (do_op A) ops s) = e \<and>
    j_grouping (ps_journal (fold (do_op A) ops s)) =
      Some \<lparr>g_ops = g_ops g @ rev iops, g_seen = g_seen g \<union> targetKey ` set iops\<rparr> \<and>
    j_undo (ps_journal (fold (do_op A) ops s)) = j_undo (ps_journal s) \<and> j_route (ps_journal (fold (do_op A) ops s)) = Normal"
  using assms(2-)
proof (induction ops arbitrary: s g iops)
  case (Cons op ops)
  obtain iop d1 where one: "doc_step op (getDocument A s) = Some (iop, d1)" "good_run doc_step reversible ops d1"
    using Cons.prems(1) edits.reverts [of op "getDocument A s"] by auto
  obtain iops' where run: "run_ops doc_step ops d1 = (iops', e)" "iops = iops' @ [iop]"
    using Cons.prems(2) one(1) by (auto split: prod.splits)
  let ?s = "do_op A op s"
  have s: "getDocument A ?s = d1" "ps_journal ?s = capture iop (ps_journal s)"
    using do_op_doc_step [OF assms(1), of op s] one(1) by simp_all
  have new: "targetKey iop \<notin> g_seen g" using Cons.prems(6) run(2) by auto
  have j: "j_grouping (ps_journal ?s) = Some \<lparr>g_ops = g_ops g @ [iop], g_seen = insert (targetKey iop) (g_seen g)\<rparr>"
      "j_route (ps_journal ?s) = Normal" "j_undo (ps_journal ?s) = j_undo (ps_journal s)"
    using s(2) Cons.prems(3,4) new by (simp_all add: capture_def add_to_group_def)
  show ?case
    using Cons.IH [of ?s iops', unfolded s(1), OF one(2) run(1) j(1,2)] Cons.prems(5,6) j(3) run(2) by auto
qed simp

lemma grouped_ops:
  assumes "change_law A" and "idle s0" and "undoDepth (ps_journal s0) < 100" and "ops \<noteq> []"
    and "good_run doc_step reversible ops (getDocument A s0)" and "run_ops doc_step ops (getDocument A s0) = (iops, e)"
    and "distinct (map targetKey iops)"
    and "ps_doc s' = ps_doc (endUndoGroup (fold (do_op A) ops (beginUndoGroup s0)))"
    and "ps_journal s' = ps_journal (endUndoGroup (fold (do_op A) ops (beginUndoGroup s0)))"
  shows "getDocument A s' = e \<and> idle s' \<and> undoDepth (ps_journal s') = undoDepth (ps_journal s0) + 1 \<and>
    getDocument A (fst (undo A us s')) = getDocument A s0 \<and>
    undoDepth (ps_journal (fst (undo A us s'))) = undoDepth (ps_journal s0)"
proof -
  let ?b = "beginUndoGroup s0" and ?f = "fold (do_op A) ops (beginUndoGroup s0)"
  have b: "getDocument A ?b = getDocument A s0" "j_grouping (ps_journal ?b) = Some \<lparr>g_ops = [], g_seen = {}\<rparr>"
      "j_route (ps_journal ?b) = Normal" "j_undo (ps_journal ?b) = j_undo (ps_journal s0)"
    using assms(2) by (simp_all add: beginUndoGroup_def on_journal_def beginGroup_def idle_def getDocument_def)
  have undone: "snd (run_ops doc_step iops e) = getDocument A s0" "good_run doc_step reversible iops e" "length iops = length ops"
    using edits.unwind [OF assms(5)] assms(6) by simp_all
  have f: "getDocument A ?f = e" "j_grouping (ps_journal ?f) = Some \<lparr>g_ops = rev iops, g_seen = targetKey ` set iops\<rparr>"
      "j_undo (ps_journal ?f) = j_undo (ps_journal s0)" "j_route (ps_journal ?f) = Normal"
    using grouped_run [OF assms(1), of ops ?b iops e, unfolded b(1)] assms(5-7) b(2-4) by simp_all
  have ne: "iops \<noteq> []" using undone(3) assms(4) by auto
  have doc: "getDocument A s' = e"
    using f(1) assms(8) by (simp add: getDocument_def endUndoGroup_def on_journal_def)
  have j: "j_grouping (ps_journal s') = None" "j_route (ps_journal s') = Normal"
      "j_undo (ps_journal s') = j_undo (ps_journal s0) @ [\<lparr>g_ops = rev iops, g_seen = targetKey ` set iops\<rparr>]"
    using f assms(3,9) ne
    by (simp_all add: endUndoGroup_def on_journal_def endGroup_def push_routed_def push_entry_def undoDepth_def MAX_ENTRIES_def Let_def)
  have idle: "idle s'" using j by (simp add: idle_def)
  show ?thesis
    using undo_group [OF assms(1) idle j(3), of us] undone doc idle j(3) by (simp add: undoDepth_def)
qed

text \<open>
  \<open>op i p\<close> writes \<open>p\<close> on the target \<open>i\<close>: on one target the writes coalesce, on two they commute and
  are on two targets of the journal. A \<open>safe\<close> target has all that an undo restores.
\<close>

locale coalesced_family =
  fixes op :: "'i \<Rightarrow> 'p \<Rightarrow> inverse_op"
    and safe :: "'i \<Rightarrow> project \<Rightarrow> bool"
  assumes absorbs: "coalesced (op i)"
    and commutes: "i \<noteq> j \<Longrightarrow> doc_step (op i p) d = Some (iop, d') \<Longrightarrow>
      (case doc_step (op j q) d of
         None \<Rightarrow> doc_step (op j q) d' = None
       | Some (jop, e) \<Rightarrow> \<exists>e'. doc_step (op j q) d' = Some (jop, e') \<and> doc_step (op i p) e = Some (iop, e'))"
    and apart: "i \<noteq> j \<Longrightarrow> doc_step (op i p) d = Some (iop, d') \<Longrightarrow> doc_step (op j q) e = Some (jop, e') \<Longrightarrow>
      targetKey iop \<noteq> targetKey jop"
    and restores: "safe i d \<Longrightarrow> doc_step (op i p) d = Some (iop, d') \<Longrightarrow>
      reversible iop d' \<and> (\<exists>x. doc_step iop d' = Some (x, d))"
    and stays_safe: "safe i d \<Longrightarrow> doc_step (op j p) d = Some (iop, d') \<Longrightarrow> safe i d'"

text \<open>Inside a gesture that began in \<open>s0\<close>: one write for each target reached, in the order of the first writes.\<close>

definition writes :: "('i \<Rightarrow> 'p \<Rightarrow> inverse_op) \<Rightarrow> ('i \<times> 'p) list \<Rightarrow> inverse_op list" where
  "writes op M = map (\<lambda>(i, p). op i p) M"

definition in_family ::
  "'d automerge \<Rightarrow> ('i \<Rightarrow> 'p \<Rightarrow> inverse_op) \<Rightarrow> 'd project_state \<Rightarrow> ('i \<times> 'p) list \<Rightarrow> 'd project_state \<Rightarrow> bool" where
  "in_family A op s0 M s \<longleftrightarrow> distinct (map fst M) \<and>
     (\<exists>iops. all_steps (writes op M) (getDocument A s0) = Some (iops, getDocument A s) \<and>
        ps_journal s = (ps_journal s0)\<lparr>j_grouping := Some \<lparr>g_ops = iops, g_seen = targetKey ` set iops\<rparr>,
          j_redo := if M = [] then j_redo (ps_journal s0) else []\<rparr>)"

lemma in_family_begin: "idle s0 \<Longrightarrow> in_family A op s0 [] (beginUndoGroup s0)"
  by (simp add: in_family_def writes_def beginUndoGroup_def on_journal_def getDocument_def beginGroup_def idle_def)

lemma in_family_send [simp]: "in_family A op s0 M (snd (sendLastChange s)) = in_family A op s0 M s"
  by (simp add: in_family_def)

context coalesced_family
begin

text \<open>A write passes before the writes on other targets.\<close>

lemma write_first:
  assumes "all_steps (writes op M) d = Some (iops, d')" and "i \<notin> fst ` set M"
    and "doc_step (op i q) d' = Some (iop, e)"
  shows "\<exists>e1. doc_step (op i q) d = Some (iop, e1) \<and> all_steps (writes op M) e1 = Some (iops, e)"
  using assms
proof (induction M arbitrary: d iops)
  case (Cons m M)
  obtain j x where m: "m = (j, x)" by (cases m)
  obtain jop d1 jops where st: "doc_step (op j x) d = Some (jop, d1)"
      "all_steps (writes op M) d1 = Some (jops, d')" "iops = jop # jops"
    using Cons.prems(1) by (auto simp: writes_def m split: option.splits)
  obtain e2 where e2: "doc_step (op i q) d1 = Some (iop, e2)" "all_steps (writes op M) e2 = Some (jops, e)"
    using Cons.IH [OF st(2)] Cons.prems(2,3) by auto
  obtain e1 where e1: "doc_step (op i q) d = Some (iop, e1)" "doc_step (op j x) e1 = Some (jop, e2)"
    using commutes [OF _ st(1), of i q] Cons.prems(2) e2(1) by (auto simp: m split: option.splits)
  then show ?case using e2 st(3) by (auto simp: writes_def m)
qed (simp add: writes_def)

lemma keys_of_writes:
  assumes "all_steps (writes op M) d = Some (iops, d')" and "i \<notin> fst ` set M"
    and "doc_step (op i q) e = Some (iop, e')"
  shows "targetKey iop \<notin> targetKey ` set iops"
  using assms
proof (induction M arbitrary: d iops)
  case (Cons m M)
  obtain j x where m: "m = (j, x)" by (cases m)
  obtain jop d1 jops where st: "doc_step (op j x) d = Some (jop, d1)"
      "all_steps (writes op M) d1 = Some (jops, d')" "iops = jop # jops"
    using Cons.prems(1) by (auto simp: writes_def m split: option.splits)
  have "targetKey jop \<noteq> targetKey iop" using apart [OF _ st(1) assms(3)] Cons.prems(2) by (auto simp: m)
  then show ?case using Cons.IH [OF st(2)] Cons.prems(2) assms(3) st(3) by auto
qed (simp add: writes_def)

lemma write_keeps:
  assumes "change_law A" and "idle s0" and "in_family A op s0 M s"
  shows "\<exists>M'. in_family A op s0 M' (do_op A (op i q) s) \<and> set M' \<subseteq> insert (i, q) (set M)"
proof (cases "doc_step (op i q) (getDocument A s)")
  case None
  then show ?thesis using do_op_doc_step [OF assms(1), of "op i q" s] assms(3) by auto
next
  case (Some y)
  then obtain iop e where st: "doc_step (op i q) (getDocument A s) = Some (iop, e)" by (cases y) auto
  obtain iops where M: "distinct (map fst M)" "all_steps (writes op M) (getDocument A s0) = Some (iops, getDocument A s)"
      "ps_journal s = (ps_journal s0)\<lparr>j_grouping := Some \<lparr>g_ops = iops, g_seen = targetKey ` set iops\<rparr>,
          j_redo := if M = [] then j_redo (ps_journal s0) else []\<rparr>"
    using assms(3) by (auto simp: in_family_def)
  have new: "getDocument A (do_op A (op i q) s) = e" "ps_journal (do_op A (op i q) s) = capture iop (ps_journal s)"
    using do_op_doc_step [OF assms(1), of "op i q" s] st by simp_all
  show ?thesis
  proof (cases "i \<in> fst ` set M")
    case False
    have "targetKey iop \<notin> targetKey ` set iops" using keys_of_writes [OF M(2) False st] .
    then have j: "capture iop (ps_journal s) = (ps_journal s0)\<lparr>j_grouping :=
        Some \<lparr>g_ops = iops @ [iop], g_seen = targetKey ` set (iops @ [iop])\<rparr>, j_redo := []\<rparr>"
      using assms(2) M(3) by (simp add: capture_def add_to_group_def idle_def)
    have w: "writes op (M @ [(i, q)]) = writes op M @ [op i q]" by (simp add: writes_def)
    have "in_family A op s0 (M @ [(i, q)]) (do_op A (op i q) s)"
      unfolding in_family_def w using M(1,2) False st new j by (auto simp: all_steps_append)
    then show ?thesis by (intro exI [of _ "M @ [(i, q)]"]) simp
  next
    case True
    then obtain p M1 M2 where split: "M = M1 @ (i, p) # M2" by (auto dest!: split_list)
    have w: "writes op (M1 @ (i, x) # M2) = writes op M1 @ op i x # writes op M2" for x by (simp add: writes_def)
    obtain is1 d1 jop d1' is2 where run: "all_steps (writes op M1) (getDocument A s0) = Some (is1, d1)"
        "doc_step (op i p) d1 = Some (jop, d1')" "all_steps (writes op M2) d1' = Some (is2, getDocument A s)"
        "iops = is1 @ jop # is2"
      using M(2) unfolding split w by (auto simp: all_steps_append split: bind_splits option.splits)
    obtain e1 where e1: "doc_step (op i q) d1' = Some (iop, e1)" "all_steps (writes op M2) e1 = Some (is2, e)"
      using write_first [OF run(3) _ st] M(1) by (auto simp: split)
    have e2: "doc_step (op i q) d1 = Some (jop, e1)" "targetKey iop = targetKey jop"
      using coalesced.absorb [OF absorbs run(2), of q] e1(1) by (auto split: option.splits)
    have "all_steps (writes op (M1 @ (i, q) # M2)) (getDocument A s0) = Some (iops, e)"
      unfolding w using run e1 e2 by (simp add: all_steps_append)
    moreover have "capture iop (ps_journal s) = ps_journal s"
      using M(3) assms(2) e2(2) run(4) split by (simp add: capture_def add_to_group_def idle_def)
    ultimately have "in_family A op s0 (M1 @ (i, q) # M2) (do_op A (op i q) s)"
      using M(1,3) new by (auto simp: in_family_def split)
    then show ?thesis by (intro exI [of _ "M1 @ (i, q) # M2"]) (auto simp: split)
  qed
qed

lemma steps_go_back:
  assumes "all_steps (writes op M) d = Some (iops, e)" and "\<And>i p. (i, p) \<in> set M \<Longrightarrow> safe i d"
  shows "good_run doc_step reversible (rev iops) e \<and> snd (run_ops doc_step (rev iops) e) = d"
  using assms
proof (induction M arbitrary: d iops)
  case (Cons m M)
  obtain i p where m: "m = (i, p)" by (cases m)
  obtain iop d1 iops' where st: "doc_step (op i p) d = Some (iop, d1)"
      "all_steps (writes op M) d1 = Some (iops', e)" "iops = iop # iops'"
    using Cons.prems(1) by (auto simp: writes_def m split: option.splits)
  have undone: "reversible iop d1" "\<exists>x. doc_step iop d1 = Some (x, d)"
    using restores [OF _ st(1)] Cons.prems(2) by (auto simp: m)
  have IH: "good_run doc_step reversible (rev iops') e" "snd (run_ops doc_step (rev iops') e) = d1"
    using Cons.IH [OF st(2)] stays_safe [OF _ st(1)] Cons.prems(2) by auto
  have "good_run doc_step reversible (rev iops' @ [iop]) e"
    by (rule good_run_append) (use IH undone in auto)
  then show ?case using IH undone by (auto simp: st(3) run_ops_append split_beta)
qed (simp add: writes_def)

text \<open>The whole gesture is one entry, and undoing it gives the start back.\<close>

lemma family_amounts:
  assumes "change_law A" and "idle s0" and "in_family A op s0 M s" and "undoDepth (ps_journal s0) < 100"
    and "\<And>i p. (i, p) \<in> set M \<Longrightarrow> safe i (getDocument A s0)"
    and "ps_doc s' = ps_doc (endUndoGroup s)" and "ps_journal s' = ps_journal (endUndoGroup s)"
  shows "getDocument A s' = getDocument A s \<and> idle s' \<and>
    undoDepth (ps_journal s') = undoDepth (ps_journal s0) + (if M = [] then 0 else 1) \<and>
    (M \<noteq> [] \<longrightarrow> getDocument A (fst (undo A us s')) = getDocument A s0 \<and>
       undoDepth (ps_journal (fst (undo A us s'))) = undoDepth (ps_journal s0))"
proof -
  obtain iops where M: "all_steps (writes op M) (getDocument A s0) = Some (iops, getDocument A s)"
      "ps_journal s = (ps_journal s0)\<lparr>j_grouping := Some \<lparr>g_ops = iops, g_seen = targetKey ` set iops\<rparr>,
          j_redo := if M = [] then j_redo (ps_journal s0) else []\<rparr>"
    using assms(3) by (auto simp: in_family_def)
  have nil: "iops = [] \<longleftrightarrow> M = []"
    using M(1) by (cases M) (auto simp: writes_def split: option.splits)
  have doc: "getDocument A s' = getDocument A s"
    using assms(6) by (simp add: getDocument_def endUndoGroup_def on_journal_def)
  have j: "j_grouping (ps_journal s') = None" "j_route (ps_journal s') = Normal"
      "j_undo (ps_journal s') = j_undo (ps_journal s0) @
         (if M = [] then [] else [\<lparr>g_ops = iops, g_seen = targetKey ` set iops\<rparr>])"
    using M(2) assms(2,4,7) nil
    by (auto simp: endUndoGroup_def on_journal_def endGroup_def push_routed_def push_entry_def
        idle_def undoDepth_def MAX_ENTRIES_def Let_def)
  have idle: "idle s'" using j by (simp add: idle_def)
  note undone = steps_go_back [OF M(1) assms(5)]
  show ?thesis
    using undo_group [OF assms(1) idle, of "j_undo (ps_journal s0)" _ us] j undone doc idle
    by (auto simp: undoDepth_def)
qed

end

end
