(* ===== verification/Gestures.thy ===== *)
theory Gestures
  imports Coalesced Clip_Selection Navigation
begin

text \<open>
  The gestures on clips, \<open>web/src/app/gestures.ts\<close>: drag by the title bar, resize by an edge, fade
  handle and lasso. A gesture is a record of the variables its closures share; its handlers run on
  the project and the selection. A handler that throws stops there and keeps what it did. What the
  page answers (the lane under the pointer, the rectangles of the clips, whether a sample is armed)
  is part of an event; styles and rendering are left out.
\<close>

section \<open>Statements\<close>

record 'd editor =
  ed_project :: "'d project_state"
  ed_selection :: selection

type_synonym 's statement = "'s \<Rightarrow> client_call list \<times> 's \<times> js_error option"

definition then_do :: "'s statement \<Rightarrow> 's statement \<Rightarrow> 's statement" where
  "then_do a b s =
     (case a s of
        (cs, s', Some e) \<Rightarrow> (cs, s', Some e)
      | (cs, s', None) \<Rightarrow> (case b s' of (cs', s'', r) \<Rightarrow> (cs @ cs', s'', r)))"

definition sequence_of :: "'s statement list \<Rightarrow> 's statement" where
  "sequence_of stmts = foldr then_do stmts (\<lambda>s. ([], s, None))"

definition mutate :: "('d project_state \<Rightarrow> 'd project_state \<times> js_error option) \<Rightarrow> 'd editor statement" where
  "mutate f s = (case f (ed_project s) of (p, e) \<Rightarrow> ([], s\<lparr>ed_project := p\<rparr>, e))"

definition on_project :: "('d project_state \<Rightarrow> 'd project_state) \<Rightarrow> 'd editor statement" where
  "on_project f = mutate (\<lambda>p. (f p, None))"

definition send_changes :: "'d editor statement" where
  "send_changes s = (case sendLastChange (ed_project s) of (cs, p) \<Rightarrow> (cs, s\<lparr>ed_project := p\<rparr>, None))"

section \<open>Snap\<close>

text \<open>The edges of the other clips of the track, in seconds.\<close>

fun clip_edges :: "project \<Rightarrow> string \<Rightarrow> clip list \<Rightarrow> jsnum list js_result" where
  "clip_edges doc clipId [] = Inr []"
| "clip_edges doc clipId (c # cs) =
     (if c_id c = clipId then clip_edges doc clipId cs
      else js_bind (clipStartSamples c doc) (\<lambda>a.
           js_bind (clipEndSamples c doc) (\<lambda>b.
           js_bind (clip_edges doc clipId cs) (\<lambda>es.
             Inr (js_div a (doc_rate doc) # js_div b (doc_rate doc) # es)))))"

text \<open>The grid of the clip's domain, unless an edge is less than 8 pixels away.\<close>

definition snap_target :: "jsnum \<Rightarrow> project \<Rightarrow> clip \<Rightarrow> jsnum list \<Rightarrow> jsnum \<Rightarrow> jsnum js_result" where
  "snap_target pps doc clip edges sec =
     js_bind (if isMusicalClip clip then snapSecMusical pps doc sec else Inr (snap_on (snapStep pps) sec)) (\<lambda>snapped.
       Inr (case List.find (\<lambda>edge. js_lt (js_mul (js_abs (js_sub sec edge)) pps) (js_int 8)) edges of
              Some edge \<Rightarrow> edge
            | None \<Rightarrow> snapped))"

record pointer_move =
  mv_x :: jsnum
  mv_y :: jsnum
  mv_pps :: jsnum
  mv_alt :: bool
  mv_lane :: "string option"

section \<open>Drag\<close>

record clip_drag =
  cd_trackId :: string
  cd_clipId :: string
  cd_doc :: project
  cd_sr :: jsnum
  cd_clip :: clip
  cd_edges :: "jsnum list"
  cd_startX :: jsnum
  cd_startY :: jsnum
  cd_adding :: bool
  cd_origSec :: jsnum
  cd_wasSelected :: bool
  cd_lot :: "(string \<times> string \<times> jsnum) list"
  cd_moved :: bool
  cd_pendingSec :: jsnum
  cd_frame :: bool
  cd_drop :: "string option"

text \<open>The rest of the lot, with the place each clip starts from.\<close>

fun drag_lot :: "project \<Rightarrow> string \<Rightarrow> (string \<times> clip) list \<Rightarrow> (string \<times> string \<times> jsnum) list js_result" where
  "drag_lot doc clipId [] = Inr []"
| "drag_lot doc clipId ((t, c) # xs) =
     (if c_id c = clipId then drag_lot doc clipId xs
      else js_bind (clipStartSamples c doc) (\<lambda>a.
           js_bind (drag_lot doc clipId xs) (\<lambda>ms. Inr ((t, c_id c, js_div a (doc_rate doc)) # ms))))"

definition beginClipDrag ::
  "'d automerge \<Rightarrow> string \<Rightarrow> string \<Rightarrow> jsnum \<Rightarrow> jsnum \<Rightarrow> bool \<Rightarrow> 'd editor \<Rightarrow> clip_drag option \<times> 'd editor" where
  "beginClipDrag A trackId clipId x y adding s =
     (let doc = getDocument A (ed_project s);
          sel = ed_selection s
      in case find_track trackId doc of
           None \<Rightarrow> (None, s)
         | Some track \<Rightarrow>
         (case List.find (\<lambda>c. c_id c = clipId) (t_clips track) of
            None \<Rightarrow> (None, s)
          | Some clip \<Rightarrow>
          (case (clip_edges doc clipId (t_clips track), clipStartSamples clip doc) of
             (Inr edges, Inr start) \<Rightarrow>
               (let wasSelected = isClipSelected clipId sel;
                    sel = (if wasSelected then sel else selectClip clipId trackId adding sel);
                    (picked, sel) = selectedClips (Some doc) sel;
                    s = s\<lparr>ed_selection := sel\<rparr>;
                    origSec = js_div start (doc_rate doc)
                in case drag_lot doc clipId picked of
                     Inl e \<Rightarrow> (None, s)
                   | Inr lot \<Rightarrow>
                       (Some \<lparr>cd_trackId = trackId, cd_clipId = clipId, cd_doc = doc, cd_sr = doc_rate doc,
                          cd_clip = clip, cd_edges = edges, cd_startX = x, cd_startY = y, cd_adding = adding,
                          cd_origSec = origSec, cd_wasSelected = wasSelected, cd_lot = lot, cd_moved = False,
                          cd_pendingSec = origSec, cd_frame = False, cd_drop = None\<rparr>, s))
           | _ \<Rightarrow> (None, s))))"

definition drag_target :: "clip_drag \<Rightarrow> pointer_move \<Rightarrow> jsnum js_result" where
  "drag_target g mv =
     (let sec = js_max (js_int 0) (js_add (cd_origSec g) (js_div (js_sub (mv_x mv) (cd_startX g)) (mv_pps mv)))
      in if mv_alt mv then Inr sec
         else js_bind (snap_target (mv_pps mv) (cd_doc g) (cd_clip g) (cd_edges g) sec)
                (\<lambda>snapped. Inr (js_max (js_int 0) snapped)))"

text \<open>The track to drop on: the one under the pointer, when it is another one and no lot is dragged.\<close>

definition drop_target :: "clip_drag \<Rightarrow> pointer_move \<Rightarrow> string option" where
  "drop_target g mv =
     (case (if cd_lot g \<noteq> [] then None else mv_lane mv) of
        Some t \<Rightarrow> if t \<noteq> [] \<and> t \<noteq> cd_trackId g then Some t else None
      | None \<Rightarrow> None)"

definition near :: "jsnum \<Rightarrow> jsnum \<Rightarrow> bool" where
  "near a b \<longleftrightarrow> js_lt (js_abs (js_sub a b)) (js_int 3)"

definition open_group :: "bool \<Rightarrow> 'd editor \<Rightarrow> 'd editor" where
  "open_group moved s = (if moved then s else s\<lparr>ed_project := beginUndoGroup (ed_project s)\<rparr>)"

definition drag_move :: "pointer_move \<Rightarrow> clip_drag \<times> 'd editor \<Rightarrow> clip_drag \<times> 'd editor" where
  "drag_move mv = (\<lambda>(g, s).
     if \<not> cd_moved g \<and> near (mv_x mv) (cd_startX g) \<and> near (mv_y mv) (cd_startY g) then (g, s)
     else
       (case drag_target g mv of
          Inl e \<Rightarrow> (g\<lparr>cd_moved := True\<rparr>, open_group (cd_moved g) s)
        | Inr sec \<Rightarrow>
            (g\<lparr>cd_moved := True, cd_pendingSec := sec, cd_drop := drop_target g mv, cd_frame := True\<rparr>,
             open_group (cd_moved g) s)))"

definition write_start :: "'d automerge \<Rightarrow> string \<Rightarrow> string \<Rightarrow> jsnum \<Rightarrow> 'd editor statement" where
  "write_start A trackId clipId sample = mutate (perform_result A (setClipStart trackId clipId sample))"

definition writeLot :: "'d automerge \<Rightarrow> clip_drag \<Rightarrow> jsnum \<Rightarrow> 'd editor statement" where
  "writeLot A g sec =
     (let delta = js_sub sec (cd_origSec g)
      in sequence_of (map (\<lambda>(t, c, orig).
           write_start A t c (js_mul (js_max (js_int 0) (js_add orig delta)) (cd_sr g))) (cd_lot g)))"

text \<open>The clip and the rest of its lot, at a place.\<close>

definition write_drag :: "'d automerge \<Rightarrow> clip_drag \<Rightarrow> jsnum \<Rightarrow> 'd editor statement" where
  "write_drag A g sec =
     then_do (write_start A (cd_trackId g) (cd_clipId g) (js_mul sec (cd_sr g))) (writeLot A g sec)"

definition drag_frame ::
  "'d automerge \<Rightarrow> clip_drag \<times> 'd editor \<Rightarrow> client_call list \<times> clip_drag \<times> 'd editor" where
  "drag_frame A = (\<lambda>(g, s).
     if \<not> cd_frame g then ([], g, s)
     else (case then_do (write_drag A g (cd_pendingSec g)) send_changes s of
             (cs, s', e) \<Rightarrow> (cs, g\<lparr>cd_frame := False\<rparr>, s')))"

definition drag_up :: "'d automerge \<Rightarrow> bool \<Rightarrow> clip_drag \<Rightarrow> 'd editor \<Rightarrow> client_call list \<times> 'd editor" where
  "drag_up A armed g s =
     (if cd_moved g
      then
        (case sequence_of
            [case cd_drop g of
               Some toTrack \<Rightarrow> mutate (moveClipToTrack A (cd_trackId g) (cd_clipId g) toTrack
                 (Some (js_mul (cd_pendingSec g) (cd_sr g))))
             | None \<Rightarrow> write_drag A g (cd_pendingSec g),
             on_project endUndoGroup, send_changes] s of
           (cs, s', e) \<Rightarrow> (cs, s'))
      else if armed then ([], s)
      else if \<not> cd_adding g
      then ([], s\<lparr>ed_selection := selectClip (cd_clipId g) (cd_trackId g) False (ed_selection s)\<rparr>)
      else if cd_wasSelected g
      then ([], s\<lparr>ed_selection := selectClip (cd_clipId g) (cd_trackId g) True (ed_selection s)\<rparr>)
      else ([], s))"

definition drag_escape :: "'d automerge \<Rightarrow> clip_drag \<Rightarrow> 'd editor \<Rightarrow> client_call list \<times> 'd editor" where
  "drag_escape A g s =
     (if cd_moved g
      then (case sequence_of [write_drag A g (cd_origSec g), on_project endUndoGroup, send_changes] s of
              (cs, s', e) \<Rightarrow> (cs, s'))
      else ([], s))"

text \<open>A gesture between its press and its end: moves of the pointer and animation frames.\<close>

datatype 'm gesture_event = Moved 'm | Frame

fun gesture_run ::
  "('m \<Rightarrow> 's \<Rightarrow> 's) \<Rightarrow> ('s \<Rightarrow> client_call list \<times> 's) \<Rightarrow> 'm gesture_event list \<Rightarrow> 's \<Rightarrow> client_call list \<times> 's" where
  "gesture_run move frame [] gs = ([], gs)"
| "gesture_run move frame (Moved m # evs) gs = gesture_run move frame evs (move m gs)"
| "gesture_run move frame (Frame # evs) gs =
     (case frame gs of (cs, gs') \<Rightarrow> (case gesture_run move frame evs gs' of (cs', gs'') \<Rightarrow> (cs @ cs', gs'')))"

section \<open>Resize\<close>

record seconds_span =
  sp_start :: jsnum
  sp_length :: jsnum
  sp_offset :: jsnum

record clip_resize =
  cz_trackId :: string
  cz_clipId :: string
  cz_right :: bool
  cz_doc :: project
  cz_sr :: jsnum
  cz_clip :: clip
  cz_edges :: "jsnum list"
  cz_startX :: jsnum
  cz_adding :: bool
  cz_orig :: seconds_span
  cz_pending :: seconds_span
  cz_moved :: bool
  cz_frame :: bool

definition MIN_LEN :: "jsnum \<Rightarrow> jsnum" where
  "MIN_LEN sr = js_div (js_int 1024) sr"

definition beginClipResize ::
  "'d automerge \<Rightarrow> string \<Rightarrow> string \<Rightarrow> bool \<Rightarrow> jsnum \<Rightarrow> bool \<Rightarrow> 'd editor \<Rightarrow> clip_resize option" where
  "beginClipResize A trackId clipId right x adding s =
     (let doc = getDocument A (ed_project s);
          sr = doc_rate doc
      in case find_track trackId doc of
           None \<Rightarrow> None
         | Some track \<Rightarrow>
         (case List.find (\<lambda>c. c_id c = clipId) (t_clips track) of
            None \<Rightarrow> None
          | Some clip \<Rightarrow>
          (case (clip_edges doc clipId (t_clips track), clipStartSamples clip doc, clipLengthSamples clip doc) of
             (Inr edges, Inr start, Inr len) \<Rightarrow>
               (let orig = \<lparr>sp_start = js_div start sr, sp_length = js_div len sr,
                           sp_offset = js_div (or_else (c_offsetSamples clip) NaN) sr\<rparr>
                in Some \<lparr>cz_trackId = trackId, cz_clipId = clipId, cz_right = right, cz_doc = doc, cz_sr = sr,
                     cz_clip = clip, cz_edges = edges, cz_startX = x, cz_adding = adding, cz_orig = orig,
                     cz_pending = orig, cz_moved = False, cz_frame = False\<rparr>)
           | _ \<Rightarrow> None)))"

definition snapSec :: "clip_resize \<Rightarrow> pointer_move \<Rightarrow> jsnum \<Rightarrow> jsnum js_result" where
  "snapSec g mv sec =
     (if mv_alt mv then Inr sec else snap_target (mv_pps mv) (cz_doc g) (cz_clip g) (cz_edges g) sec)"

definition resize_target :: "clip_resize \<Rightarrow> pointer_move \<Rightarrow> seconds_span js_result" where
  "resize_target g mv =
     (let orig = cz_orig g;
          dsec = js_div (js_sub (mv_x mv) (cz_startX g)) (mv_pps mv)
      in if cz_right g
         then js_bind (snapSec g mv (js_add (js_add (sp_start orig) (sp_length orig)) dsec)) (\<lambda>endSec.
           Inr ((cz_pending g)\<lparr>sp_length := js_max (MIN_LEN (cz_sr g)) (js_sub endSec (sp_start orig))\<rparr>))
         else js_bind (snapSec g mv (js_add (sp_start orig) dsec)) (\<lambda>snapped.
           let minStart = js_sub (sp_start orig) (sp_offset orig);
               maxStart = js_sub (js_add (sp_start orig) (sp_length orig)) (MIN_LEN (cz_sr g));
               newStart = js_min maxStart (js_max (js_int 0) (js_max minStart snapped));
               d = js_sub newStart (sp_start orig)
           in Inr \<lparr>sp_start = newStart, sp_length = js_sub (sp_length orig) d, sp_offset = js_add (sp_offset orig) d\<rparr>))"

definition resize_move :: "pointer_move \<Rightarrow> clip_resize \<times> 'd editor \<Rightarrow> clip_resize \<times> 'd editor" where
  "resize_move mv = (\<lambda>(g, s).
     if \<not> cz_moved g \<and> near (mv_x mv) (cz_startX g) then (g, s)
     else
       (case resize_target g mv of
          Inl e \<Rightarrow> (g\<lparr>cz_moved := True\<rparr>, open_group (cz_moved g) s)
        | Inr p \<Rightarrow> (g\<lparr>cz_moved := True, cz_pending := p, cz_frame := True\<rparr>, open_group (cz_moved g) s)))"

definition pending_bounds :: "clip_resize \<Rightarrow> clip_bounds" where
  "pending_bounds g =
     \<lparr>b_startSample = js_mul (sp_start (cz_pending g)) (cz_sr g),
      b_lengthSamples = js_mul (sp_length (cz_pending g)) (cz_sr g),
      b_offsetSamples = js_mul (sp_offset (cz_pending g)) (cz_sr g)\<rparr>"

definition flushBounds :: "'d automerge \<Rightarrow> clip_resize \<Rightarrow> 'd editor statement" where
  "flushBounds A g =
     then_do (mutate (perform_result A (setClipBounds (cz_trackId g) (cz_clipId g) (pending_bounds g)))) send_changes"

definition resize_frame ::
  "'d automerge \<Rightarrow> clip_resize \<times> 'd editor \<Rightarrow> client_call list \<times> clip_resize \<times> 'd editor" where
  "resize_frame A = (\<lambda>(g, s).
     if \<not> cz_frame g then ([], g, s)
     else (case flushBounds A g s of (cs, s', e) \<Rightarrow> (cs, g\<lparr>cz_frame := False\<rparr>, s')))"

definition resize_up :: "'d automerge \<Rightarrow> clip_resize \<Rightarrow> 'd editor \<Rightarrow> client_call list \<times> 'd editor" where
  "resize_up A g s =
     (if cz_moved g
      then (case then_do (flushBounds A g) (on_project endUndoGroup) s of (cs, s', e) \<Rightarrow> (cs, s'))
      else ([], s\<lparr>ed_selection := selectClip (cz_clipId g) (cz_trackId g) (cz_adding g) (ed_selection s)\<rparr>))"

section \<open>Fades\<close>

record clip_fade =
  cf_trackId :: string
  cf_clipId :: string
  cf_in :: bool
  cf_sr :: jsnum
  cf_half :: jsnum
  cf_origIn :: jsnum
  cf_origOut :: jsnum
  cf_startX :: jsnum
  cf_adding :: bool
  cf_pendingIn :: jsnum
  cf_pendingOut :: jsnum
  cf_moved :: bool
  cf_frame :: bool

definition beginFadeDrag ::
  "'d automerge \<Rightarrow> string \<Rightarrow> string \<Rightarrow> bool \<Rightarrow> jsnum \<Rightarrow> bool \<Rightarrow> 'd editor \<Rightarrow> clip_fade option" where
  "beginFadeDrag A trackId clipId side_in x adding s =
     (let doc = getDocument A (ed_project s) in
      case find_clip trackId clipId doc of
        None \<Rightarrow> None
      | Some clip \<Rightarrow>
      (case clipLengthSamples clip doc of
         Inl e \<Rightarrow> None
       | Inr len \<Rightarrow>
           (let origIn = or_else (c_fadeInSamples clip) (js_int 0);
                origOut = or_else (c_fadeOutSamples clip) (js_int 0)
            in Some \<lparr>cf_trackId = trackId, cf_clipId = clipId, cf_in = side_in, cf_sr = doc_rate doc,
                 cf_half = js_floor (js_div len (js_int 2)), cf_origIn = origIn, cf_origOut = origOut,
                 cf_startX = x, cf_adding = adding, cf_pendingIn = origIn, cf_pendingOut = origOut,
                 cf_moved = False, cf_frame = False\<rparr>)))"

definition fade_move :: "pointer_move \<Rightarrow> clip_fade \<times> 'd editor \<Rightarrow> clip_fade \<times> 'd editor" where
  "fade_move mv = (\<lambda>(g, s).
     if \<not> cf_moved g \<and> near (mv_x mv) (cf_startX g) then (g, s)
     else
       (let dSamples = js_mul (js_div (js_sub (mv_x mv) (cf_startX g)) (mv_pps mv)) (cf_sr g);
            bound = (\<lambda>v. js_min (cf_half g) (js_max (js_int 0) (js_round v)));
            g' = (if cf_in g then g\<lparr>cf_pendingIn := bound (js_add (cf_origIn g) dSamples)\<rparr>
                  else g\<lparr>cf_pendingOut := bound (js_sub (cf_origOut g) dSamples)\<rparr>)
        in (g'\<lparr>cf_moved := True, cf_frame := True\<rparr>, open_group (cf_moved g) s)))"

definition write_fades :: "'d automerge \<Rightarrow> clip_fade \<Rightarrow> 'd editor statement" where
  "write_fades A g =
     on_project (perform A (setClipFades (cf_trackId g) (cf_clipId g) (cf_pendingIn g) (cf_pendingOut g)))"

definition fade_frame ::
  "'d automerge \<Rightarrow> clip_fade \<times> 'd editor \<Rightarrow> client_call list \<times> clip_fade \<times> 'd editor" where
  "fade_frame A = (\<lambda>(g, s).
     if \<not> cf_frame g then ([], g, s)
     else (case then_do (write_fades A g) send_changes s of (cs, s', e) \<Rightarrow> (cs, g\<lparr>cf_frame := False\<rparr>, s')))"

definition fade_up :: "'d automerge \<Rightarrow> clip_fade \<Rightarrow> 'd editor \<Rightarrow> client_call list \<times> 'd editor" where
  "fade_up A g s =
     (if cf_moved g
      then (case sequence_of [write_fades A g, on_project endUndoGroup, send_changes] s of (cs, s', e) \<Rightarrow> (cs, s'))
      else ([], s\<lparr>ed_selection := selectClip (cf_clipId g) (cf_trackId g) (cf_adding g) (ed_selection s)\<rparr>))"

section \<open>Lasso\<close>

text \<open>The rectangle of a clip on the screen.\<close>

record clip_rect =
  rc_clipId :: string
  rc_left :: jsnum
  rc_right :: jsnum
  rc_top :: jsnum
  rc_bottom :: jsnum

record lasso =
  la_x0 :: jsnum
  la_y0 :: jsnum
  la_adding :: bool
  la_moved :: bool
  la_lastX :: "jsnum option"

definition beginClipLasso :: "jsnum \<Rightarrow> jsnum \<Rightarrow> bool \<Rightarrow> lasso" where
  "beginClipLasso x y adding =
     \<lparr>la_x0 = x, la_y0 = y, la_adding = adding, la_moved = False, la_lastX = None\<rparr>"

definition lasso_hits :: "lasso \<Rightarrow> jsnum \<Rightarrow> jsnum \<Rightarrow> clip_rect list \<Rightarrow> string list" where
  "lasso_hits g x y rects =
     (let x1 = js_min (la_x0 g) x; x2 = js_max (la_x0 g) x;
          y1 = js_min (la_y0 g) y; y2 = js_max (la_y0 g) y
      in map rc_clipId (filter (\<lambda>r. js_le x1 (rc_right r) \<and> js_le (rc_left r) x2 \<and>
           js_le y1 (rc_bottom r) \<and> js_le (rc_top r) y2) rects))"

definition lasso_move :: "jsnum \<Rightarrow> jsnum \<Rightarrow> clip_rect list \<Rightarrow> lasso \<times> selection \<Rightarrow> lasso \<times> selection" where
  "lasso_move x y rects = (\<lambda>(g, sel).
     if \<not> la_moved g \<and> near x (la_x0 g) \<and> near y (la_y0 g) then (g, sel)
     else (g\<lparr>la_moved := True, la_lastX := Some x\<rparr>,
           setClipSelection (lasso_hits g x y rects) (la_adding g) sel))"

text \<open>The swept span, snapped outwards; \<open>lane\<close> is the left edge of the first lane of the page, if there is one.\<close>

definition lasso_up :: "jsnum \<Rightarrow> jsnum option \<Rightarrow> project option \<Rightarrow> lasso \<Rightarrow> selection \<Rightarrow> selection" where
  "lasso_up pps lane doc g sel =
     (if \<not> la_moved g then sel
      else
        (let (picked, sel) = selectedClips doc sel;
             sel = (case picked of (t, c) # xs \<Rightarrow> sel\<lparr>se_trackId := Some t\<rparr> | [] \<Rightarrow> sel)
         in case (lane, la_lastX g) of
              (Some left, Some lastX) \<Rightarrow>
                (let step = snapStep pps;
                     s1 = js_div (js_max (js_int 0) (js_sub (js_min (la_x0 g) lastX) left)) pps;
                     s2 = js_div (js_max (js_int 0) (js_sub (js_max (la_x0 g) lastX) left)) pps
                 in setTimeSelection (js_mul (js_floor (js_div s1 step)) step) (js_mul (js_ceil (js_div s2 step)) step) sel)
            | _ \<Rightarrow> sel))"

section \<open>The contract of a coalesced gesture\<close>

lemma on_project_simp [simp]: "on_project f s = ([], s\<lparr>ed_project := f (ed_project s)\<rparr>, None)"
  by (simp add: on_project_def mutate_def)

lemma send_changes_project [simp]:
  "fst (snd (send_changes s)) = s\<lparr>ed_project := snd (sendLastChange (ed_project s))\<rparr>"
  "snd (snd (send_changes s)) = None"
  by (simp_all add: send_changes_def split: prod.splits)

text \<open>
  The moves open the group on the first real one and touch nothing else of the project; a frame
  writes once, then sends; \<open>good\<close> is what the handlers keep of the gesture's variables.
\<close>

locale clip_gesture = coalesced op
  for op :: "'p \<Rightarrow> inverse_op" +
  fixes A :: "'d automerge"
    and good :: "'g \<Rightarrow> bool"
    and moved :: "'g \<Rightarrow> bool"
    and move :: "'m \<Rightarrow> 'g \<times> 'd editor \<Rightarrow> 'g \<times> 'd editor"
    and frame :: "'g \<times> 'd editor \<Rightarrow> client_call list \<times> 'g \<times> 'd editor"
  assumes move_step: "good g \<Longrightarrow> move m (g, s) = (g', s') \<Longrightarrow>
      good g' \<and> (s' = s \<and> g' = g \<or> moved g' \<and> s' = open_group (moved g) s)"
    and frame_step: "good g \<Longrightarrow> frame (g, s) = (cs, g', s') \<Longrightarrow>
      good g' \<and> moved g' = moved g \<and> (ed_project s' = ed_project s \<or> moved g \<and>
        (\<exists>q. getDocument A (ed_project s') = getDocument A (do_op A (op q) (ed_project s)) \<and>
             ps_journal (ed_project s') = ps_journal (do_op A (op q) (ed_project s))))"
begin

lemma in_gesture_cong:
  "getDocument A p = getDocument A p' \<Longrightarrow> ps_journal p = ps_journal p' \<Longrightarrow>
   in_gesture A op s0 p = in_gesture A op s0 p'"
  by (simp add: in_gesture_def)

lemma run_keeps:
  assumes "change_law A" and "idle p0"
  shows "good (fst gs) \<Longrightarrow>
    (if moved (fst gs) then in_gesture A op p0 (ed_project (snd gs)) else ed_project (snd gs) = p0) \<Longrightarrow>
    good (fst (snd (gesture_run move frame evs gs))) \<and>
    (if moved (fst (snd (gesture_run move frame evs gs)))
     then in_gesture A op p0 (ed_project (snd (snd (gesture_run move frame evs gs))))
     else ed_project (snd (snd (gesture_run move frame evs gs))) = p0)"
proof (induction evs arbitrary: gs)
  case (Cons ev evs)
  obtain g s where gs: "gs = (g, s)" by (cases gs)
  show ?case
  proof (cases ev)
    case (Moved m)
    obtain g' s' where m: "move m (g, s) = (g', s')" by (cases "move m (g, s)")
    have "good g' \<and> (if moved g' then in_gesture A op p0 (ed_project s') else ed_project s' = p0)"
      using move_step [OF _ m] Cons.prems by (auto simp: gs open_group_def in_gesture_begin split: if_splits)
    then show ?thesis using Cons.IH [of "(g', s')"] by (simp add: Moved gs m)
  next
    case Frame
    obtain cs g' s' where m: "frame (g, s) = (cs, g', s')" by (cases "frame (g, s)") auto
    note st = frame_step [OF _ m]
    have "good g' \<and> (if moved g' then in_gesture A op p0 (ed_project s') else ed_project s' = p0)"
    proof (cases "ed_project s' = ed_project s")
      case True
      then show ?thesis using st Cons.prems by (auto simp: gs split: if_splits)
    next
      case False
      then obtain q where q: "moved g" "good g'" "moved g'"
          "getDocument A (ed_project s') = getDocument A (do_op A (op q) (ed_project s))"
          "ps_journal (ed_project s') = ps_journal (do_op A (op q) (ed_project s))"
        using st Cons.prems by (auto simp: gs)
      have "in_gesture A op p0 (do_op A (op q) (ed_project s))"
        using write_keeps [OF assms] Cons.prems(2) q(1) by (auto simp: gs split: if_splits)
      then show ?thesis using q in_gesture_cong [OF q(4,5)] by simp
    qed
    then show ?thesis using Cons.IH [of "(g', s')"] by (simp add: Frame gs m split_beta)
  qed
qed simp

text \<open>From the press to the release, which writes a last time and closes the group.\<close>

lemma whole_gesture:
  assumes "change_law A" and "idle (ed_project s)" and "undoDepth (ps_journal (ed_project s)) < 100"
    and "good g" and "\<not> moved g" and "gesture_run move frame evs (g, s) = (cs, g', s')" and "moved g'"
    and "doc_step (op q) (getDocument A (ed_project s)) = Some (iop, e)" and "reversible iop e"
    and "\<exists>iop'. doc_step iop e = Some (iop', getDocument A (ed_project s))"
    and "ps_doc p = ps_doc (do_op A (op q) (ed_project s'))"
    and "ps_journal p = endGroup (ps_journal (do_op A (op q) (ed_project s')))"
  shows "getDocument A p = e \<and> idle p \<and>
    undoDepth (ps_journal p) = undoDepth (ps_journal (ed_project s)) + 1 \<and>
    getDocument A (fst (undo A us p)) = getDocument A (ed_project s) \<and>
    undoDepth (ps_journal (fst (undo A us p))) = undoDepth (ps_journal (ed_project s))"
proof -
  have "in_gesture A op (ed_project s) (ed_project s')"
    using run_keeps [OF assms(1,2), of "(g, s)" evs] assms(4-7) by simp
  from gesture_amounts [OF assms(1,2) this assms(3,8-10), of p us] assms(11,12)
  show ?thesis by (simp add: endUndoGroup_def on_journal_def)
qed

text \<open>The last write goes through if it would have at the press.\<close>

lemma last_write_ok:
  assumes "change_law A" and "idle (ed_project s)"
    and "good g" and "\<not> moved g" and "gesture_run move frame evs (g, s) = (cs, g', s')" and "moved g'"
    and "doc_step (op q) (getDocument A (ed_project s)) \<noteq> None"
  shows "doc_step (op q) (getDocument A (ed_project s')) \<noteq> None"
proof -
  have "in_gesture A op (ed_project s) (ed_project s')"
    using run_keeps [OF assms(1,2), of "(g, s)" evs] assms(3-6) by simp
  then show ?thesis
    using absorb [of _ "getDocument A (ed_project s)" _ "getDocument A (ed_project s')" q] assms(7)
    unfolding in_gesture_def by force
qed

end

lemma perform_result_ok:
  "doc_step op (getDocument A p) \<noteq> None \<Longrightarrow> perform_result A (replay_op [] op) p = (do_op A op p, None)"
  by (auto simp: doc_step_def do_op_def perform_result_def split: sum.splits)

lemma perform_result_op: "fst (perform_result A (replay_op [] op) p) = do_op A op p"
  by (simp add: do_op_def)

section \<open>The three gestures keep the contract\<close>

lemma replay_writes:
  "replay_op [] (SetClipStart t c x) = setClipStart t c x"
  "replay_op [] (SetClipBounds t c b) = setClipBounds t c b"
  by (simp_all add: fun_eq_iff)

lemma perform_writes:
  "fst (perform_result A (setClipStart t c x) p) = do_op A (SetClipStart t c x) p"
  "fst (perform_result A (setClipBounds t c b) p) = do_op A (SetClipBounds t c b) p"
  "perform A (setClipFades t c fi fo) p = do_op A (SetClipFades t c fi fo) p"
  by (simp_all add: do_op_def replay_writes perform_result_def perform_def)

lemma write_start_effect:
  "write_start A t c x s = ([], s\<lparr>ed_project := do_op A (SetClipStart t c x) (ed_project s)\<rparr>,
     snd (perform_result A (setClipStart t c x) (ed_project s)))"
  by (simp add: write_start_def mutate_def perform_writes [symmetric] split: prod.splits)

lemma write_drag_alone:
  "cd_lot g = [] \<Longrightarrow> write_drag A g sec = write_start A (cd_trackId g) (cd_clipId g) (js_mul sec (cd_sr g))"
  by (simp add: write_drag_def writeLot_def sequence_of_def then_do_def fun_eq_iff write_start_effect split: option.splits)

text \<open>A write followed by a send.\<close>

lemma write_send:
  assumes "w s = ([], s\<lparr>ed_project := p\<rparr>, r)"
  shows "getDocument A (ed_project (fst (snd (then_do w send_changes s)))) = getDocument A p \<and>
    ps_journal (ed_project (fst (snd (then_do w send_changes s)))) = ps_journal p"
  using assms by (cases r) (simp_all add: then_do_def split_beta)

interpretation drag: clip_gesture "SetClipStart t c" A
  "\<lambda>g. cd_trackId g = t \<and> cd_clipId g = c \<and> cd_lot g = [] \<and> cd_sr g = r \<and> cd_origSec g = orig \<and> (cd_frame g \<longrightarrow> cd_moved g)"
  cd_moved drag_move "drag_frame A" for t c A r orig
proof unfold_locales
  fix m g and s :: "'a editor" and g' s'
  assume "cd_trackId g = t \<and> cd_clipId g = c \<and> cd_lot g = [] \<and> cd_sr g = r \<and> cd_origSec g = orig \<and> (cd_frame g \<longrightarrow> cd_moved g)"
    and "drag_move m (g, s) = (g', s')"
  then show "(cd_trackId g' = t \<and> cd_clipId g' = c \<and> cd_lot g' = [] \<and> cd_sr g' = r \<and> cd_origSec g' = orig \<and> (cd_frame g' \<longrightarrow> cd_moved g')) \<and>
      (s' = s \<and> g' = g \<or> cd_moved g' \<and> s' = open_group (cd_moved g) s)"
    by (auto simp: drag_move_def split: if_splits sum.splits)
next
  fix g and s :: "'a editor" and cs g' s'
  assume g: "cd_trackId g = t \<and> cd_clipId g = c \<and> cd_lot g = [] \<and> cd_sr g = r \<and> cd_origSec g = orig \<and> (cd_frame g \<longrightarrow> cd_moved g)"
    and f: "drag_frame A (g, s) = (cs, g', s')"
  have w: "write_drag A g (cd_pendingSec g) s = ([], s\<lparr>ed_project := do_op A (SetClipStart t c (js_mul (cd_pendingSec g) r)) (ed_project s)\<rparr>,
      snd (perform_result A (setClipStart t c (js_mul (cd_pendingSec g) r)) (ed_project s)))"
    using g by (simp add: write_drag_alone write_start_effect)
  show "(cd_trackId g' = t \<and> cd_clipId g' = c \<and> cd_lot g' = [] \<and> cd_sr g' = r \<and> cd_origSec g' = orig \<and> (cd_frame g' \<longrightarrow> cd_moved g')) \<and>
      cd_moved g' = cd_moved g \<and> (ed_project s' = ed_project s \<or> cd_moved g \<and>
        (\<exists>q. getDocument A (ed_project s') = getDocument A (do_op A (SetClipStart t c q) (ed_project s)) \<and>
             ps_journal (ed_project s') = ps_journal (do_op A (SetClipStart t c q) (ed_project s))))"
    using g f write_send [of "write_drag A g (cd_pendingSec g)", OF w, of A]
    by (force simp: drag_frame_def split: if_splits prod.splits)
qed

interpretation resize: clip_gesture "SetClipBounds t c" A
  "\<lambda>g. cz_trackId g = t \<and> cz_clipId g = c \<and> (cz_frame g \<longrightarrow> cz_moved g)"
  cz_moved resize_move "resize_frame A" for t c A
proof unfold_locales
  fix m g and s :: "'a editor" and g' s'
  assume "cz_trackId g = t \<and> cz_clipId g = c \<and> (cz_frame g \<longrightarrow> cz_moved g)" and "resize_move m (g, s) = (g', s')"
  then show "(cz_trackId g' = t \<and> cz_clipId g' = c \<and> (cz_frame g' \<longrightarrow> cz_moved g')) \<and>
      (s' = s \<and> g' = g \<or> cz_moved g' \<and> s' = open_group (cz_moved g) s)"
    by (auto simp: resize_move_def split: if_splits sum.splits)
next
  fix g and s :: "'a editor" and cs g' s'
  assume g: "cz_trackId g = t \<and> cz_clipId g = c \<and> (cz_frame g \<longrightarrow> cz_moved g)"
    and f: "resize_frame A (g, s) = (cs, g', s')"
  have w: "mutate (perform_result A (setClipBounds t c (pending_bounds g))) s =
      ([], s\<lparr>ed_project := do_op A (SetClipBounds t c (pending_bounds g)) (ed_project s)\<rparr>,
       snd (perform_result A (setClipBounds t c (pending_bounds g)) (ed_project s)))"
    by (simp add: mutate_def perform_writes [symmetric] split: prod.splits)
  show "(cz_trackId g' = t \<and> cz_clipId g' = c \<and> (cz_frame g' \<longrightarrow> cz_moved g')) \<and>
      cz_moved g' = cz_moved g \<and> (ed_project s' = ed_project s \<or> cz_moved g \<and>
        (\<exists>q. getDocument A (ed_project s') = getDocument A (do_op A (SetClipBounds t c q) (ed_project s)) \<and>
             ps_journal (ed_project s') = ps_journal (do_op A (SetClipBounds t c q) (ed_project s))))"
    using g f write_send [of "mutate (perform_result A (setClipBounds t c (pending_bounds g)))", OF w, of A]
    by (force simp: resize_frame_def flushBounds_def split: if_splits prod.splits)
qed

interpretation fade: clip_gesture "\<lambda>p. SetClipFades t c (fst p) (snd p)" A
  "\<lambda>g. cf_trackId g = t \<and> cf_clipId g = c \<and> (cf_frame g \<longrightarrow> cf_moved g)"
  cf_moved fade_move "fade_frame A" for t c A
proof unfold_locales
  fix m g and s :: "'a editor" and g' s'
  assume "cf_trackId g = t \<and> cf_clipId g = c \<and> (cf_frame g \<longrightarrow> cf_moved g)" and "fade_move m (g, s) = (g', s')"
  then show "(cf_trackId g' = t \<and> cf_clipId g' = c \<and> (cf_frame g' \<longrightarrow> cf_moved g')) \<and>
      (s' = s \<and> g' = g \<or> cf_moved g' \<and> s' = open_group (cf_moved g) s)"
    by (auto simp: fade_move_def Let_def split: if_splits)
next
  fix g and s :: "'a editor" and cs g' s'
  assume g: "cf_trackId g = t \<and> cf_clipId g = c \<and> (cf_frame g \<longrightarrow> cf_moved g)"
    and f: "fade_frame A (g, s) = (cs, g', s')"
  let ?q = "(cf_pendingIn g, cf_pendingOut g)"
  have w: "write_fades A g s = ([], s\<lparr>ed_project := do_op A (SetClipFades t c (fst ?q) (snd ?q)) (ed_project s)\<rparr>, None)"
    using g by (simp add: write_fades_def perform_writes)
  show "(cf_trackId g' = t \<and> cf_clipId g' = c \<and> (cf_frame g' \<longrightarrow> cf_moved g')) \<and>
      cf_moved g' = cf_moved g \<and> (ed_project s' = ed_project s \<or> cf_moved g \<and>
        (\<exists>q. getDocument A (ed_project s') = getDocument A (do_op A (SetClipFades t c (fst q) (snd q)) (ed_project s)) \<and>
             ps_journal (ed_project s') = ps_journal (do_op A (SetClipFades t c (fst q) (snd q)) (ed_project s))))"
    using g f write_send [of "write_fades A g", OF w, of A]
    by (force simp: fade_frame_def split: if_splits prod.splits)
qed

section \<open>Releases\<close>

lemma drag_up_writes:
  assumes "cd_moved g" and "cd_drop g = None" and "cd_lot g = []"
    and "op = SetClipStart (cd_trackId g) (cd_clipId g) (js_mul (cd_pendingSec g) (cd_sr g))"
    and "doc_step op (getDocument A (ed_project s)) \<noteq> None"
  shows "ed_project (snd (drag_up A armed g s)) = snd (sendLastChange (endUndoGroup (do_op A op (ed_project s))))"
  using assms perform_result_ok [OF assms(5)]
  by (simp add: drag_up_def write_drag_alone write_start_def mutate_def sequence_of_def then_do_def replay_writes
      on_project_def send_changes_def split_beta)

lemma drag_escape_writes:
  assumes "cd_moved g" and "cd_lot g = []"
    and "op = SetClipStart (cd_trackId g) (cd_clipId g) (js_mul (cd_origSec g) (cd_sr g))"
    and "doc_step op (getDocument A (ed_project s)) \<noteq> None"
  shows "ed_project (snd (drag_escape A g s)) = snd (sendLastChange (endUndoGroup (do_op A op (ed_project s))))"
  using assms perform_result_ok [OF assms(4)]
  by (simp add: drag_escape_def write_drag_alone write_start_def mutate_def sequence_of_def then_do_def replay_writes
      on_project_def send_changes_def split_beta)

lemma resize_up_writes:
  assumes "cz_moved g" and "op = SetClipBounds (cz_trackId g) (cz_clipId g) (pending_bounds g)"
    and "doc_step op (getDocument A (ed_project s)) \<noteq> None"
  shows "ed_project (snd (resize_up A g s)) = endUndoGroup (snd (sendLastChange (do_op A op (ed_project s))))"
  using assms perform_result_ok [OF assms(3)]
  by (simp add: resize_up_def flushBounds_def mutate_def then_do_def replay_writes on_project_def send_changes_def
      split_beta)

lemma fade_up_writes:
  assumes "cf_moved g"
  shows "ed_project (snd (fade_up A g s)) = snd (sendLastChange (endUndoGroup
    (do_op A (SetClipFades (cf_trackId g) (cf_clipId g) (cf_pendingIn g) (cf_pendingOut g)) (ed_project s))))"
  using assms
  by (simp add: fade_up_def write_fades_def perform_writes sequence_of_def then_do_def on_project_def mutate_def
      send_changes_def split_beta)

lemma closed_group:
  "ps_doc (snd (sendLastChange (endUndoGroup p))) = ps_doc p"
  "ps_journal (snd (sendLastChange (endUndoGroup p))) = endGroup (ps_journal p)"
  "ps_doc (endUndoGroup (snd (sendLastChange p))) = ps_doc p"
  "ps_journal (endUndoGroup (snd (sendLastChange p))) = endGroup (ps_journal p)"
  "ps_journal (endUndoGroup p) = endGroup (ps_journal p)"
  by (simp_all add: endUndoGroup_def on_journal_def sendLastChange_all)

text \<open>The clip can be put at sample \<open>v\<close>, and what it is now can be written back.\<close>

definition clip_startable :: "string \<Rightarrow> string \<Rightarrow> jsnum \<Rightarrow> project \<Rightarrow> bool" where
  "clip_startable t c v d \<longleftrightarrow>
     (\<exists>cl. find_clip t c d = Some cl \<and>
        (if isMusicalClip cl
         then whole_timing (timingOf cl) \<and> v2_or False d \<and> (\<exists>st. targetTick d v = Inr st)
         else js_finite v \<and> (\<exists>s. c_startSample cl = Some s \<and> js_int_from 0 s)))"

lemma reversible_step:
  assumes "reversible op d"
  shows "\<exists>iop e iop'. doc_step op d = Some (iop, e) \<and> reversible iop e \<and> doc_step iop e = Some (iop', d)"
  by (rule edits.reverts [OF assms])

lemma targetTick_finite: "targetTick d v = Inr st \<Longrightarrow> js_finite st"
proof -
  have "js_finite (js_clamp (Fin 0) (js_int MAX_TICK) x)" if "x \<noteq> NaN" for x
    using that by (cases x) (auto simp: js_clamp_def js_max_def js_min_def)
  moreover have "js_round x \<noteq> NaN" if "js_finite x" for x using that by (cases x) auto
  ultimately show "targetTick d v = Inr st \<Longrightarrow> js_finite st"
    by (cases "sampleToTick d v") (auto simp: targetTick_def clampTick_def Let_def split: if_splits option.splits)
qed

lemma clip_startable_step:
  assumes "clip_startable t c v d"
  shows "\<exists>iop e iop'. doc_step (SetClipStart t c v) d = Some (iop, e) \<and> reversible iop e \<and> doc_step iop e = Some (iop', d)"
proof -
  obtain cl where cl: "find_clip t c d = Some cl" using assms by (auto simp: clip_startable_def)
  show ?thesis
  proof (cases "isMusicalClip cl")
    case True
    then obtain st where st: "targetTick d v = Inr st" "whole_timing (timingOf cl)" "v2_or False d"
      using assms cl by (auto simp: clip_startable_def)
    let ?ti = "(timingOf cl)\<lparr>ti_startTick := Some st\<rparr>"
    have "finite_timing ?ti"
      using st(2) targetTick_finite [OF st(1)] by (simp add: finite_timing_def whole_timing_def whole_finite)
    then have "reversible (SetClipTiming t c ?ti) d" using st cl by (auto simp: v2_or_def)
    from reversible_step [OF this] show ?thesis using True cl st(1) by (simp add: doc_step_SetClipStart)
  next
    case False
    then have "reversible (SetClipStart t c v) d" using assms cl by (auto simp: clip_startable_def)
    then show ?thesis by (rule reversible_step)
  qed
qed

section \<open>Properties\<close>

text \<open>From the press to just before the release.\<close>

definition drag_session ::
  "'d automerge \<Rightarrow> string \<Rightarrow> string \<Rightarrow> jsnum \<Rightarrow> jsnum \<Rightarrow> bool \<Rightarrow> pointer_move gesture_event list \<Rightarrow> 'd editor \<Rightarrow>
   (clip_drag \<times> 'd editor) option" where
  "drag_session A t c x y adding evs s =
     (case beginClipDrag A t c x y adding s of
        (None, s') \<Rightarrow> None
      | (Some g, s') \<Rightarrow> Some (snd (gesture_run drag_move (drag_frame A) evs (g, s'))))"

lemma doc_rate_finite: "js_finite (d_sampleRate d) \<Longrightarrow> \<exists>q. doc_rate d = Fin q \<and> q \<noteq> 0"
  by (cases "d_sampleRate d") (simp_all add: doc_rate_def js_or_def)

lemma beginClipDrag_facts:
  assumes "beginClipDrag A t c x y adding s0 = (Some g, s)"
  shows "ed_project s = ed_project s0 \<and> cd_trackId g = t \<and> cd_clipId g = c \<and> \<not> cd_moved g \<and> \<not> cd_frame g \<and>
    cd_sr g = doc_rate (getDocument A (ed_project s0)) \<and>
    (\<exists>cl start. find_clip t c (getDocument A (ed_project s0)) = Some cl \<and>
       clipStartSamples cl (getDocument A (ed_project s0)) = Inr start \<and>
       cd_origSec g = js_div start (doc_rate (getDocument A (ed_project s0))))"
  using assms
  by (auto simp: beginClipDrag_def find_clip_def Let_def split: option.splits sum.splits prod.splits)

lemma drag_move_lot [simp]: "cd_lot (fst (drag_move m gs)) = cd_lot (fst gs)"
  by (auto simp: drag_move_def split: prod.splits sum.splits)

lemma drag_frame_lot [simp]: "cd_lot (fst (snd (drag_frame A gs))) = cd_lot (fst gs)"
  by (auto simp: drag_frame_def split: prod.splits)

lemma drag_run_lot: "cd_lot (fst (snd (gesture_run drag_move (drag_frame A) evs gs))) = cd_lot (fst gs)"
proof (induction evs arbitrary: gs)
  case (Cons ev evs)
  then show ?case by (cases ev) (simp_all add: split_beta)
qed simp

lemma drag_session_run:
  assumes "drag_session A t c x y adding evs s0 = Some (g, s)" and "cd_lot g = []"
  obtains g0 s1 cs where "ed_project s1 = ed_project s0" and "\<not> cd_moved g0"
    and "gesture_run drag_move (drag_frame A) evs (g0, s1) = (cs, g, s)"
    and "cd_trackId g0 = t \<and> cd_clipId g0 = c \<and> cd_lot g0 = [] \<and> cd_sr g0 = cd_sr g0 \<and>
      cd_origSec g0 = cd_origSec g0 \<and> (cd_frame g0 \<longrightarrow> cd_moved g0)"
    and "cd_sr g0 = doc_rate (getDocument A (ed_project s0))"
    and "\<exists>cl start. find_clip t c (getDocument A (ed_project s0)) = Some cl \<and>
       clipStartSamples cl (getDocument A (ed_project s0)) = Inr start \<and>
       cd_origSec g0 = js_div start (doc_rate (getDocument A (ed_project s0)))"
proof -
  obtain g0 s1 where b: "beginClipDrag A t c x y adding s0 = (Some g0, s1)"
      "snd (gesture_run drag_move (drag_frame A) evs (g0, s1)) = (g, s)"
    using assms(1) by (auto simp: drag_session_def split: prod.splits option.splits)
  have "cd_lot g0 = []" using drag_run_lot [of A evs "(g0, s1)"] b(2) assms(2) by simp
  then show thesis
    using that [of s1 g0 "fst (gesture_run drag_move (drag_frame A) evs (g0, s1))"] b(2) beginClipDrag_facts [OF b(1)]
    by (simp add: prod_eq_iff)
qed

text \<open>C10. A drag is one undo entry: after any sequence of moves and animation frames that leaves the clip on its
  track, and the release, the document is what a single \<open>setClipStart\<close> with the last place would have
  made of it, the journal has exactly one entry more, and one undo gives the document before the
  press, for a clip of either time domain dragged on its own.\<close>

theorem drag_is_one_undo:
  assumes "change_law A" and "idle (ed_project s0)" and "undoDepth (ps_journal (ed_project s0)) < 100"
    and "drag_session A t c x y adding evs s0 = Some (g, s)"
    and "cd_moved g" and "cd_drop g = None" and "cd_lot g = []"
    and "clip_startable t c (js_mul (cd_pendingSec g) (cd_sr g)) (getDocument A (ed_project s0))"
    and "p = ed_project (snd (drag_up A armed g s))"
  shows "(\<exists>iop f. setClipStart t c (js_mul (cd_pendingSec g) (cd_sr g)) (getDocument A (ed_project s0)) = Inr (Some (iop, f)) \<and>
      getDocument A p = f (getDocument A (ed_project s0))) \<and>
    undoDepth (ps_journal p) = undoDepth (ps_journal (ed_project s0)) + 1 \<and>
    getDocument A (fst (undo A us p)) = getDocument A (ed_project s0)"
proof -
  let ?d = "getDocument A (ed_project s0)" and ?v = "js_mul (cd_pendingSec g) (cd_sr g)"
  obtain g0 s1 cs where r: "ed_project s1 = ed_project s0" "\<not> cd_moved g0"
      "gesture_run drag_move (drag_frame A) evs (g0, s1) = (cs, g, s)"
      "cd_trackId g0 = t \<and> cd_clipId g0 = c \<and> cd_lot g0 = [] \<and> cd_sr g0 = cd_sr g0 \<and>
        cd_origSec g0 = cd_origSec g0 \<and> (cd_frame g0 \<longrightarrow> cd_moved g0)"
    using drag_session_run [OF assms(4,7)] by metis
  obtain iop e iop' where st: "doc_step (SetClipStart t c ?v) ?d = Some (iop, e)" "reversible iop e"
      "doc_step iop e = Some (iop', ?d)"
    using clip_startable_step [OF assms(8)] by blast
  have ok: "doc_step (SetClipStart t c ?v) (getDocument A (ed_project s)) \<noteq> None"
    using drag.last_write_ok [OF assms(1) _ r(4,2,3) assms(5), of ?v] assms(2) r(1) st(1) by simp
  have kept: "cd_trackId g = t" "cd_clipId g = c"
    using drag.run_keeps [OF assms(1,2), where gs = "(g0, s1)" and evs = evs and t = t and c = c] r by simp_all
  have p: "p = snd (sendLastChange (endUndoGroup (do_op A (SetClipStart t c ?v) (ed_project s))))"
    using drag_up_writes [OF assms(5-7) refl, of A s armed] ok kept by (simp add: assms(9))
  have "getDocument A p = e \<and> idle p \<and> undoDepth (ps_journal p) = undoDepth (ps_journal (ed_project s1)) + 1 \<and>
      getDocument A (fst (undo A us p)) = getDocument A (ed_project s1) \<and>
      undoDepth (ps_journal (fst (undo A us p))) = undoDepth (ps_journal (ed_project s1))"
    by (rule drag.whole_gesture [OF assms(1) _ _ r(4,2,3) assms(5), of ?v iop e])
      (use assms(2,3) r(1) st p in \<open>simp_all add: closed_group\<close>)
  moreover have "\<exists>f. setClipStart t c ?v ?d = Inr (Some (iop, f)) \<and> e = f ?d"
    using st(1) by (auto simp: doc_step_def split: sum.splits option.splits)
  ultimately show ?thesis using r(1) by auto
qed

text \<open>C31. Escape takes a drag back: whatever the moves and frames wrote, an absolute clip dragged on its own is back
  where it was, the document is the one before the press, and the journal has one entry, inert, more.\<close>

theorem drag_escape_restores:
  assumes "change_law A" and "idle (ed_project s0)" and "undoDepth (ps_journal (ed_project s0)) < 100"
    and "drag_session A t c x y adding evs s0 = Some (g, s)" and "cd_moved g" and "cd_lot g = []"
    and "find_clip t c (getDocument A (ed_project s0)) = Some cl" and "\<not> isMusicalClip cl"
    and "c_startSample cl = Some k" and "js_int_from 0 k" and "js_finite (d_sampleRate (getDocument A (ed_project s0)))"
    and "p = ed_project (snd (drag_escape A g s))"
  shows "getDocument A p = getDocument A (ed_project s0) \<and>
    undoDepth (ps_journal p) = undoDepth (ps_journal (ed_project s0)) + 1 \<and>
    getDocument A (fst (undo A us p)) = getDocument A (ed_project s0)"
proof -
  let ?d = "getDocument A (ed_project s0)" and ?v = "js_mul (cd_origSec g) (cd_sr g)"
  obtain g0 s1 cs where r: "ed_project s1 = ed_project s0" "\<not> cd_moved g0"
      "gesture_run drag_move (drag_frame A) evs (g0, s1) = (cs, g, s)"
      "cd_trackId g0 = t \<and> cd_clipId g0 = c \<and> cd_lot g0 = [] \<and> cd_sr g0 = cd_sr g0 \<and>
        cd_origSec g0 = cd_origSec g0 \<and> (cd_frame g0 \<longrightarrow> cd_moved g0)"
      "cd_sr g0 = doc_rate ?d" "\<exists>cl start. find_clip t c ?d = Some cl \<and>
       clipStartSamples cl ?d = Inr start \<and> cd_origSec g0 = js_div start (doc_rate ?d)"
    using drag_session_run [OF assms(4,6)] by metis
  have kept: "cd_trackId g = t" "cd_clipId g = c" "cd_sr g = cd_sr g0" "cd_origSec g = cd_origSec g0"
    using drag.run_keeps [OF assms(1,2), where gs = "(g0, s1)" and evs = evs and t = t and c = c] r by simp_all
  obtain n where n: "k = js_int n" "0 \<le> n" using assms(10) by (rule js_int_fromE)
  obtain q where q: "doc_rate ?d = Fin q" "q \<noteq> 0"
    using doc_rate_finite [OF assms(11)] by blast
  have "clipStartSamples cl ?d = Inr k"
    using assms(8,9) by (cases "c_startTick cl") (simp_all add: isMusicalClip_def clipStartSamples_def)
  then have v: "?v = k" using r(5,6) kept q n assms(7) by simp
  have restored: "upd_clip t c (\<lambda>c. c\<lparr>c_startSample := Some (js_round_from (js_int 0) k)\<rparr>) ?d = ?d"
    using assms(9,10) by (intro clip.upd_same [OF assms(7)]) (simp add: js_round_from_whole)
  have "clip_startable t c ?v ?d"
    using assms(7-10) v by (auto simp: clip_startable_def js_int_from_finite)
  from clip_startable_step [OF this] obtain iop e iop' where
    st: "doc_step (SetClipStart t c ?v) ?d = Some (iop, e)" "reversible iop e" "doc_step iop e = Some (iop', ?d)"
    by blast
  have e: "e = ?d" using st(1) restored assms(7,8) v by (simp add: doc_step_SetClipStart)
  have ok: "doc_step (SetClipStart t c ?v) (getDocument A (ed_project s)) \<noteq> None"
    using drag.last_write_ok [OF assms(1) _ r(4,2,3) assms(5), of ?v] assms(2) r(1) st(1) by simp
  have p: "p = snd (sendLastChange (endUndoGroup (do_op A (SetClipStart t c ?v) (ed_project s))))"
    using drag_escape_writes [OF assms(5,6) refl, of A s] ok kept(1,2) by (simp add: assms(12))
  have "getDocument A p = e \<and> idle p \<and> undoDepth (ps_journal p) = undoDepth (ps_journal (ed_project s1)) + 1 \<and>
      getDocument A (fst (undo A us p)) = getDocument A (ed_project s1) \<and>
      undoDepth (ps_journal (fst (undo A us p))) = undoDepth (ps_journal (ed_project s1))"
    by (rule drag.whole_gesture [OF assms(1) _ _ r(4,2,3) assms(5), of ?v iop e])
      (use assms(2,3) r(1) st p in \<open>simp_all add: closed_group\<close>)
  then show ?thesis using r(1) e by simp
qed

text \<open>A document with one clip, one second into a track.\<close>

definition example_clip :: clip where
  "example_clip = \<lparr>c_id = ''c'', c_name = None, c_assetHash = ''h'', c_startSample = Some (js_int 48000),
     c_lengthSamples = Some (js_int 96000), c_offsetSamples = Some (js_int 0), c_fadeInSamples = None,
     c_fadeOutSamples = None, c_notes = None, c_sceneId = None, c_startTick = None, c_lengthTick = None\<rparr>"

definition example_doc :: project where
  "example_doc = (createEmptyDocument (js_int 48000))\<lparr>d_tracks := [example_track\<lparr>t_clips := [example_clip]\<rparr>]\<rparr>"

definition example_editor :: "project editor" where
  "example_editor = \<lparr>ed_project = \<lparr>ps_doc = example_doc, ps_pending = [], ps_journal = empty_journal\<rparr>,
     ed_selection = \<lparr>se_trackId = None, se_clipId = None, se_clipIds = [], se_time = None\<rparr>\<rparr>"

definition example_move :: "int \<Rightarrow> pointer_move" where
  "example_move x = \<lparr>mv_x = js_int x, mv_y = js_int 30, mv_pps = js_int 20, mv_alt = False, mv_lane = None\<rparr>"

definition example_drag :: "(clip_drag \<times> project editor) option" where
  "example_drag = drag_session local_automerge (t_id example_track) ''c'' (js_int 100) (js_int 30) False
     [Moved (example_move 130), Frame, Moved (example_move 141)] example_editor"

lemma example_drag_runs:
  "\<not> Option.is_none example_drag" "cd_moved (fst (the example_drag))"
  "Option.is_none (cd_drop (fst (the example_drag)))" "length (cd_lot (fst (the example_drag))) = 0"
  "cd_pendingSec (fst (the example_drag)) = Fin 3" "cd_sr (fst (the example_drag)) = Fin 48000"
  by code_simp+

lemma example_facts:
  "getDocument local_automerge (ed_project example_editor) = example_doc" "idle (ed_project example_editor)"
  "undoDepth (ps_journal (ed_project example_editor)) = 0"
  "find_clip (t_id example_track) ''c'' example_doc = Some example_clip" "\<not> isMusicalClip example_clip"
  by (simp_all add: getDocument_def local_automerge_def example_editor_def idle_def empty_journal_def undoDepth_def
      example_doc_def find_clip_def find_track_def example_clip_def isMusicalClip_def createEmptyDocument_def
      example_track_def makeTrackDef_def)

lemma example_rates:
  "js_finite (d_sampleRate example_doc)" "c_startSample example_clip = Some (js_int 48000)" "js_int_from 0 (js_int 48000)"
  by (simp_all add: example_doc_def createEmptyDocument_def example_clip_def)

lemma example_startable: "clip_startable (t_id example_track) ''c'' (js_mul (Fin 3) (Fin 48000)) example_doc"
  using example_facts(4,5) by (simp add: clip_startable_def example_clip_def)

lemma example_drag_session: "\<exists>g s. example_drag = Some (g, s) \<and> cd_moved g \<and> cd_drop g = None \<and> cd_lot g = [] \<and>
    cd_pendingSec g = Fin 3 \<and> cd_sr g = Fin 48000"
proof -
  obtain z where z: "example_drag = Some z"
    using example_drag_runs(1) by (cases example_drag) (auto simp: Option.is_none_def)
  show ?thesis
    using example_drag_runs(2-) unfolding z option.sel
    by (intro exI [of _ "fst z"] exI [of _ "snd z"]) (simp add: Option.is_none_def)
qed

theorem drag_is_one_undo_witness:
  "\<exists>g s p. example_drag = Some (g, s) \<and> p = ed_project (snd (drag_up local_automerge False g s)) \<and>
     undoDepth (ps_journal p) = 1 \<and> getDocument local_automerge (fst (undo local_automerge [] p)) = example_doc"
proof -
  obtain g s where g: "example_drag = Some (g, s)" "cd_moved g" "cd_drop g = None" "cd_lot g = []"
      "cd_pendingSec g = Fin 3" "cd_sr g = Fin 48000"
    using example_drag_session by blast
  show ?thesis
    using drag_is_one_undo [OF local_change_law example_facts(2) _ g(1) [unfolded example_drag_def] g(2-4) _ refl,
      of False "[]"] g example_startable by (auto simp: example_facts)
qed

theorem drag_escape_restores_witness:
  "\<exists>g s. example_drag = Some (g, s) \<and>
     getDocument local_automerge (ed_project (snd (drag_escape local_automerge g s))) = example_doc"
proof -
  obtain g s where g: "example_drag = Some (g, s)" "cd_moved g" "cd_lot g = []"
    using example_drag_session by blast
  show ?thesis
    using drag_escape_restores [OF local_change_law example_facts(2) _ g(1) [unfolded example_drag_def] g(2,3),
      of example_clip "js_int 48000"] g(1)
      example_rates by (auto simp: example_facts)
qed

section \<open>Resizing\<close>

lemma at_tick_whole: "at_tick r t = Inr v \<Longrightarrow> \<exists>k. v = js_int k"
  by (auto simp: at_tick_def samplesAtTick_def js_bind_def Let_def simp del: of_int_add split: sum.splits)

lemma snapSecMusical_finite:
  "snapSecMusical pps d sec = Inr v \<Longrightarrow> doc_rate d = Fin r \<Longrightarrow> r \<noteq> 0 \<Longrightarrow> js_finite v"
  by (auto simp: snapSecMusical_def tickToSample_def js_bind_def split: sum.splits dest!: at_tick_whole)

lemma snap_target_finite:
  assumes "snap_target pps d cl edges (Fin x) = Inr v" and "doc_rate d = Fin r" and "r \<noteq> 0"
    and "\<forall>e\<in>set edges. js_finite e"
  shows "js_finite v"
proof -
  let ?P = "\<lambda>edge. js_lt (js_mul (js_abs (js_sub (Fin x) edge)) pps) (js_int 8)"
  obtain snapped where s: "(if isMusicalClip cl then snapSecMusical pps d (Fin x) else Inr (snap_on (snapStep pps) (Fin x))) = Inr snapped"
      "v = (case List.find ?P edges of Some e \<Rightarrow> e | None \<Rightarrow> snapped)"
    using assms(1) unfolding snap_target_def js_bind_def by (auto split: sum.splits)
  obtain q where "snapStep pps = Fin q" "q > 0" using snapStep_pos by blast
  then have "js_finite snapped"
    using s(1) snapSecMusical_finite [OF _ assms(2,3)] by (auto simp: snap_on_def split: if_splits)
  moreover have "js_finite e" if "List.find ?P edges = Some e" for e
    using that assms(4) by (metis find_Some_iff nth_mem)
  ultimately show ?thesis using s(2) by (auto split: option.splits)
qed

fun real_move :: "pointer_move gesture_event \<Rightarrow> bool" where
  "real_move (Moved mv) \<longleftrightarrow> js_finite (mv_x mv) \<and> (\<exists>p>0. mv_pps mv = Fin p)"
| "real_move Frame \<longleftrightarrow> True"

text \<open>A span that a resize of the given side may make of another.\<close>

definition span_ok :: "bool \<Rightarrow> rat \<Rightarrow> rat \<Rightarrow> rat \<Rightarrow> rat \<Rightarrow> seconds_span \<Rightarrow> bool" where
  "span_ok right r a l off sp \<longleftrightarrow>
     (\<exists>a' l' off'. sp = \<lparr>sp_start = Fin a', sp_length = Fin l', sp_offset = Fin off'\<rparr> \<and>
        0 \<le> a' \<and> 0 \<le> off' \<and> 1024 / r \<le> l' \<and>
        (if right then a' = a \<and> off' = off else a' + l' = a + l \<and> a' - off' = a - off))"

definition resize_ok :: "bool \<Rightarrow> rat \<Rightarrow> rat \<Rightarrow> rat \<Rightarrow> rat \<Rightarrow> clip_resize \<Rightarrow> bool" where
  "resize_ok right r a l off g \<longleftrightarrow> cz_right g = right \<and> cz_sr g = Fin r \<and> doc_rate (cz_doc g) = Fin r \<and>
     js_finite (cz_startX g) \<and> (\<forall>e\<in>set (cz_edges g). js_finite e) \<and>
     cz_orig g = \<lparr>sp_start = Fin a, sp_length = Fin l, sp_offset = Fin off\<rparr> \<and> span_ok right r a l off (cz_pending g)"

lemma resize_target_ok:
  assumes "resize_ok right r a l off g" and "real_move (Moved mv)" and "0 < r" and "0 \<le> a" and "0 \<le> off" and "1024 / r \<le> l"
    and "resize_target g mv = Inr sp"
  shows "span_ok right r a l off sp"
proof -
  obtain x x0 p where x: "mv_x mv = Fin x" "cz_startX g = Fin x0" "mv_pps mv = Fin p" "0 < p"
    using assms(1,2) by (cases "mv_x mv"; cases "cz_startX g") (auto simp: resize_ok_def)
  have snap: "\<exists>w. v = Fin w" if "snapSec g mv (Fin y) = Inr v" for y v
  proof -
    have "js_finite v"
      using that snap_target_finite [of "mv_pps mv" "cz_doc g" "cz_clip g" "cz_edges g" y v r] assms(1,3)
      by (auto simp: snapSec_def resize_ok_def split: if_splits)
    then show ?thesis by (cases v) auto
  qed
  have ml: "MIN_LEN (cz_sr g) = Fin (1024 / r)" using assms(1,3) by (simp add: MIN_LEN_def resize_ok_def)
  show ?thesis
  proof (cases right)
    case True
    then obtain w where w: "snapSec g mv (Fin (a + l + (x - x0) / p)) = Inr (Fin w)"
        "sp = (cz_pending g)\<lparr>sp_length := js_max (Fin (1024 / r)) (js_sub (Fin w) (Fin a))\<rparr>"
      using assms(1,7) x ml snap [of "a + l + (x - x0) / p"]
      by (auto simp: resize_target_def resize_ok_def js_bind_def Let_def js_sub_def split: sum.splits)
    then show ?thesis
      using assms(1) True by (auto simp: resize_ok_def span_ok_def js_sub_def js_max_def)
  next
    case False
    then obtain w where w: "snapSec g mv (Fin (a + (x - x0) / p)) = Inr (Fin w)"
        "sp = (let s' = js_min (js_sub (Fin (a + l)) (Fin (1024 / r))) (js_max (js_int 0) (js_max (js_sub (Fin a) (Fin off)) (Fin w)));
                   d = js_sub s' (Fin a)
               in \<lparr>sp_start = s', sp_length = js_sub (Fin l) d, sp_offset = js_add (Fin off) d\<rparr>)"
      using assms(1,7) x ml snap [of "a + (x - x0) / p"]
      by (auto simp: resize_target_def resize_ok_def js_bind_def Let_def js_sub_def split: sum.splits)
    define s' where "s' = min (a + l - 1024 / r) (max 0 (max (a - off) w))"
    have "sp = \<lparr>sp_start = Fin s', sp_length = Fin (l - (s' - a)), sp_offset = Fin (off + (s' - a))\<rparr>"
      using w(2) by (simp add: s'_def Let_def js_sub_def js_min_def js_max_def min_def max_def)
    moreover have "0 \<le> s'" "0 \<le> off + (s' - a)" "1024 / r \<le> l - (s' - a)"
      using assms(4-6) by (auto simp: s'_def)
    ultimately show ?thesis using False by (simp add: span_ok_def)
  qed
qed

lemma resize_move_ok:
  assumes "resize_ok right r a l off g" and "real_move (Moved mv)" and "0 < r" and "0 \<le> a" and "0 \<le> off" and "1024 / r \<le> l"
  shows "resize_ok right r a l off (fst (resize_move mv (g, s)))"
  using assms(1) resize_target_ok [OF assms]
  by (auto simp: resize_move_def resize_ok_def split: sum.splits)

lemma resize_run_ok:
  assumes "0 < r" and "0 \<le> a" and "0 \<le> off" and "1024 / r \<le> l"
  shows "resize_ok right r a l off (fst gs) \<Longrightarrow> \<forall>ev\<in>set evs. real_move ev \<Longrightarrow>
    resize_ok right r a l off (fst (snd (gesture_run resize_move (resize_frame A) evs gs)))"
proof (induction evs arbitrary: gs)
  case (Cons ev evs)
  obtain g s where gs: "gs = (g, s)" by (cases gs)
  show ?case
  proof (cases ev)
    case (Moved mv)
    then show ?thesis
      using Cons resize_move_ok [of right r a l off g mv s] assms by (simp add: gs del: real_move.simps)
  next
    case Frame
    have "resize_ok right r a l off (fst (snd (resize_frame A gs)))"
      using Cons.prems(1) by (auto simp: gs resize_frame_def resize_ok_def split: prod.splits)
    then show ?thesis using Cons Frame by (simp add: split_beta)
  qed
qed simp

lemma beginClipResize_facts:
  assumes "beginClipResize A t c right x adding s = Some g" and "d = getDocument A (ed_project s)"
  shows "cz_trackId g = t \<and> cz_clipId g = c \<and> cz_right g = right \<and> cz_startX g = x \<and> \<not> cz_moved g \<and> \<not> cz_frame g \<and>
    cz_sr g = doc_rate d \<and> cz_doc g = d \<and> cz_pending g = cz_orig g \<and>
    (\<exists>cl start len. find_clip t c d = Some cl \<and> clipStartSamples cl d = Inr start \<and> clipLengthSamples cl d = Inr len \<and>
       cz_orig g = \<lparr>sp_start = js_div start (doc_rate d), sp_length = js_div len (doc_rate d),
         sp_offset = js_div (or_else (c_offsetSamples cl) NaN) (doc_rate d)\<rparr>)"
  using assms by (auto simp: beginClipResize_def find_clip_def Let_def split: option.splits sum.splits)

text \<open>An absolute clip as the validated document has it, from sample \<open>k\<close>, \<open>n\<close> long, \<open>off\<close> into its audio.\<close>

definition plain_clip :: "string \<Rightarrow> string \<Rightarrow> int \<Rightarrow> int \<Rightarrow> int \<Rightarrow> project \<Rightarrow> bool" where
  "plain_clip t c k n off d \<longleftrightarrow> 0 \<le> k \<and> 1024 \<le> n \<and> 0 \<le> off \<and>
     (\<exists>cl. find_clip t c d = Some cl \<and> \<not> isMusicalClip cl \<and> c_startSample cl = Some (js_int k) \<and>
        c_lengthSamples cl = Some (js_int n) \<and> c_offsetSamples cl = Some (js_int off))"

lemma resize_release:
  assumes "change_law A" and "idle (ed_project s0)" and "undoDepth (ps_journal (ed_project s0)) < 100"
    and "beginClipResize A t c right x adding s0 = Some g0"
    and "gesture_run resize_move (resize_frame A) evs (g0, s0) = (cs, g, s)" and "cz_moved g"
    and "reversible (SetClipBounds t c (pending_bounds g)) (getDocument A (ed_project s0))"
    and "p = ed_project (snd (resize_up A g s))"
  shows "\<exists>iop. doc_step (SetClipBounds t c (pending_bounds g)) (getDocument A (ed_project s0)) = Some (iop, getDocument A p) \<and>
    getDocument A (fst (undo A us p)) = getDocument A (ed_project s0)"
proof -
  let ?d = "getDocument A (ed_project s0)" and ?op = "SetClipBounds t c (pending_bounds g)"
  note b = beginClipResize_facts [OF assms(4) refl]
  have good0: "cz_trackId g0 = t \<and> cz_clipId g0 = c \<and> (cz_frame g0 \<longrightarrow> cz_moved g0)" and new: "\<not> cz_moved g0" using b by auto
  have kept: "cz_trackId g = t" "cz_clipId g = c"
    using resize.run_keeps [OF assms(1,2), where gs = "(g0, s0)" and evs = evs and t = t and c = c] b assms(5) by simp_all
  obtain iop e iop' where st: "doc_step ?op ?d = Some (iop, e)" "reversible iop e" "doc_step iop e = Some (iop', ?d)"
    using reversible_step [OF assms(7)] by blast
  have ok: "doc_step ?op (getDocument A (ed_project s)) \<noteq> None"
    using resize.last_write_ok [OF assms(1,2) good0 new assms(5,6), of "pending_bounds g"] st(1) by simp
  have p: "p = endUndoGroup (snd (sendLastChange (do_op A ?op (ed_project s))))"
    using resize_up_writes [OF assms(6) refl, of A s] ok kept by (simp add: assms(8))
  have "getDocument A p = e \<and> idle p \<and> undoDepth (ps_journal p) = undoDepth (ps_journal (ed_project s0)) + 1 \<and>
      getDocument A (fst (undo A us p)) = ?d \<and>
      undoDepth (ps_journal (fst (undo A us p))) = undoDepth (ps_journal (ed_project s0))"
    by (rule resize.whole_gesture [OF assms(1-3) good0 new assms(5,6), of "pending_bounds g" iop e])
      (use st p in \<open>simp_all add: closed_group\<close>)
  then show ?thesis using st(1) by auto
qed


definition example_resize :: "clip_resize option" where
  "example_resize = beginClipResize local_automerge (t_id example_track) ''c'' False (js_int 100) False example_editor"

definition example_trim :: "clip_resize \<times> project editor" where
  "example_trim = snd (gesture_run resize_move (resize_frame local_automerge)
     [Moved (example_move 113), Frame, Moved (example_move 141)] (the example_resize, example_editor))"

lemma example_resize_begun:
  "\<not> Option.is_none example_resize" "length (cz_edges (the example_resize)) = 0"
  by code_simp+

lemma example_trim_moved:
  "cz_moved (fst example_trim)" "sp_start (cz_pending (fst example_trim)) = Fin (3 - 1024 / 48000)"
  by code_simp+

lemma example_plain: "plain_clip (t_id example_track) ''c'' 48000 96000 0 example_doc"
  using example_facts(4,5) by (simp add: plain_clip_def example_clip_def)


end
