(* ===== verification/Piano_Roll.thy ===== *)
theory Piano_Roll
  imports Coalesced Clip_Selection "HOL-Library.AList"
begin

text \<open>
  The piano roll, \<open>web/src/ui/piano_roll.ts\<close>: the notes of one clip on a grid of pitches and steps, its
  selection and its gestures, as handlers of the events of the grid. What the page knows (the cell
  under the pointer, the rectangles of the cells) is part of an event; the text of the status line
  and the styles are left out. The click that follows a drag is swallowed, so it is not an event.
\<close>

section \<open>The grid\<close>

definition STEPS :: int where
  "STEPS = 16"

definition LOW :: int where
  "LOW = 48"

definition HIGH :: int where
  "HIGH = 72"

text \<open>The constants of a render.\<close>

record roll =
  ro_trackId :: string
  ro_clipId :: string
  ro_musical :: bool
  ro_stepLen :: jsnum

definition roll_of :: "string \<Rightarrow> clip \<Rightarrow> roll" where
  "roll_of trackId clip =
     (let musical = isMusicalClip clip \<and> c_lengthTick clip \<noteq> None
      in \<lparr>ro_trackId = trackId, ro_clipId = c_id clip, ro_musical = musical,
          ro_stepLen = js_max (js_int 1) (js_floor (js_div
            (or_else (if musical then c_lengthTick clip else c_lengthSamples clip) (js_int 0)) (js_int STEPS)))\<rparr>)"

definition startOf :: "roll \<Rightarrow> midi_note \<Rightarrow> jsnum" where
  "startOf r n = or_else (if ro_musical r then n_startTick n else n_startSample n) (js_int 0)"

definition lengthOf :: "roll \<Rightarrow> midi_note \<Rightarrow> jsnum" where
  "lengthOf r n = or_else (if ro_musical r then n_lengthTick n else n_lengthSamples n) (ro_stepLen r)"

text \<open>A note on the grid.\<close>

record placed =
  pl_note :: midi_note
  pl_id :: string
  pl_startStep :: jsnum
  pl_lenSteps :: jsnum

definition place_note :: "roll \<Rightarrow> midi_note \<Rightarrow> placed" where
  "place_note r n =
     \<lparr>pl_note = n, pl_id = or_else (n_id n) [],
      pl_startStep = js_floor (js_div (startOf r n) (ro_stepLen r)),
      pl_lenSteps = js_max (js_int 1) (js_round (js_div (lengthOf r n) (ro_stepLen r)))\<rparr>"

definition place :: "roll \<Rightarrow> midi_note list \<Rightarrow> placed list" where
  "place r ns =
     map (place_note r) (filter (\<lambda>n. js_le (js_int LOW) (n_pitch n) \<and> js_le (n_pitch n) (js_int HIGH)) ns)"

text \<open>
  The note painted on a cell: the last one that covers it. The painting of a note stops at the first
  column that does not exist, and a note that starts before the grid is not painted.
\<close>

definition covers :: "int \<Rightarrow> int \<Rightarrow> placed \<Rightarrow> bool" where
  "covers p s pl \<longleftrightarrow> js_eq (n_pitch (pl_note pl)) (js_int p) \<and> js_le (js_int 0) (pl_startStep pl) \<and>
     js_le (pl_startStep pl) (js_int s) \<and> js_lt (js_int s) (js_add (pl_startStep pl) (pl_lenSteps pl))"

definition cell_note :: "roll \<Rightarrow> midi_note list \<Rightarrow> int \<times> int \<Rightarrow> string" where
  "cell_note r ns = (\<lambda>(p, s). case filter (covers p s) (place r ns) of [] \<Rightarrow> [] | pls \<Rightarrow> pl_id (last pls))"

section \<open>State\<close>

datatype roll_mode = RollMove | RollLen | RollVel | RollLasso

text \<open>The last delta applied: the parts of the key.\<close>

datatype roll_key = NoKey | VelKey jsnum | LenKey jsnum | MoveKey jsnum jsnum

record note_before =
  bf_pitch :: jsnum
  bf_startStep :: jsnum
  bf_lenSteps :: jsnum
  bf_vel :: jsnum

record roll_drag =
  dr_pointerId :: int
  dr_mode :: roll_mode
  dr_x0 :: jsnum
  dr_y0 :: jsnum
  dr_cellW :: jsnum
  dr_rowH :: jsnum
  dr_before :: "(string \<times> note_before) list"
  dr_last :: roll_key
  dr_adding :: bool
  dr_moved :: bool
  dr_grouped :: bool

record 'd roll_state =
  rs_roll :: roll
  rs_project :: "'d project_state"
  rs_sel :: "string list"
  rs_painted :: "midi_note list"
  rs_active :: bool
  rs_drag :: "roll_drag option"

definition freshNotes :: "'d automerge \<Rightarrow> roll \<Rightarrow> 'd project_state \<Rightarrow> midi_note list" where
  "freshNotes A r p =
     (case find_clip (ro_trackId r) (ro_clipId r) (getDocument A p) of
        Some c \<Rightarrow> or_else (c_notes c) [] | None \<Rightarrow> [])"

definition repaint :: "'d automerge \<Rightarrow> 'd roll_state \<Rightarrow> 'd roll_state" where
  "repaint A st = st\<lparr>rs_painted := freshNotes A (rs_roll st) (rs_project st)\<rparr>"

text \<open>A render: its constants, the ids of the selection that are gone, the painting.\<close>

definition renderPianoRoll :: "'d automerge \<Rightarrow> string \<Rightarrow> clip \<Rightarrow> 'd roll_state \<Rightarrow> 'd roll_state" where
  "renderPianoRoll A trackId clip st =
     (let r = roll_of trackId clip;
          alive = (\<lambda>i. list_ex (\<lambda>n. n_id n = Some i) (freshNotes A r (rs_project st)))
      in st\<lparr>rs_roll := r, rs_sel := filter alive (rs_sel st), rs_painted := or_else (c_notes clip) [],
           rs_drag := None\<rparr>)"

text \<open>\<open>roll_onLive\<close> sends what is pending; \<open>roll_onChange\<close> does too, and the page shows the clip again.\<close>

type_synonym 'd roll_result = "client_call list \<times> 'd roll_state"

definition roll_onLive :: "'d roll_state \<Rightarrow> 'd roll_result" where
  "roll_onLive st = (case sendLastChange (rs_project st) of (cs, p) \<Rightarrow> (cs, st\<lparr>rs_project := p\<rparr>))"

definition roll_onChange :: "'d automerge \<Rightarrow> 'd roll_state \<Rightarrow> 'd roll_result" where
  "roll_onChange A st =
     (case roll_onLive st of
        (cs, st) \<Rightarrow>
          (cs, case find_clip (ro_trackId (rs_roll st)) (ro_clipId (rs_roll st)) (getDocument A (rs_project st)) of
                 Some clip \<Rightarrow> renderPianoRoll A (ro_trackId (rs_roll st)) clip st
               | None \<Rightarrow> st))"

definition placedById :: "'d automerge \<Rightarrow> roll \<Rightarrow> string \<Rightarrow> 'd project_state \<Rightarrow> placed option" where
  "placedById A r i p = List.find (\<lambda>pl. pl_id pl = i) (place r (freshNotes A r p))"

definition selectedPlaced :: "'d automerge \<Rightarrow> roll \<Rightarrow> string list \<Rightarrow> 'd project_state \<Rightarrow> placed list" where
  "selectedPlaced A r sel p = filter (\<lambda>pl. pl_id pl \<in> set sel) (place r (freshNotes A r p))"

definition note_by_id :: "'d automerge \<Rightarrow> roll \<Rightarrow> string \<Rightarrow> 'd project_state \<Rightarrow> midi_note option" where
  "note_by_id A r i p = List.find (\<lambda>n. n_id n = Some i) (freshNotes A r p)"

text \<open>\<open>n.id && sel.has(n.id)\<close>\<close>

definition is_selected :: "string list \<Rightarrow> midi_note \<Rightarrow> bool" where
  "is_selected sel n \<longleftrightarrow> (case n_id n of Some i \<Rightarrow> i \<noteq> [] \<and> i \<in> set sel | None \<Rightarrow> False)"

section \<open>Adding and deleting\<close>

text \<open>\<open>u\<close> is the UUID drawn for the new note.\<close>

definition new_note :: "roll \<Rightarrow> int \<Rightarrow> int \<Rightarrow> midi_note" where
  "new_note r p s =
     (let start = js_mul (js_int s) (ro_stepLen r) in
      if ro_musical r
      then \<lparr>n_id = None, n_pitch = js_int p, n_velocity = js_int 100, n_startSample = None, n_lengthSamples = None,
            n_startTick = Some start, n_lengthTick = Some (ro_stepLen r)\<rparr>
      else \<lparr>n_id = None, n_pitch = js_int p, n_velocity = js_int 100, n_startSample = Some start,
            n_lengthSamples = Some (ro_stepLen r), n_startTick = None, n_lengthTick = None\<rparr>)"

definition addAt :: "'d automerge \<Rightarrow> string \<Rightarrow> int \<Rightarrow> int \<Rightarrow> 'd roll_state \<Rightarrow> 'd roll_result" where
  "addAt A u p s st =
     (let r = rs_roll st;
          q = perform A (toggleNote u (ro_trackId r) (ro_clipId r) (new_note r p s)) (rs_project st);
          born = List.find (\<lambda>n. js_eq (n_pitch n) (js_int p) \<and> js_eq (startOf r n) (js_mul (js_int s) (ro_stepLen r)))
            (freshNotes A r q)
      in roll_onChange A (st\<lparr>rs_project := q,
           rs_sel := (case Option.bind born n_id of Some i \<Rightarrow> if i = [] then [] else [i] | None \<Rightarrow> [])\<rparr>))"

definition deleteSelection :: "'d automerge \<Rightarrow> 'd roll_state \<Rightarrow> 'd roll_result" where
  "deleteSelection A st =
     (let r = rs_roll st;
          victims = filter (is_selected (rs_sel st)) (freshNotes A r (rs_project st))
      in if victims = [] then ([], st)
         else
           (let p = fold (\<lambda>n. perform A (toggleNote [] (ro_trackId r) (ro_clipId r) n)) victims
                      (beginUndoGroup (rs_project st))
            in roll_onChange A (st\<lparr>rs_project := endUndoGroup p, rs_sel := []\<rparr>)))"

section \<open>Pressing\<close>

record roll_press =
  pp_cell :: "(int \<times> int) option"
  pp_button :: int
  pp_pointerId :: int
  pp_x :: jsnum
  pp_y :: jsnum
  pp_shift :: bool
  pp_ctrl :: bool
  pp_alt :: bool
  pp_right :: jsnum
  pp_width :: jsnum
  pp_height :: jsnum

definition EDGE_PX :: int where
  "EDGE_PX = 6"

definition DRAG_PX :: int where
  "DRAG_PX = 3"

definition before_of :: "placed list \<Rightarrow> (string \<times> note_before) list" where
  "before_of pls =
     fold (\<lambda>pl. AList.update (pl_id pl)
       \<lparr>bf_pitch = n_pitch (pl_note pl), bf_startStep = pl_startStep pl, bf_lenSteps = pl_lenSteps pl,
        bf_vel = n_velocity (pl_note pl)\<rparr>) pls []"

definition roll_pointerdown :: "'d automerge \<Rightarrow> roll_press \<Rightarrow> 'd roll_state \<Rightarrow> 'd roll_state" where
  "roll_pointerdown A e st =
     (case pp_cell e of
        None \<Rightarrow> st
      | Some (pitch, step) \<Rightarrow>
          if pp_button e \<noteq> 0 then st
          else
            (let r = rs_roll st;
                 i = cell_note r (rs_painted st) (pitch, step);
                 press = (\<lambda>mode st. st\<lparr>rs_drag := Some
                   \<lparr>dr_pointerId = pp_pointerId e, dr_mode = mode, dr_x0 = pp_x e, dr_y0 = pp_y e,
                    dr_cellW = js_add (pp_width e) (js_int 1), dr_rowH = js_add (pp_height e) (js_int 1),
                    dr_before = before_of (selectedPlaced A r (rs_sel st) (rs_project st)), dr_last = NoKey,
                    dr_adding = pp_shift e, dr_moved = False, dr_grouped = False\<rparr>\<rparr>)
             in if i = [] then press RollLasso st
                else
                  (case placedById A r i (rs_project st) of
                     None \<Rightarrow> st
                   | Some pl \<Rightarrow>
                       (let st = (if i \<in> set (rs_sel st) then st
                              else repaint A (st\<lparr>rs_sel :=
                                set_add i (if pp_shift e \<or> pp_ctrl e then rs_sel st else [])\<rparr>));
                            onEdge = js_eq (js_int step) (js_sub (js_add (pl_startStep pl) (pl_lenSteps pl)) (js_int 1)) \<and>
                              js_le (js_sub (pp_right e) (js_int EDGE_PX)) (pp_x e)
                        in press (if pp_alt e then RollVel else if onEdge then RollLen else RollMove) st))))"

section \<open>Moving\<close>

text \<open>A rectangle on the screen: of the grid, and of each of its cells.\<close>

record screen_rect =
  sr_left :: jsnum
  sr_right :: jsnum
  sr_top :: jsnum
  sr_bottom :: jsnum

record roll_motion =
  rm_pointerId :: int
  rm_x :: jsnum
  rm_y :: jsnum
  rm_grid :: screen_rect
  rm_cell :: "int \<times> int \<Rightarrow> screen_rect"

definition grid_cells :: "(int \<times> int) list" where
  "grid_cells = concat (map (\<lambda>p. map (\<lambda>s. (p, s)) [0..STEPS - 1]) (rev [LOW..HIGH]))"

definition beginGesture :: "roll_drag \<Rightarrow> 'd roll_state \<Rightarrow> roll_drag \<times> 'd roll_state" where
  "beginGesture d st =
     (if dr_mode d = RollLasso then (d\<lparr>dr_moved := True\<rparr>, st\<lparr>rs_active := True\<rparr>)
      else (d\<lparr>dr_moved := True, dr_grouped := True\<rparr>,
            st\<lparr>rs_active := True, rs_project := beginUndoGroup (rs_project st)\<rparr>))"

text \<open>The notes that have a painted cell touching the rectangle.\<close>

definition roll_lasso_hits :: "roll_drag \<Rightarrow> roll_motion \<Rightarrow> roll \<Rightarrow> midi_note list \<Rightarrow> string list" where
  "roll_lasso_hits d e r painted =
     (let gl = sr_left (rm_grid e); gt = sr_top (rm_grid e);
          x1 = js_sub (js_min (dr_x0 d) (rm_x e)) gl; x2 = js_sub (js_max (dr_x0 d) (rm_x e)) gl;
          y1 = js_sub (js_min (dr_y0 d) (rm_y e)) gt; y2 = js_sub (js_max (dr_y0 d) (rm_y e)) gt;
          touches = (\<lambda>c. js_le x1 (js_sub (sr_right c) gl) \<and> js_le (js_sub (sr_left c) gl) x2 \<and>
            js_le y1 (js_sub (sr_bottom c) gt) \<and> js_le (js_sub (sr_top c) gt) y2)
      in fold set_add (map (cell_note r painted)
           (filter (\<lambda>ps. cell_note r painted ps \<noteq> [] \<and> touches (rm_cell e ps)) grid_cells)) [])"

definition roll_lasso :: "'d automerge \<Rightarrow> roll_drag \<Rightarrow> roll_motion \<Rightarrow> 'd roll_state \<Rightarrow> 'd roll_state" where
  "roll_lasso A d e st =
     repaint A (st\<lparr>rs_sel := fold set_add (roll_lasso_hits d e (rs_roll st) (rs_painted st))
       (if dr_adding d then rs_sel st else [])\<rparr>)"

text \<open>\<open>changed = project.updateNote(...) || changed\<close>\<close>

definition put_note ::
  "'d automerge \<Rightarrow> roll \<Rightarrow> string \<Rightarrow> note_patch \<Rightarrow> bool \<times> 'd project_state \<Rightarrow> bool \<times> 'd project_state" where
  "put_note A r i patch = (\<lambda>(changed, p).
     (updateNote (ro_trackId r) (ro_clipId r) i patch (getDocument A p) \<noteq> None \<or> changed,
      perform A (updateNote (ro_trackId r) (ro_clipId r) i patch) p))"

definition no_patch :: note_patch where
  "no_patch = \<lparr>np_pitch = None, np_velocity = None, np_startSample = None, np_lengthSamples = None,
     np_startTick = None, np_lengthTick = None\<rparr>"

definition vel_patch :: "jsnum \<Rightarrow> note_patch" where
  "vel_patch v = no_patch\<lparr>np_velocity := Some v\<rparr>"

definition len_patch :: "roll \<Rightarrow> jsnum \<Rightarrow> note_patch" where
  "len_patch r l =
     (if ro_musical r then no_patch\<lparr>np_lengthTick := Some l\<rparr> else no_patch\<lparr>np_lengthSamples := Some l\<rparr>)"

definition move_patch :: "roll \<Rightarrow> jsnum \<Rightarrow> jsnum \<Rightarrow> note_patch" where
  "move_patch r pitch start =
     (if ro_musical r then no_patch\<lparr>np_pitch := Some pitch, np_startTick := Some start\<rparr>
      else no_patch\<lparr>np_pitch := Some pitch, np_startSample := Some start\<rparr>)"

definition vel_note ::
  "'d automerge \<Rightarrow> roll \<Rightarrow> jsnum \<Rightarrow> string \<times> note_before \<Rightarrow> bool \<times> 'd project_state \<Rightarrow> bool \<times> 'd project_state" where
  "vel_note A r dv = (\<lambda>(i, b) (changed, p).
     (let vel = js_clamp (js_int 1) (js_int 127) (js_add (bf_vel b) dv) in
      case note_by_id A r i p of
        Some cur \<Rightarrow> if js_eq (n_velocity cur) vel then (changed, p) else put_note A r i (vel_patch vel) (changed, p)
      | None \<Rightarrow> (changed, p)))"

definition len_note ::
  "'d automerge \<Rightarrow> roll \<Rightarrow> jsnum \<Rightarrow> string \<times> note_before \<Rightarrow> bool \<times> 'd project_state \<Rightarrow> bool \<times> 'd project_state" where
  "len_note A r ds = (\<lambda>(i, b) (changed, p).
     (let len = js_clamp (js_int 1) (js_sub (js_int STEPS) (bf_startStep b)) (js_add (bf_lenSteps b) ds) in
      case placedById A r i p of
        Some cur \<Rightarrow>
          if js_eq (pl_lenSteps cur) len then (changed, p)
          else put_note A r i (len_patch r (js_mul len (ro_stepLen r))) (changed, p)
      | None \<Rightarrow> (changed, p)))"

definition move_note ::
  "'d automerge \<Rightarrow> roll \<Rightarrow> jsnum \<Rightarrow> jsnum \<Rightarrow> string \<times> note_before \<Rightarrow> bool \<times> 'd project_state \<Rightarrow> bool \<times> 'd project_state" where
  "move_note A r ds dp = (\<lambda>(i, b) (changed, p).
     (let pitch = js_add (bf_pitch b) dp;
          start = js_mul (js_add (bf_startStep b) ds) (ro_stepLen r)
      in case placedById A r i p of
           Some cur \<Rightarrow>
             if js_eq (n_pitch (pl_note cur)) pitch \<and> js_eq (startOf r (pl_note cur)) start then (changed, p)
             else put_note A r i (move_patch r pitch start) (changed, p)
         | None \<Rightarrow> (changed, p)))"

text \<open>The delta of a move, bounded by each note in turn.\<close>

definition bound_delta :: "note_before \<Rightarrow> jsnum \<times> jsnum \<Rightarrow> jsnum \<times> jsnum" where
  "bound_delta b = (\<lambda>(ds, dp).
     (js_clamp (js_neg (bf_startStep b)) (js_sub (js_sub (js_int STEPS) (bf_lenSteps b)) (bf_startStep b)) ds,
      js_clamp (js_sub (js_int LOW) (bf_pitch b)) (js_sub (js_int HIGH) (bf_pitch b)) dp))"

definition move_delta :: "roll_drag \<Rightarrow> roll_motion \<Rightarrow> jsnum \<times> jsnum" where
  "move_delta d e =
     fold bound_delta (map snd (dr_before d))
       (js_round (js_div (js_sub (rm_x e) (dr_x0 d)) (dr_cellW d)),
        js_neg (js_round (js_div (js_sub (rm_y e) (dr_y0 d)) (dr_rowH d))))"

text \<open>A target address held by a note that is not selected.\<close>

definition collides :: "'d automerge \<Rightarrow> roll \<Rightarrow> roll_drag \<Rightarrow> jsnum \<Rightarrow> jsnum \<Rightarrow> 'd roll_state \<Rightarrow> bool" where
  "collides A r d ds dp st =
     (let others = filter (\<lambda>n. \<not> is_selected (rs_sel st) n) (freshNotes A r (rs_project st)) in
      list_ex (\<lambda>b. list_ex (\<lambda>other. js_eq (n_pitch other) (js_add (bf_pitch b) dp) \<and>
        js_eq (startOf r other) (js_mul (js_add (bf_startStep b) ds) (ro_stepLen r))) others) (map snd (dr_before d)))"

text \<open>The delta of the pointer with its key and the writes it asks for; \<open>None\<close> is a refused move.\<close>

definition roll_edit ::
  "'d automerge \<Rightarrow> roll_drag \<Rightarrow> roll_motion \<Rightarrow> 'd roll_state \<Rightarrow>
   roll_key \<times> (string \<times> note_before \<Rightarrow> bool \<times> 'd project_state \<Rightarrow> bool \<times> 'd project_state) option" where
  "roll_edit A d e st =
     (let r = rs_roll st in
      case dr_mode d of
        RollVel \<Rightarrow>
          (let dv = js_round (js_neg (js_sub (rm_y e) (dr_y0 d))) in (VelKey dv, Some (vel_note A r dv)))
      | RollLen \<Rightarrow>
          (let ds = js_round (js_div (js_sub (rm_x e) (dr_x0 d)) (dr_cellW d)) in (LenKey ds, Some (len_note A r ds)))
      | _ \<Rightarrow>
          (case move_delta d e of
             (ds, dp) \<Rightarrow> (MoveKey ds dp, if collides A r d ds dp st then None else Some (move_note A r ds dp))))"

definition roll_pointermove :: "'d automerge \<Rightarrow> roll_motion \<Rightarrow> 'd roll_state \<Rightarrow> 'd roll_result" where
  "roll_pointermove A e st =
     (case rs_drag st of
        None \<Rightarrow> ([], st)
      | Some d \<Rightarrow>
          if rm_pointerId e \<noteq> dr_pointerId d then ([], st)
          else if \<not> dr_moved d \<and> js_lt (js_abs (js_sub (rm_x e) (dr_x0 d))) (js_int DRAG_PX) \<and>
            js_lt (js_abs (js_sub (rm_y e) (dr_y0 d))) (js_int DRAG_PX) then ([], st)
          else
            (case (if dr_moved d then (d, st) else beginGesture d st) of
               (d, st) \<Rightarrow>
                 if dr_mode d = RollLasso then ([], roll_lasso A d e (st\<lparr>rs_drag := Some d\<rparr>))
                 else
                   (case roll_edit A d e st of
                      (key, edit) \<Rightarrow>
                        if key = dr_last d then ([], st\<lparr>rs_drag := Some d\<rparr>)
                        else
                          (let st = st\<lparr>rs_drag := Some (d\<lparr>dr_last := key\<rparr>)\<rparr> in
                           case edit of
                             None \<Rightarrow> ([], st)
                           | Some f \<Rightarrow>
                               (case fold f (dr_before d) (False, rs_project st) of
                                  (changed, p) \<Rightarrow>
                                    if changed
                                    then (case roll_onLive (st\<lparr>rs_project := p\<rparr>) of (cs, st) \<Rightarrow> (cs, repaint A st))
                                    else ([], st\<lparr>rs_project := p\<rparr>))))))"

section \<open>Releasing, clicks, keys and the wheel\<close>

definition roll_endDrag :: "'d automerge \<Rightarrow> int \<Rightarrow> 'd roll_state \<Rightarrow> 'd roll_result" where
  "roll_endDrag A pointerId st =
     (case rs_drag st of
        None \<Rightarrow> ([], st)
      | Some d \<Rightarrow>
          if pointerId \<noteq> dr_pointerId d then ([], st)
          else
            (let st = st\<lparr>rs_drag := None, rs_active := False\<rparr>;
                 st = (if dr_grouped d then st\<lparr>rs_project := endUndoGroup (rs_project st)\<rparr> else st)
             in if dr_moved d then roll_onChange A st else ([], st)))"

text \<open>\<open>adding\<close> is shift, control or meta.\<close>

definition roll_click :: "'d automerge \<Rightarrow> string \<Rightarrow> (int \<times> int) option \<Rightarrow> bool \<Rightarrow> 'd roll_state \<Rightarrow> 'd roll_result" where
  "roll_click A u cell adding st =
     (case cell of
        None \<Rightarrow> ([], st)
      | Some (pitch, step) \<Rightarrow>
          (let i = cell_note (rs_roll st) (rs_painted st) (pitch, step) in
           if i = []
           then (if \<not> adding then addAt A u pitch step st else ([], repaint A (st\<lparr>rs_sel := []\<rparr>)))
           else ([], repaint A (st\<lparr>rs_sel :=
                  (if adding then (if i \<in> set (rs_sel st) then removeAll i (rs_sel st) else set_add i (rs_sel st))
                   else [i])\<rparr>))))"

definition roll_keydown :: "'d automerge \<Rightarrow> string \<Rightarrow> string \<Rightarrow> bool \<Rightarrow> 'd roll_state \<Rightarrow> 'd roll_result" where
  "roll_keydown A code key ctrl st =
     (if code = ''Delete'' \<or> code = ''Backspace''
      then (if rs_sel st \<noteq> [] then deleteSelection A st else ([], st))
      else if key = ''Escape''
      then (if rs_sel st \<noteq> [] then ([], repaint A (st\<lparr>rs_sel := []\<rparr>)) else ([], st))
      else if code = ''KeyA'' \<and> ctrl
      then ([], repaint A (st\<lparr>rs_sel := fold set_add
             (filter (\<lambda>i. i \<noteq> []) (List.map_filter n_id (freshNotes A (rs_roll st) (rs_project st)))) (rs_sel st)\<rparr>))
      else ([], st))"

definition WHEEL_VEL :: int where
  "WHEEL_VEL = 5"

text \<open>The notes turned by the wheel have an id.\<close>

definition wheel_note ::
  "'d automerge \<Rightarrow> roll \<Rightarrow> jsnum \<Rightarrow> midi_note \<Rightarrow> bool \<times> 'd project_state \<Rightarrow> bool \<times> 'd project_state" where
  "wheel_note A r delta n s =
     (let vel = js_clamp (js_int 1) (js_int 127) (js_add (n_velocity n) delta) in
      if js_eq vel (n_velocity n) then s else put_note A r (or_else (n_id n) []) (vel_patch vel) s)"

definition roll_wheel :: "'d automerge \<Rightarrow> (int \<times> int) option \<Rightarrow> jsnum \<Rightarrow> 'd roll_state \<Rightarrow> 'd roll_result" where
  "roll_wheel A cell deltaY st =
     (case cell of
        None \<Rightarrow> ([], st)
      | Some ps \<Rightarrow>
          (let r = rs_roll st;
               i = cell_note r (rs_painted st) ps;
               ns = freshNotes A r (rs_project st);
               targets = (if i \<in> set (rs_sel st) then filter (is_selected (rs_sel st)) ns
                          else filter (\<lambda>n. n_id n = Some i) ns)
           in if i = [] \<or> targets = [] then ([], st)
              else
                (case fold (wheel_note A r (js_int (if js_lt deltaY (js_int 0) then WHEEL_VEL else - WHEEL_VEL)))
                        targets (False, beginUndoGroup (rs_project st)) of
                   (changed, p) \<Rightarrow>
                     (let st = st\<lparr>rs_project := endUndoGroup p\<rparr> in
                      if changed then (case roll_onLive st of (cs, st) \<Rightarrow> (cs, repaint A st)) else ([], st)))))"

section \<open>Writes on notes\<close>

lemma update_first_commute:
  assumes "\<And>x. P (g x) = P x" and "\<And>x. Q (f x) = Q x" and "\<And>x. \<not> (P x \<and> Q x)"
  shows "update_first P f (update_first Q g xs) = update_first Q g (update_first P f xs)"
  using assms by (induction xs) auto

lemma find_update_other:
  assumes "\<And>x. P (f x) = P x" and "\<And>x. \<not> (P x \<and> Q x)"
  shows "List.find P (update_first Q f xs) = List.find P xs"
  using assms by (induction xs) auto

lemma other_note:
  assumes "i \<noteq> j" and "\<And>x. n_id (f x) = n_id x"
  shows "find_note t c j (upd_note t c i f d) = find_note t c j d"
proof -
  have "List.find (\<lambda>n. n_id n = Some j) (update_first (\<lambda>n. n_id n = Some i) f ns) = List.find (\<lambda>n. n_id n = Some j) ns" for ns
    by (rule find_update_other) (use assms in auto)
  then show ?thesis
    by (auto simp: find_note_def upd_note_def clip.get_upd or_else_def split: bind_splits option.splits)
qed

lemma notes_commute:
  assumes "i \<noteq> j" and "\<And>x. n_id (f x) = n_id x" and "\<And>x. n_id (g x) = n_id x"
  shows "upd_note t c i f (upd_note t c j g d) = upd_note t c j g (upd_note t c i f d)"
proof -
  have "update_first (\<lambda>n. n_id n = Some i) f (update_first (\<lambda>n. n_id n = Some j) g ns) =
      update_first (\<lambda>n. n_id n = Some j) g (update_first (\<lambda>n. n_id n = Some i) f ns)" for ns
    by (rule update_first_commute) (use assms in auto)
  then show ?thesis
    by (simp add: upd_note_def clip.upd_upd option.map_comp comp_def)
qed

lemma doc_step_UpdateNote:
  "doc_step (UpdateNote t c i p) d =
     (case find_note t c i d of
        None \<Rightarrow> None
      | Some x \<Rightarrow> Some (UpdateNote t c i (inverse_patch p x), upd_note t c i (apply_patch p) d))"
  by (auto simp: doc_step_def updateNote_def split: option.splits)

text \<open>Two patches of the same fields, and a note that has the optional ones.\<close>

definition same_fields :: "note_patch \<Rightarrow> note_patch \<Rightarrow> bool" where
  "same_fields p q \<longleftrightarrow> (np_pitch p = None) = (np_pitch q = None) \<and> (np_velocity p = None) = (np_velocity q = None) \<and>
     (np_startSample p = None) = (np_startSample q = None) \<and> (np_lengthSamples p = None) = (np_lengthSamples q = None) \<and>
     (np_startTick p = None) = (np_startTick q = None) \<and> (np_lengthTick p = None) = (np_lengthTick q = None)"

definition has_fields :: "note_patch \<Rightarrow> midi_note \<Rightarrow> bool" where
  "has_fields p n \<longleftrightarrow> (n_startSample n = None \<longrightarrow> np_startSample p = None) \<and>
     (n_lengthSamples n = None \<longrightarrow> np_lengthSamples p = None) \<and>
     (n_startTick n = None \<longrightarrow> np_startTick p = None) \<and> (n_lengthTick n = None \<longrightarrow> np_lengthTick p = None)"

lemma over_same:
  "(a = None) = (b = None) \<Longrightarrow> or_else b (or_else a v) = or_else b v"
  "(a = None) = (b = None) \<Longrightarrow> patch_option b (patch_option a w) = patch_option b w"
  by (cases a; cases b; simp add: patch_option_def)+

lemma same_fields_over:
  assumes "same_fields p q"
  shows "apply_patch q (apply_patch p n) = apply_patch q n" "inverse_patch p n = inverse_patch q n"
  using assms by (simp_all add: same_fields_def apply_patch_def inverse_patch_def if_patched_def over_same)

lemma has_fields_apply: "has_fields p n \<Longrightarrow> has_fields p (apply_patch q n)"
  by (auto simp: has_fields_def apply_patch_def patched_domain)

definition safe_note :: "string \<Rightarrow> string \<Rightarrow> ('p \<Rightarrow> note_patch) \<Rightarrow> string \<Rightarrow> project \<Rightarrow> bool" where
  "safe_note t c P i d \<longleftrightarrow> (\<forall>n. find_note t c i d = Some n \<longrightarrow> (\<forall>p. has_fields (P p) n))"

lemma update_family:
  assumes "\<And>p q. same_fields (P p) (P q)"
  shows "coalesced_family (\<lambda>i p. UpdateNote t c i (P p)) (safe_note t c P)"
proof
  fix i p q d iop d'
  assume "doc_step (UpdateNote t c i (P p)) d = Some (iop, d')"
  then show "case doc_step (UpdateNote t c i (P q)) d of
      None \<Rightarrow> doc_step (UpdateNote t c i (P q)) d' = None
    | Some (iop2, e) \<Rightarrow> iop2 = iop \<and>
        (\<exists>iop'. doc_step (UpdateNote t c i (P q)) d' = Some (iop', e) \<and> targetKey iop' = targetKey iop)"
    using same_fields_over [OF assms]
    by (auto simp: doc_step_UpdateNote note_focus.get_upd note_focus.overwrite split: option.splits)
next
  fix i j p q d iop d'
  assume "i \<noteq> j" and "doc_step (UpdateNote t c i (P p)) d = Some (iop, d')"
  then show "case doc_step (UpdateNote t c j (P q)) d of
      None \<Rightarrow> doc_step (UpdateNote t c j (P q)) d' = None
    | Some (jop, e) \<Rightarrow> \<exists>e'. doc_step (UpdateNote t c j (P q)) d' = Some (jop, e') \<and>
        doc_step (UpdateNote t c i (P p)) e = Some (iop, e')"
    by (auto simp: doc_step_UpdateNote other_note split: option.splits) (rule notes_commute; simp)
next
  fix i j p q d iop d' e jop e'
  assume "i \<noteq> j" and "doc_step (UpdateNote t c i (P p)) d = Some (iop, d')"
    "doc_step (UpdateNote t c j (P q)) e = Some (jop, e')"
  then show "targetKey iop \<noteq> targetKey jop"
    by (auto simp: doc_step_UpdateNote split: option.splits)
next
  fix i p d iop d'
  assume safe: "safe_note t c P i d" and st: "doc_step (UpdateNote t c i (P p)) d = Some (iop, d')"
  then obtain x where x: "find_note t c i d = Some x" "iop = UpdateNote t c i (inverse_patch (P p) x)"
      "d' = upd_note t c i (apply_patch (P p)) d"
    by (auto simp: doc_step_UpdateNote split: option.splits)
  have "reversible (UpdateNote t c i (P p)) d"
    using safe x(1) by (auto simp: safe_note_def has_fields_def)
  then show "reversible iop d' \<and> (\<exists>x. doc_step iop d' = Some (x, d))"
    using edits.reverts [of "UpdateNote t c i (P p)" d] st by auto
next
  fix i j p d iop d'
  assume "safe_note t c P i d" and "doc_step (UpdateNote t c j (P p)) d = Some (iop, d')"
  then show "safe_note t c P i d'"
    by (cases "i = j")
      (auto simp: safe_note_def doc_step_UpdateNote other_note note_focus.get_upd has_fields_apply split: option.splits)
qed

text \<open>The writes of a gesture by its mode.\<close>

definition mode_patch :: "roll \<Rightarrow> roll_mode \<Rightarrow> jsnum \<times> jsnum \<Rightarrow> note_patch" where
  "mode_patch r mode = (\<lambda>(a, b).
     case mode of RollVel \<Rightarrow> vel_patch a | RollLen \<Rightarrow> len_patch r a | _ \<Rightarrow> move_patch r a b)"

lemma same_mode_fields: "same_fields (mode_patch r mode x) (mode_patch r mode y)"
  by (cases x; cases y; cases mode; cases "ro_musical r")
    (simp_all add: same_fields_def mode_patch_def vel_patch_def len_patch_def move_patch_def no_patch_def)

interpretation note_writes: coalesced_family "\<lambda>i p. UpdateNote t c i (mode_patch r mode p)"
  "safe_note t c (mode_patch r mode)" for t c r mode
  by (rule update_family) (rule same_mode_fields)

section \<open>A gesture is one undo\<close>

definition roll_writes :: "'d automerge \<Rightarrow> roll \<Rightarrow> roll_mode \<Rightarrow> 'd project_state \<Rightarrow> 'd project_state \<Rightarrow> bool" where
  "roll_writes A r mode p0 p \<longleftrightarrow>
     (\<exists>M. in_family A (\<lambda>i x. UpdateNote (ro_trackId r) (ro_clipId r) i (mode_patch r mode x)) p0 M p)"

lemma perform_updateNote: "perform A (updateNote t c i patch) p = do_op A (UpdateNote t c i patch) p"
  by (simp add: do_op_def perform_result_def perform_def)

lemma put_note_writes:
  assumes "change_law A" and "idle p0" and "roll_writes A r mode p0 p"
  shows "roll_writes A r mode p0 (snd (put_note A r i (mode_patch r mode x) (changed, p)))"
  using assms note_writes.write_keeps [OF assms(1,2), of "ro_trackId r" "ro_clipId r" r mode _ p i x]
  by (auto simp: roll_writes_def put_note_def perform_updateNote)

lemma edits_write:
  assumes "change_law A" and "idle p0" and "roll_writes A r mode p0 p"
  shows "mode = RollVel \<Longrightarrow> roll_writes A r mode p0 (snd (vel_note A r dv ib (changed, p)))"
    and "mode = RollLen \<Longrightarrow> roll_writes A r mode p0 (snd (len_note A r ds ib (changed, p)))"
    and "mode = RollMove \<Longrightarrow> roll_writes A r mode p0 (snd (move_note A r ds dp ib (changed, p)))"
  using put_note_writes [OF assms, where x = "(a, b)" for a b] assms(3)
  by (simp_all add: vel_note_def len_note_def move_note_def Let_def mode_patch_def split: prod.splits option.splits)

lemma fold_edit_writes:
  assumes "\<And>ib changed p. roll_writes A r mode p0 p \<Longrightarrow> roll_writes A r mode p0 (snd (f ib (changed, p)))"
    and "roll_writes A r mode p0 p"
  shows "roll_writes A r mode p0 (snd (fold f xs (changed, p)))"
  using assms(2)
proof (induction xs arbitrary: changed p)
  case (Cons x xs)
  then show ?case using assms(1) [of p x changed] by (cases "f x (changed, p)") auto
qed simp

lemma roll_edit_writes:
  assumes "change_law A" and "idle p0" and "roll_edit A d e st = (key, Some f)" and "dr_mode d \<noteq> RollLasso"
    and "roll_writes A (rs_roll st) (dr_mode d) p0 p"
  shows "roll_writes A (rs_roll st) (dr_mode d) p0 (snd (fold f xs (changed, p)))"
proof (rule fold_edit_writes [OF _ assms(5)])
  fix ib changed p assume "roll_writes A (rs_roll st) (dr_mode d) p0 p"
  from edits_write [OF assms(1,2) this] show "roll_writes A (rs_roll st) (dr_mode d) p0 (snd (f ib (changed, p)))"
    using assms(3,4) by (cases ib; cases "dr_mode d") (auto simp: roll_edit_def Let_def split: prod.splits if_splits)
qed

text \<open>A gesture on the roll: the press, the moves of the pointer, the release.\<close>

definition roll_moves :: "'d automerge \<Rightarrow> roll_motion list \<Rightarrow> 'd roll_state \<Rightarrow> 'd roll_state" where
  "roll_moves A es st = fold (\<lambda>e st. snd (roll_pointermove A e st)) es st"

definition roll_gesture ::
  "'d automerge \<Rightarrow> roll_press \<Rightarrow> roll_motion list \<Rightarrow> 'd roll_state \<Rightarrow> 'd roll_state" where
  "roll_gesture A press es st =
     snd (roll_endDrag A (pp_pointerId press) (roll_moves A es (roll_pointerdown A press st)))"

text \<open>Between the press and the release, on a project that was \<open>p0\<close>.\<close>

definition in_roll_gesture :: "'d automerge \<Rightarrow> roll \<Rightarrow> 'd project_state \<Rightarrow> int \<Rightarrow> 'd roll_state \<Rightarrow> bool" where
  "in_roll_gesture A r p0 pointer st \<longleftrightarrow> rs_roll st = r \<and>
     (case rs_drag st of
        None \<Rightarrow> rs_project st = p0
      | Some d \<Rightarrow> dr_pointerId d = pointer \<and> (dr_grouped d \<longrightarrow> dr_moved d) \<and>
          (if dr_grouped d then dr_mode d \<noteq> RollLasso \<and> roll_writes A r (dr_mode d) p0 (rs_project st)
           else rs_project st = p0 \<and> (dr_moved d \<longrightarrow> dr_mode d = RollLasso)))"

lemma repaint_keeps [simp]:
  "rs_roll (repaint A st) = rs_roll st" "rs_project (repaint A st) = rs_project st" "rs_drag (repaint A st) = rs_drag st"
  "rs_sel (repaint A st) = rs_sel st"
  by (simp_all add: repaint_def)

lemma roll_lasso_keeps [simp]:
  "rs_roll (roll_lasso A d e st) = rs_roll st" "rs_project (roll_lasso A d e st) = rs_project st"
  "rs_drag (roll_lasso A d e st) = rs_drag st"
  by (simp_all add: roll_lasso_def)

lemma press_in_gesture:
  assumes "rs_drag st = None"
  shows "in_roll_gesture A (rs_roll st) (rs_project st) (pp_pointerId press) (roll_pointerdown A press st)"
  using assms by (auto simp: in_roll_gesture_def roll_pointerdown_def Let_def split: option.splits prod.splits)

lemma roll_writes_begin: "idle p0 \<Longrightarrow> roll_writes A r mode p0 (beginUndoGroup p0)"
  unfolding roll_writes_def using in_family_begin by blast

lemma roll_writes_send [simp]: "roll_writes A r mode p0 (snd (sendLastChange p)) = roll_writes A r mode p0 p"
  by (simp add: roll_writes_def)

lemma roll_onLive_keeps [simp]:
  "rs_roll (snd (roll_onLive st)) = rs_roll st" "rs_drag (snd (roll_onLive st)) = rs_drag st" "rs_sel (snd (roll_onLive st)) = rs_sel st"
  "rs_project (snd (roll_onLive st)) = snd (sendLastChange (rs_project st))"
  by (simp_all add: roll_onLive_def split_beta)

lemma move_in_gesture:
  assumes "change_law A" and "idle p0" and "in_roll_gesture A r p0 i st"
  shows "in_roll_gesture A r p0 i (snd (roll_pointermove A e st))"
proof (cases "rs_drag st")
  case (Some d)
  define ds where "ds = (if dr_moved d then (d, st) else beginGesture d st)"
  have edit: "roll_writes A r (dr_mode d') p0 (snd (fold f xs (c, p)))"
    if "roll_edit A d' e st' = (key, Some f)" "dr_mode d' \<noteq> RollLasso" "rs_roll st' = r"
      "roll_writes A r (dr_mode d') p0 p" for d' st' key f xs c p
    using roll_edit_writes [OF assms(1,2) that(1,2)] that(3,4) by simp
  obtain d' st' where ds': "ds = (d', st')" by (cases ds)
  have d': "dr_pointerId d' = i" "dr_moved d'" "rs_roll st' = r"
      "if dr_grouped d' then dr_mode d' \<noteq> RollLasso \<and> roll_writes A r (dr_mode d') p0 (rs_project st')
       else rs_project st' = p0 \<and> dr_mode d' = RollLasso"
    using assms(3) Some ds' roll_writes_begin [OF assms(2)]
    by (auto simp: in_roll_gesture_def ds_def beginGesture_def split: if_splits)
  show ?thesis
  proof (cases "rm_pointerId e \<noteq> dr_pointerId d \<or> \<not> dr_moved d \<and> js_lt (js_abs (js_sub (rm_x e) (dr_x0 d))) (js_int DRAG_PX) \<and>
            js_lt (js_abs (js_sub (rm_y e) (dr_y0 d))) (js_int DRAG_PX)")
    case True
    then have "roll_pointermove A e st = ([], st)" using Some by (auto simp: roll_pointermove_def)
    then show ?thesis using assms(3) by simp
  next
    case False
    note unmoved = this
    show ?thesis
    proof (cases "dr_mode d' = RollLasso")
      case True
      then have "roll_pointermove A e st = ([], roll_lasso A d' e (st'\<lparr>rs_drag := Some d'\<rparr>))"
        using unmoved Some ds' by (auto simp: roll_pointermove_def ds_def)
      then show ?thesis using d' True by (auto simp: in_roll_gesture_def split: if_splits)
    next
      case mode: False
      obtain key edit where ed: "roll_edit A d' e st' = (key, edit)" by (cases "roll_edit A d' e st'")
      have "roll_pointermove A e st =
          (if key = dr_last d' then ([], st'\<lparr>rs_drag := Some d'\<rparr>)
           else let st = st'\<lparr>rs_drag := Some (d'\<lparr>dr_last := key\<rparr>)\<rparr> in
             case edit of
               None \<Rightarrow> ([], st)
             | Some f \<Rightarrow>
                 (case fold f (dr_before d') (False, rs_project st) of
                    (changed, p) \<Rightarrow>
                      if changed
                      then (case roll_onLive (st\<lparr>rs_project := p\<rparr>) of (cs, st) \<Rightarrow> (cs, repaint A st))
                      else ([], st\<lparr>rs_project := p\<rparr>)))"
        using unmoved Some ds' mode ed by (auto simp: roll_pointermove_def ds_def)
      then show ?thesis
        using d' mode edit [of d' st' key _ "rs_project st'" "dr_before d'" False] ed
        by (auto simp: in_roll_gesture_def Let_def split_beta split: option.splits)
    qed
  qed
next
  case None
  then show ?thesis using assms(3) by (simp add: roll_pointermove_def)
qed

lemma moves_in_gesture:
  assumes "change_law A" and "idle p0" and "in_roll_gesture A r p0 i st"
  shows "in_roll_gesture A r p0 i (roll_moves A es st)"
  using assms(3)
  by (induction es arbitrary: st) (simp_all add: roll_moves_def move_in_gesture [OF assms(1,2)])


text \<open>Every note of the clip has the fields of the clip's domain.\<close>

definition in_domain :: "roll \<Rightarrow> midi_note \<Rightarrow> bool" where
  "in_domain r n \<longleftrightarrow> (if ro_musical r then n_startTick n \<noteq> None \<and> n_lengthTick n \<noteq> None
     else n_startSample n \<noteq> None \<and> n_lengthSamples n \<noteq> None)"

lemma find_note_fresh:
  "find_note (ro_trackId r) (ro_clipId r) i (getDocument A p) = note_by_id A r i p"
  by (simp add: find_note_def note_by_id_def freshNotes_def split: option.splits bind_splits)

lemma in_domain_safe:
  assumes "list_all (in_domain r) (freshNotes A r p)"
  shows "safe_note (ro_trackId r) (ro_clipId r) (mode_patch r mode) i (getDocument A p)"
proof -
  have "has_fields (mode_patch r mode x) n" if "in_domain r n" for n x
    using that
    by (cases x; cases mode) (auto simp: in_domain_def has_fields_def mode_patch_def vel_patch_def len_patch_def
        move_patch_def no_patch_def split: if_splits)
  moreover have "in_domain r n" if "note_by_id A r i p = Some n" for n
    using assms that by (auto simp: note_by_id_def list_all_iff dest!: find_Some_pred)
  ultimately show ?thesis by (simp add: safe_note_def find_note_fresh)
qed

lemma roll_onChange_keeps [simp]: "rs_project (snd (roll_onChange A st)) = snd (sendLastChange (rs_project st))"
  by (auto simp: roll_onChange_def split_beta renderPianoRoll_def Let_def split: option.splits)

text \<open>C9. A gesture on the notes of a clip, whatever the number of notes and of moves of the pointer, is at
  most one undo: when it left a trace in the journal, one undo gives back the document it started on;
  when it did not, it changed nothing.
\<close>

theorem note_gesture_is_one_undo:
  assumes "change_law A" and "idle (rs_project st)" and "undoDepth (ps_journal (rs_project st)) < 100"
    and "rs_drag st = None" and "list_all (in_domain (rs_roll st)) (freshNotes A (rs_roll st) (rs_project st))"
  shows "let p = rs_project st; p' = rs_project (roll_gesture A press es st) in
    idle p' \<and>
    (undoDepth (ps_journal p') = undoDepth (ps_journal p) \<and> getDocument A p' = getDocument A p \<or>
     undoDepth (ps_journal p') = undoDepth (ps_journal p) + 1 \<and>
     getDocument A (fst (undo A us p')) = getDocument A p \<and>
     undoDepth (ps_journal (fst (undo A us p'))) = undoDepth (ps_journal p))"
proof -
  let ?p = "rs_project st" and ?r = "rs_roll st"
  define s1 where "s1 = roll_moves A es (roll_pointerdown A press st)"
  have inv: "in_roll_gesture A ?r ?p (pp_pointerId press) s1"
    unfolding s1_def using moves_in_gesture [OF assms(1,2) press_in_gesture [OF assms(4)]] .
  define p' where "p' = rs_project (roll_gesture A press es st)"
  show ?thesis
  proof (cases "rs_drag s1")
    case None
    then show ?thesis
      using inv assms(2) by (simp add: roll_gesture_def s1_def [symmetric] roll_endDrag_def in_roll_gesture_def)
  next
    case (Some d)
    then have p': "p' = (let q = if dr_grouped d then endUndoGroup (rs_project s1) else rs_project s1 in
        if dr_moved d then snd (sendLastChange q) else q)"
      using inv by (auto simp: p'_def roll_gesture_def s1_def [symmetric] roll_endDrag_def in_roll_gesture_def Let_def)
    show ?thesis
    proof (cases "dr_grouped d")
      case False
      then have "ps_journal p' = ps_journal ?p" "getDocument A p' = getDocument A ?p"
        using inv Some p' by (auto simp: in_roll_gesture_def Let_def)
      then show ?thesis using assms(2) by (simp add: Let_def p'_def [symmetric] idle_def)
    next
      case True
      then obtain M where M: "in_family A (\<lambda>i x. UpdateNote (ro_trackId ?r) (ro_clipId ?r) i (mode_patch ?r (dr_mode d) x)) ?p M
          (rs_project s1)"
        using inv Some by (auto simp: in_roll_gesture_def roll_writes_def)
      have same: "ps_doc p' = ps_doc (endUndoGroup (rs_project s1))" "ps_journal p' = ps_journal (endUndoGroup (rs_project s1))"
        using inv Some p' True by (simp_all add: in_roll_gesture_def Let_def sendLastChange_all)
      from note_writes.family_amounts [OF assms(1,2) M assms(3) in_domain_safe [OF assms(5)] same, of us]
      have "idle p'" "getDocument A p' = getDocument A (rs_project s1)"
          "undoDepth (ps_journal p') = undoDepth (ps_journal ?p) + (if M = [] then 0 else 1)"
          "M \<noteq> [] \<Longrightarrow> getDocument A (fst (undo A us p')) = getDocument A ?p \<and>
            undoDepth (ps_journal (fst (undo A us p'))) = undoDepth (ps_journal ?p)"
        by blast+
      moreover have "getDocument A (rs_project s1) = getDocument A ?p" if "M = []"
        using M that by (simp add: in_family_def writes_def)
      ultimately show ?thesis unfolding Let_def p'_def [symmetric] by (cases "M = []") simp_all
    qed
  qed
qed

section \<open>The bounds of a move\<close>

text \<open>A note inside the grid, and its place after a move.\<close>

definition fits_grid :: "jsnum \<Rightarrow> jsnum \<Rightarrow> note_before \<Rightarrow> bool" where
  "fits_grid ds dp b \<longleftrightarrow>
     js_le (js_int 0) (js_add (bf_startStep b) ds) \<and> js_le (js_int 1) (bf_lenSteps b) \<and>
     js_le (js_add (js_add (bf_startStep b) ds) (bf_lenSteps b)) (js_int STEPS) \<and>
     js_le (js_int LOW) (js_add (bf_pitch b) dp) \<and> js_le (js_add (bf_pitch b) dp) (js_int HIGH)"

definition finite_before :: "note_before \<Rightarrow> bool" where
  "finite_before b \<longleftrightarrow> js_finite (bf_pitch b) \<and> js_finite (bf_startStep b) \<and> js_finite (bf_lenSteps b)"

text \<open>Between zero and the delta \<open>v\<close> of the pointer.\<close>

fun towards :: "jsnum \<Rightarrow> jsnum \<Rightarrow> bool" where
  "towards (Fin v) (Fin x) = (0 \<le> x \<and> x \<le> v \<or> v \<le> x \<and> x \<le> 0)"
| "towards _ _ = False"

lemma js_clamp_Fin: "js_clamp (Fin a) (Fin b) (Fin x) = Fin (max a (min b x))"
  by (simp add: js_defs max_def min_def)

lemma bound_delta_fits:
  assumes "fits_grid (Fin 0) (Fin 0) b" and "finite_before b" and "bound_delta b (Fin ds, Fin dp) = (es, ep)"
  shows "fits_grid es ep b \<and> towards (Fin ds) es \<and> towards (Fin dp) ep"
proof -
  obtain p s l v where b: "b = \<lparr>bf_pitch = Fin p, bf_startStep = Fin s, bf_lenSteps = Fin l, bf_vel = v\<rparr>"
    using assms(2) by (cases b; cases "bf_pitch b"; cases "bf_startStep b"; cases "bf_lenSteps b")
      (auto simp: finite_before_def)
  show ?thesis
    using assms(1,3)
    by (auto simp: b fits_grid_def bound_delta_def js_clamp_Fin js_sub_def STEPS_def LOW_def HIGH_def max_def min_def)
qed

lemma towards_fits:
  assumes "fits_grid (Fin 0) (Fin 0) b" and "finite_before b" and "fits_grid ds dp b"
    and "towards ds es" and "towards dp ep"
  shows "fits_grid es ep b"
proof -
  obtain p s l v where b: "b = \<lparr>bf_pitch = Fin p, bf_startStep = Fin s, bf_lenSteps = Fin l, bf_vel = v\<rparr>"
    using assms(2) by (cases b; cases "bf_pitch b"; cases "bf_startStep b"; cases "bf_lenSteps b")
      (auto simp: finite_before_def)
  show ?thesis
    using assms(1,3-5) by (cases ds; cases es; cases dp; cases ep) (auto simp: b fits_grid_def)
qed

lemma towards_Fin: "towards v x \<Longrightarrow> \<exists>w y. v = Fin w \<and> x = Fin y"
  by (cases v; cases x) auto

lemma towards_trans: "towards u v \<Longrightarrow> towards v w \<Longrightarrow> towards u w"
  by (cases u; cases v; cases w) auto

lemma bound_all:
  assumes "list_all (fits_grid (Fin 0) (Fin 0)) bs" and "list_all finite_before bs"
  shows "case fold bound_delta bs (Fin ds, Fin dp) of
    (es, ep) \<Rightarrow> towards (Fin ds) es \<and> towards (Fin dp) ep \<and> list_all (fits_grid es ep) bs"
  using assms
proof (induction bs arbitrary: ds dp)
  case Nil
  then show ?case by auto
next
  case (Cons b bs)
  obtain es ep where b: "bound_delta b (Fin ds, Fin dp) = (es, ep)" by (cases "bound_delta b (Fin ds, Fin dp)")
  then have t: "fits_grid es ep b" "towards (Fin ds) es" "towards (Fin dp) ep"
    using bound_delta_fits [OF _ _ b] Cons.prems by auto
  then obtain x y where xy: "es = Fin x" "ep = Fin y" by (meson towards_Fin)
  obtain fs fp where f: "fold bound_delta bs (es, ep) = (fs, fp)" by (cases "fold bound_delta bs (es, ep)")
  have IH: "towards es fs" "towards ep fp" "list_all (fits_grid fs fp) bs"
    using Cons.IH [of x y] Cons.prems f by (auto simp: xy)
  have "fits_grid fs fp b" using towards_fits [OF _ _ t(1) IH(1,2)] Cons.prems by auto
  then show ?case using IH t towards_trans [OF t(2) IH(1)] towards_trans [OF t(3) IH(2)] by (simp add: b f)
qed

lemma js_div_pos: "js_finite a \<Longrightarrow> js_lt (js_int 0) w \<Longrightarrow> js_finite w \<Longrightarrow> js_finite (js_div a w)"
  by (cases a; cases w) auto

lemma js_finite_Fin: "js_finite v \<longleftrightarrow> (\<exists>x. v = Fin x)"
  by (cases v) auto


section \<open>Addresses\<close>

lemma freshNotes_upd:
  assumes "getDocument A q = upd_note (ro_trackId r) (ro_clipId r) i f (getDocument A p)"
  shows "freshNotes A r q = update_first (\<lambda>n. n_id n = Some i) f (freshNotes A r p)"
  unfolding freshNotes_def assms by (auto simp: upd_note_def clip.get_upd or_else_def split: option.splits)

lemma freshNotes_put:
  assumes "change_law A"
  shows "freshNotes A r (snd (put_note A r i patch (changed, p))) =
    update_first (\<lambda>n. n_id n = Some i) (apply_patch patch) (freshNotes A r p)"
proof (cases "note_by_id A r i p")
  case None
  then have "do_op A (UpdateNote (ro_trackId r) (ro_clipId r) i patch) p = p"
    using do_op_doc_step [OF assms, of "UpdateNote (ro_trackId r) (ro_clipId r) i patch" p]
    by (simp add: doc_step_UpdateNote find_note_fresh)
  then show ?thesis
    using None by (simp add: put_note_def perform_updateNote note_by_id_def update_first_none)
next
  case (Some n)
  have "getDocument A (do_op A (UpdateNote (ro_trackId r) (ro_clipId r) i patch) p) =
      upd_note (ro_trackId r) (ro_clipId r) i (apply_patch patch) (getDocument A p)"
    using do_op_doc_step [OF assms, of "UpdateNote (ro_trackId r) (ro_clipId r) i patch" p] Some
    by (simp add: doc_step_UpdateNote find_note_fresh)
  from freshNotes_upd [OF this] show ?thesis by (simp add: put_note_def perform_updateNote)
qed

lemma in_update_first: "x \<in> set (update_first P f xs) \<Longrightarrow> x \<in> set xs \<or> (\<exists>y\<in>set xs. P y \<and> x = f y)"
  by (induction xs) (auto split: if_splits)


text \<open>Where a note of the document comes from, in the course of a move by \<open>ds\<close> and \<open>dp\<close>.\<close>

definition moved_to :: "roll \<Rightarrow> jsnum \<Rightarrow> jsnum \<Rightarrow> (string \<times> note_before) list \<Rightarrow> midi_note \<Rightarrow> bool" where
  "moved_to r ds dp bs n \<longleftrightarrow> (\<exists>(i, b)\<in>set bs. n_id n = Some i \<and> n_pitch n = js_add (bf_pitch b) dp \<and>
     startOf r n = js_mul (js_add (bf_startStep b) ds) (ro_stepLen r))"

definition from_notes :: "roll \<Rightarrow> jsnum \<Rightarrow> jsnum \<Rightarrow> (string \<times> note_before) list \<Rightarrow> midi_note list \<Rightarrow> midi_note list \<Rightarrow> bool" where
  "from_notes r ds dp bs old new \<longleftrightarrow> (\<forall>n\<in>set new. n \<in> set old \<or> moved_to r ds dp bs n)"

lemma move_note_from:
  assumes "change_law A" and "(i, b) \<in> set bs" and "from_notes r ds dp bs old (freshNotes A r p)"
  shows "from_notes r ds dp bs old (freshNotes A r (snd (move_note A r ds dp (i, b) (changed, p))))"
proof -
  let ?f = "apply_patch (move_patch r (js_add (bf_pitch b) dp) (js_mul (js_add (bf_startStep b) ds) (ro_stepLen r)))"
  have "moved_to r ds dp bs (?f n)" if "n_id n = Some i" for n
    unfolding moved_to_def using assms(2) that
    by (intro bexI [of _ "(i, b)"]) (auto simp: apply_patch_def move_patch_def no_patch_def startOf_def patch_option_def)
  then have "from_notes r ds dp bs old (update_first (\<lambda>n. n_id n = Some i) ?f (freshNotes A r p))"
    using assms(3) unfolding from_notes_def by (auto dest!: in_update_first)
  then show ?thesis
    using assms(3) by (auto simp: move_note_def Let_def freshNotes_put [OF assms(1)] split: option.splits)
qed

lemma fold_move_from:
  assumes "change_law A" and "set xs \<subseteq> set bs" and "from_notes r ds dp bs old (freshNotes A r p)"
  shows "from_notes r ds dp bs old (freshNotes A r (snd (fold (move_note A r ds dp) xs (changed, p))))"
  using assms(2,3)
proof (induction xs arbitrary: changed p)
  case (Cons x xs)
  obtain i b where x: "x = (i, b)" by (cases x)
  show ?case
    using Cons.IH [of "snd (move_note A r ds dp (i, b) (changed, p))" "fst (move_note A r ds dp (i, b) (changed, p))"]
      move_note_from [OF assms(1) _ Cons.prems(2), of i b changed] Cons.prems(1)
    by (simp add: x)
qed simp

text \<open>No selected note has the pitch and the start of a note that is not selected.\<close>

definition same_address :: "roll \<Rightarrow> midi_note \<Rightarrow> midi_note \<Rightarrow> bool" where
  "same_address r m n \<longleftrightarrow> js_eq (n_pitch m) (n_pitch n) \<and> js_eq (startOf r m) (startOf r n)"

definition addresses_apart :: "'d automerge \<Rightarrow> 'd roll_state \<Rightarrow> bool" where
  "addresses_apart A st \<longleftrightarrow> (let ns = freshNotes A (rs_roll st) (rs_project st) in
     \<forall>m\<in>set ns. \<forall>n\<in>set ns. is_selected (rs_sel st) n \<longrightarrow> \<not> is_selected (rs_sel st) m \<longrightarrow> \<not> same_address (rs_roll st) m n)"

lemma apart_after_move:
  assumes "addresses_apart A st" and "\<not> collides A (rs_roll st) d ds dp st"
    and "fst ` set (dr_before d) \<subseteq> set (rs_sel st) - {[]}"
    and "from_notes (rs_roll st) ds dp (dr_before d) (freshNotes A (rs_roll st) (rs_project st)) (freshNotes A (rs_roll st) p)"
  shows "addresses_apart A (st\<lparr>rs_project := p\<rparr>)"
  unfolding addresses_apart_def Let_def
proof (intro ballI impI)
  let ?r = "rs_roll st" and ?old = "freshNotes A (rs_roll st) (rs_project st)"
  fix m n
  assume m: "m \<in> set (freshNotes A (rs_roll (st\<lparr>rs_project := p\<rparr>)) (rs_project (st\<lparr>rs_project := p\<rparr>)))"
    "\<not> is_selected (rs_sel (st\<lparr>rs_project := p\<rparr>)) m"
    and n: "n \<in> set (freshNotes A (rs_roll (st\<lparr>rs_project := p\<rparr>)) (rs_project (st\<lparr>rs_project := p\<rparr>)))"
    "is_selected (rs_sel (st\<lparr>rs_project := p\<rparr>)) n"
  have "is_selected (rs_sel st) x" if "moved_to ?r ds dp (dr_before d) x" for x
    using that assms(3) by (force simp: moved_to_def is_selected_def)
  then have m_old: "m \<in> set ?old" using m assms(4) by (auto simp: from_notes_def)
  show "\<not> same_address (rs_roll (st\<lparr>rs_project := p\<rparr>)) m n"
  proof (cases "n \<in> set ?old")
    case True
    then show ?thesis using assms(1) m m_old n(2) by (simp add: addresses_apart_def Let_def)
  next
    case False
    then have "moved_to ?r ds dp (dr_before d) n" using n(1) assms(4) by (auto simp: from_notes_def)
    then show ?thesis
      using assms(2) m(2) m_old by (force simp: collides_def moved_to_def same_address_def list_ex_iff Let_def)
  qed
qed

lemma apart_same:
  "addresses_apart A st' \<Longrightarrow> rs_roll st = rs_roll st' \<Longrightarrow> rs_sel st = rs_sel st' \<Longrightarrow>
   getDocument A (rs_project st) = getDocument A (rs_project st') \<Longrightarrow> addresses_apart A st"
  by (simp add: addresses_apart_def freshNotes_def)

text \<open>C19. A move never puts a selected note on the address of a note that is not selected: when the two kinds
  of notes have different addresses, they still have after any move of the pointer, refused or not.
\<close>

theorem move_keeps_addresses_apart:
  assumes "change_law A" and "rs_drag st = Some d" and "dr_mode d = RollMove"
    and "fst ` set (dr_before d) \<subseteq> set (rs_sel st) - {[]}" and "addresses_apart A st"
  shows "addresses_apart A (snd (roll_pointermove A e st))"
proof -
  have same: "getDocument A (beginUndoGroup q) = getDocument A q" for q
    by (simp add: beginUndoGroup_def)
  define ds where "ds = (if dr_moved d then (d, st) else beginGesture d st)"
  obtain d' st' where ds': "ds = (d', st')" by (cases ds)
  have d': "dr_mode d' = RollMove" "dr_before d' = dr_before d" "rs_roll st' = rs_roll st" "rs_sel st' = rs_sel st"
      "getDocument A (rs_project st') = getDocument A (rs_project st)" "rs_drag st' = rs_drag st"
    using assms(3) ds' by (auto simp: ds_def beginGesture_def same split: if_splits)
  have apart: "addresses_apart A st'" using apart_same [OF assms(5)] d' by simp
  obtain x y where delta: "move_delta d' e = (x, y)" by (cases "move_delta d' e")
  have moved: "addresses_apart A (st'\<lparr>rs_project := snd (fold (move_note A (rs_roll st') x y) (dr_before d') (c, rs_project st'))\<rparr>)"
    if "\<not> collides A (rs_roll st') d' x y st'" for c
  proof (rule apart_after_move [OF apart that])
    show "fst ` set (dr_before d') \<subseteq> set (rs_sel st') - {[]}" using assms(4) d' by simp
    show "from_notes (rs_roll st') x y (dr_before d') (freshNotes A (rs_roll st') (rs_project st'))
      (freshNotes A (rs_roll st') (snd (fold (move_note A (rs_roll st') x y) (dr_before d') (c, rs_project st'))))"
      by (rule fold_move_from [OF assms(1)]) (simp_all add: from_notes_def)
  qed
  have "roll_edit A d' e st' =
      (MoveKey x y, if collides A (rs_roll st') d' x y st' then None else Some (move_note A (rs_roll st') x y))"
    using d'(1) delta by (simp add: roll_edit_def Let_def)
  then show ?thesis
    using assms(2,5) d' ds' apart moved [of False]
    by (auto simp: roll_pointermove_def ds_def [symmetric] Let_def split_beta
        intro: apart_same [OF apart] apart_same [OF moved])
qed

section \<open>A clip with three notes\<close>

definition example_note :: "string \<Rightarrow> int \<Rightarrow> int \<Rightarrow> midi_note" where
  "example_note i p s = \<lparr>n_id = Some i, n_pitch = js_int p, n_velocity = js_int 100, n_startSample = Some (js_int s),
     n_lengthSamples = Some (js_int 6000), n_startTick = None, n_lengthTick = None\<rparr>"

definition example_notes :: "midi_note list" where
  "example_notes = [example_note ''n1'' 60 0, example_note ''n2'' 64 12000, example_note ''n3'' 62 12000]"

definition example_midi :: clip where
  "example_midi = \<lparr>c_id = ''m'', c_name = None, c_assetHash = [], c_startSample = Some (js_int 0),
     c_lengthSamples = Some (js_int 96000), c_offsetSamples = Some (js_int 0), c_fadeInSamples = None,
     c_fadeOutSamples = None, c_notes = Some example_notes, c_sceneId = None, c_startTick = None, c_lengthTick = None\<rparr>"

definition example_roll_doc :: project where
  "example_roll_doc = (createEmptyDocument (js_int 48000))\<lparr>d_tracks := [example_track\<lparr>t_clips := [example_midi]\<rparr>]\<rparr>"

definition example_roll_state :: "project roll_state" where
  "example_roll_state =
     \<lparr>rs_roll = \<lparr>ro_trackId = t_id example_track, ro_clipId = ''m'', ro_musical = False, ro_stepLen = js_int 6000\<rparr>,
      rs_project = \<lparr>ps_doc = example_roll_doc, ps_pending = [], ps_journal = empty_journal\<rparr>,
      rs_sel = [''n1'', ''n2''], rs_painted = example_notes, rs_active = False, rs_drag = None\<rparr>"

definition example_press :: roll_press where
  "example_press = \<lparr>pp_cell = Some (60, 0), pp_button = 0, pp_pointerId = 1, pp_x = js_int 5, pp_y = js_int 100,
     pp_shift = False, pp_ctrl = False, pp_alt = False, pp_right = js_int 19, pp_width = js_int 19, pp_height = js_int 9\<rparr>"

definition example_screen :: screen_rect where
  "example_screen = \<lparr>sr_left = js_int 0, sr_right = js_int 0, sr_top = js_int 0, sr_bottom = js_int 0\<rparr>"

definition example_motion :: "int \<Rightarrow> int \<Rightarrow> roll_motion" where
  "example_motion x y = \<lparr>rm_pointerId = 1, rm_x = js_int x, rm_y = js_int y, rm_grid = example_screen,
     rm_cell = (\<lambda>_. example_screen)\<rparr>"

definition example_motions :: "roll_motion list" where
  "example_motions = [example_motion 46 100, example_motion 5 121, example_motion 900 90]"

lemma example_roll_start:
  "getDocument local_automerge (rs_project example_roll_state) = example_roll_doc"
  "idle (rs_project example_roll_state)" "undoDepth (ps_journal (rs_project example_roll_state)) = 0"
  "rs_drag example_roll_state = None" "rs_sel example_roll_state = [''n1'', ''n2'']"
  by (simp_all add: getDocument_def local_automerge_def example_roll_state_def idle_def empty_journal_def undoDepth_def)

lemma example_roll_domain:
  "list_all (in_domain (rs_roll example_roll_state)) (freshNotes local_automerge (rs_roll example_roll_state) (rs_project example_roll_state))"
  by code_simp

lemma example_roll_moves:
  "undoDepth (ps_journal (rs_project (roll_gesture local_automerge example_press example_motions example_roll_state))) = 1"
  by code_simp

theorem note_gesture_is_one_undo_witness:
  "getDocument local_automerge (fst (undo local_automerge []
     (rs_project (roll_gesture local_automerge example_press example_motions example_roll_state)))) = example_roll_doc"
  using note_gesture_is_one_undo [OF local_change_law example_roll_start(2) _ example_roll_start(4) example_roll_domain,
    of example_press example_motions "[]"] example_roll_moves
  by (simp add: Let_def example_roll_start)

text \<open>The drag of the example, after its press.\<close>

definition example_roll_pressed :: "project roll_state" where
  "example_roll_pressed = roll_pointerdown local_automerge example_press example_roll_state"

definition example_roll_drag :: roll_drag where
  "example_roll_drag =
     \<lparr>dr_pointerId = 1, dr_mode = RollMove, dr_x0 = js_int 5, dr_y0 = js_int 100, dr_cellW = js_int 20, dr_rowH = js_int 10,
      dr_before = [(''n1'', \<lparr>bf_pitch = js_int 60, bf_startStep = js_int 0, bf_lenSteps = js_int 1, bf_vel = js_int 100\<rparr>),
        (''n2'', \<lparr>bf_pitch = js_int 64, bf_startStep = js_int 2, bf_lenSteps = js_int 1, bf_vel = js_int 100\<rparr>)],
      dr_last = NoKey, dr_adding = False, dr_moved = False, dr_grouped = False\<rparr>"

lemma example_roll_pressed_drag: "rs_drag example_roll_pressed = Some example_roll_drag"
  by code_simp


lemma example_roll_apart:
  "addresses_apart local_automerge example_roll_pressed" "rs_sel example_roll_pressed = [''n1'', ''n2'']"
  by code_simp+

theorem move_keeps_addresses_apart_witness:
  "addresses_apart local_automerge (snd (roll_pointermove local_automerge (example_motion 5 121) example_roll_pressed))"
  by (rule move_keeps_addresses_apart [OF local_change_law example_roll_pressed_drag _ _ example_roll_apart(1)])
    (simp_all add: example_roll_drag_def example_roll_apart(2))

text \<open>
  A move is refused on the address of a note that is not selected only: two selected notes of one pitch
  that start in the same step are moved to the start of one step, so to one address.
\<close>

definition crowded_state :: "project roll_state" where
  "crowded_state = example_roll_state\<lparr>rs_sel := [''n1'', ''n4''],
     rs_project := \<lparr>ps_doc = example_roll_doc\<lparr>d_tracks := [example_track\<lparr>t_clips := [example_midi\<lparr>c_notes :=
       Some [example_note ''n1'' 60 0, example_note ''n4'' 60 3000]\<rparr>]\<rparr>]\<rparr>,
       ps_pending = [], ps_journal = empty_journal\<rparr>\<rparr>"

lemma moved_notes_collapse:
  "map (startOf (rs_roll crowded_state)) (freshNotes local_automerge (rs_roll crowded_state)
     (rs_project (roll_gesture local_automerge example_press [example_motion 26 100] crowded_state))) = [js_int 6000, js_int 6000]"
  by code_simp

end
