(* ===== verification/Wav.thy ===== *)
theory Wav
  imports Base64
begin

text \<open>
  Audio files: the writer of \<open>web/src/app/placement.ts\<close> (\<open>encodeWav16\<close>), which puts an imported sound in the
  canonical form of the store, and the reader of \<open>web/scripts/ear-analyze.mjs\<close> (\<open>readWav\<close>). A buffer is
  the list of its bytes; the numbers are little-endian words.
\<close>

unbundle bit_operations_syntax

section \<open>Words and bytes\<close>

definition le16 :: "16 word \<Rightarrow> bytes" where
  "le16 w = [ucast w, ucast (drop_bit 8 w)]"

definition le32 :: "32 word \<Rightarrow> bytes" where
  "le32 w = [ucast w, ucast (drop_bit 8 w), ucast (drop_bit 16 w), ucast (drop_bit 24 w)]"

definition readUInt16LE :: "bytes \<Rightarrow> nat \<Rightarrow> 16 word" where
  "readUInt16LE buf off = ucast (buf ! off) OR push_bit 8 (ucast (buf ! (off + 1)))"

definition readUInt32LE :: "bytes \<Rightarrow> nat \<Rightarrow> 32 word" where
  "readUInt32LE buf off = ucast (buf ! off) OR push_bit 8 (ucast (buf ! (off + 1))) OR
     push_bit 16 (ucast (buf ! (off + 2))) OR push_bit 24 (ucast (buf ! (off + 3)))"

text \<open>\<open>ToUint32\<close> and its kin: the number is truncated, then taken modulo the width.\<close>

definition js_word :: "jsnum \<Rightarrow> 'a::len word" where
  "js_word v = (case v of Fin x \<Rightarrow> word_of_int (if 0 \<le> x then \<lfloor>x\<rfloor> else - \<lfloor>- x\<rfloor>) | _ \<Rightarrow> 0)"

definition ascii_bytes :: "string \<Rightarrow> bytes" where
  "ascii_bytes s = map (\<lambda>c. of_nat (of_char c)) s"

text \<open>A setter of a \<open>DataView\<close>, inside the buffer.\<close>

definition put_bytes :: "nat \<Rightarrow> bytes \<Rightarrow> bytes \<Rightarrow> bytes" where
  "put_bytes off bs buf = take off buf @ bs @ drop (off + length bs) buf"

section \<open>Writing\<close>

record audio_buffer =
  ab_sampleRate :: jsnum
  ab_length :: nat
  ab_channels :: "jsnum list list"

definition wav_header :: "nat \<Rightarrow> nat \<Rightarrow> jsnum \<Rightarrow> (nat \<times> bytes) list" where
  "wav_header ch frames rate =
     [(0, ascii_bytes ''RIFF''), (4, le32 (of_nat (36 + frames * ch * 2))), (8, ascii_bytes ''WAVE''),
      (12, ascii_bytes ''fmt ''), (16, le32 16), (20, le16 1), (22, le16 (of_nat ch)), (24, le32 (js_word rate)),
      (28, le32 (js_word (js_mul rate (js_int (int (ch * 2)))))), (32, le16 (of_nat (ch * 2))), (34, le16 16),
      (36, ascii_bytes ''data''), (40, le32 (of_nat (frames * ch * 2)))]"

definition sample16 :: "jsnum \<Rightarrow> 16 word" where
  "sample16 v = js_word (js_round (js_mul (js_max (js_int (- 1)) (js_min (js_int 1) v)) (js_int 32767)))"

definition encodeWav16 :: "audio_buffer \<Rightarrow> bytes" where
  "encodeWav16 buf =
     (let ch = min 2 (length (ab_channels buf));
          frames = ab_length buf;
          out = replicate (44 + frames * ch * 2) 0;
          v = fold (\<lambda>(off, bs). put_bytes off bs) (wav_header ch frames (ab_sampleRate buf)) out
      in snd (fold (\<lambda>(i, c) (off, v). (off + 2, put_bytes off (le16 (sample16 (ab_channels buf ! c ! i))) v))
           (concat (map (\<lambda>i. map (\<lambda>c. (i, c)) [0..<ch]) [0..<frames])) (44, v)))"

section \<open>Reading\<close>

text \<open>\<open>toString('ascii')\<close> drops the eighth bit.\<close>

definition ascii_at :: "bytes \<Rightarrow> nat \<Rightarrow> string" where
  "ascii_at buf pos = map (\<lambda>b. char_of (unat b mod 128)) (take 4 (drop pos buf))"

record wav_format =
  wf_format :: nat
  wf_channels :: nat
  wf_sampleRate :: nat
  wf_bits :: nat

definition read_format :: "bytes \<Rightarrow> nat \<Rightarrow> wav_format js_result" where
  "read_format buf pos =
     (if pos + 24 \<le> length buf
      then Inr \<lparr>wf_format = unat (readUInt16LE buf (pos + 8)), wf_channels = unat (readUInt16LE buf (pos + 10)),
        wf_sampleRate = unat (readUInt32LE buf (pos + 12)), wf_bits = unat (readUInt16LE buf (pos + 22))\<rparr>
      else Inl RangeError)"

text \<open>The loop over the chunks: the format, and the offset and the length of the data.\<close>

function read_chunks ::
  "bytes \<Rightarrow> nat \<Rightarrow> wav_format option \<times> (nat \<times> nat) option \<Rightarrow> (wav_format option \<times> (nat \<times> nat) option) js_result" where
  "read_chunks buf pos st =
     (if pos + 8 \<le> length buf
      then
        (let i = ascii_at buf pos; size = unat (readUInt32LE buf (pos + 4)) in
         js_bind
           (if i = ''fmt '' then js_bind (read_format buf pos) (\<lambda>f. Inr (Some f, snd st))
            else if i = ''data'' then Inr (fst st, Some (pos + 8, min size (length buf - (pos + 8))))
            else Inr st)
           (\<lambda>st. read_chunks buf (pos + 8 + size + size mod 2) st))
      else Inr st)"
  by pat_completeness auto

termination
  by (relation "measure (\<lambda>(buf, pos, st). length buf - pos)") auto

declare read_chunks.simps [simp del]

text \<open>A number of single precision, exactly.\<close>

definition float32 :: "32 word \<Rightarrow> jsnum" where
  "float32 w =
     (let neg = bit w 31; e = unat (take_bit 8 (drop_bit 23 w)); m = unat (take_bit 23 w);
          v = (if e = 255 then (if m = 0 then PInf else NaN)
               else if e = 0 then Fin (of_nat m / 2 ^ 149)
               else if e < 150 then Fin (of_nat (2 ^ 23 + m) / 2 ^ (150 - e))
               else Fin (of_nat (2 ^ 23 + m) * 2 ^ (e - 150)))
      in if neg then js_neg v else v)"

definition supported :: "nat \<Rightarrow> nat \<Rightarrow> bool" where
  "supported format bits \<longleftrightarrow> format = 3 \<and> bits = 32 \<or> format = 1 \<and> (bits = 16 \<or> bits = 24 \<or> bits = 32)"

definition read_sample :: "nat \<Rightarrow> nat \<Rightarrow> bytes \<Rightarrow> nat \<Rightarrow> jsnum" where
  "read_sample format bits buf off =
     (if format = 3 then float32 (readUInt32LE buf off)
      else if bits = 16 then js_div (js_int (sint (readUInt16LE buf off))) (js_int 32768)
      else if bits = 24
      then js_div (js_int (sint (signed_drop_bit 8 (push_bit 8 (ucast (buf ! off) OR push_bit 8 (ucast (buf ! (off + 1))) OR
        push_bit 16 (ucast (buf ! (off + 2))) :: 32 word))))) (js_int 8388608)
      else js_div (js_int (sint (readUInt32LE buf off))) (js_int 2147483648))"

record wav =
  wv_sampleRate :: nat
  wv_channels :: "jsnum list list"
  wv_frames :: jsnum

text \<open>
  A number of frames that is not finite comes from a format of no channel or of no bit: with no
  channel the loop over the frames does not end (\<open>None\<close>), with no bit the array cannot be made.
\<close>

definition readWav :: "bytes \<Rightarrow> wav js_result option" where
  "readWav buf =
     (if length buf < 44 \<or> ascii_at buf 0 \<noteq> ''RIFF'' \<or> ascii_at buf 8 \<noteq> ''WAVE''
      then Some (Inl (PlainError ''not a RIFF/WAVE file''))
      else
        (case read_chunks buf 12 (None, None) of
           Inl e \<Rightarrow> Some (Inl e)
         | Inr (Some f, Some (dataOff, dataLen)) \<Rightarrow>
             (let bytesPer = js_div (js_int (int (wf_bits f))) (js_int 8);
                  channels = wf_channels f;
                  frames = js_floor (js_div (js_int (int dataLen)) (js_mul bytesPer (js_int (int channels))))
              in case frames of
                   Fin k \<Rightarrow>
                     (if nat \<lfloor>k\<rfloor> * channels \<noteq> 0 \<and> \<not> supported (wf_format f) (wf_bits f)
                      then Some (Inl (PlainError ''unsupported format''))
                      else Some (Inr \<lparr>wv_sampleRate = wf_sampleRate f,
                        wv_channels = map (\<lambda>c. map (\<lambda>i. read_sample (wf_format f) (wf_bits f) buf
                          (dataOff + (i * channels + c) * (wf_bits f div 8))) [0..<nat \<lfloor>k\<rfloor>]) [0..<channels],
                        wv_frames = frames\<rparr>))
                 | PInf \<Rightarrow> if channels = 0 then None else Some (Inl RangeError)
                 | _ \<Rightarrow> Some (Inr \<lparr>wv_sampleRate = wf_sampleRate f, wv_channels = replicate channels [], wv_frames = frames\<rparr>))
         | Inr _ \<Rightarrow> Some (Inl (PlainError ''missing fmt/data chunk''))))"

section \<open>Bytes back to words\<close>

lemma length_le [simp]: "length (le16 w) = 2" "length (le32 v) = 4"
  by (simp_all add: le16_def le32_def)

lemma nth_after [simp]: "(pre @ x # post) ! length pre = x" "(pre @ x # post) ! Suc (length pre) = (x # post) ! 1"
  by (simp_all add: nth_append)

lemma read16_at:
  assumes "drop off buf = le16 w @ post"
  shows "readUInt16LE buf off = w"
proof -
  have "off < length buf" using assms by (cases "off < length buf") (auto simp: le16_def)
  then have n: "buf ! (off + k) = (le16 w @ post) ! k" for k
    using assms by (metis nth_drop less_imp_le_nat)
  show ?thesis
    unfolding readUInt16LE_def using n [of 0] n [of 1]
    by (simp add: le16_def) (rule bit_word_eqI; auto simp: bit_simps)
qed

lemma read32_at:
  assumes "drop off buf = le32 w @ post"
  shows "readUInt32LE buf off = w"
proof -
  have "off < length buf" using assms by (cases "off < length buf") (auto simp: le32_def)
  then have n: "buf ! (off + k) = (le32 w @ post) ! k" for k
    using assms by (metis nth_drop less_imp_le_nat)
  have n': "buf ! off = ucast w" "buf ! (off + 1) = ucast (drop_bit 8 w)" "buf ! (off + 2) = ucast (drop_bit 16 w)"
    "buf ! (off + 3) = ucast (drop_bit 24 w)"
    using n [of 0] n [of 1] n [of 2] n [of 3] by (simp_all add: le32_def numeral_2_eq_2 numeral_3_eq_3)
  show ?thesis
    unfolding readUInt32LE_def n'
  proof (rule bit_word_eqI)
    fix i assume i: "i < LENGTH(32)"
    show "bit (ucast (ucast w :: 8 word) OR push_bit 8 (ucast (ucast (drop_bit 8 w) :: 8 word)) OR
        push_bit 16 (ucast (ucast (drop_bit 16 w) :: 8 word)) OR
        push_bit 24 (ucast (ucast (drop_bit 24 w) :: 8 word) :: 32 word)) i = bit w i"
      by (cases "i < 8"; cases "i < 16"; cases "i < 24") (use i in \<open>auto simp: bit_simps\<close>)
  qed
qed

section \<open>The bytes that are written\<close>

text \<open>Writes one after the other, from \<open>off\<close> on.\<close>

fun consecutive :: "nat \<Rightarrow> (nat \<times> bytes) list \<Rightarrow> bool" where
  "consecutive off [] = True"
| "consecutive off ((k, bs) # ws) = (k = off \<and> consecutive (off + length bs) ws)"

lemma put_consecutive:
  "consecutive (length pre) ws \<Longrightarrow> length (concat (map snd ws)) \<le> n \<Longrightarrow>
   fold (\<lambda>(off, bs). put_bytes off bs) ws (pre @ replicate n 0) =
     pre @ concat (map snd ws) @ replicate (n - length (concat (map snd ws))) 0"
proof (induction ws arbitrary: pre n)
  case (Cons w ws)
  obtain bs where w: "w = (length pre, bs)" using Cons.prems(1) by (cases w) auto
  have len: "length bs \<le> n" "length (concat (map snd ws)) \<le> n - length bs" using Cons.prems(2) by (simp_all add: w)
  have step: "put_bytes (length pre) bs (pre @ replicate n 0) = (pre @ bs) @ replicate (n - length bs) 0"
    using len(1) by (simp add: put_bytes_def)
  have "consecutive (length (pre @ bs)) ws" using Cons.prems(1) by (simp add: w)
  from Cons.IH [OF this len(2)] show ?case
    by (simp add: w step diff_diff_left add.commute)
qed simp

definition frame_writes :: "audio_buffer \<Rightarrow> nat \<Rightarrow> (nat \<times> nat) list" where
  "frame_writes buf ch = concat (map (\<lambda>i. map (\<lambda>c. (i, c)) [0..<ch]) [0..<ab_length buf])"

lemma put_samples:
  "2 * length ps \<le> n \<Longrightarrow>
   snd (fold (\<lambda>(i, c) (off, v). (off + 2, put_bytes off (le16 (f i c)) v)) ps (length pre, pre @ replicate n 0)) =
     pre @ concat (map (\<lambda>(i, c). le16 (f i c)) ps) @ replicate (n - 2 * length ps) 0"
proof (induction ps arbitrary: pre n)
  case (Cons p ps)
  obtain i c where p: "p = (i, c)" by (cases p)
  have step: "put_bytes (length pre) (le16 (f i c)) (pre @ replicate n 0) = (pre @ le16 (f i c)) @ replicate (n - 2) 0"
    using Cons.prems by (simp add: put_bytes_def)
  have "2 * length ps \<le> n - 2" using Cons.prems by simp
  from Cons.IH [OF this, of "pre @ le16 (f i c)"] show ?case
    by (simp add: p step diff_diff_left)
qed simp

lemma length_frames: "length (concat (map (\<lambda>i. map (\<lambda>c. (i, c)) [0..<ch]) [0..<n])) = n * ch"
  by (simp add: length_concat comp_def sum_list_triv)

text \<open>The file: the header, then the samples.\<close>

definition wav_data :: "audio_buffer \<Rightarrow> nat \<Rightarrow> bytes" where
  "wav_data buf ch = concat (map (\<lambda>(i, c). le16 (sample16 (ab_channels buf ! c ! i)))
     (concat (map (\<lambda>i. map (\<lambda>c. (i, c)) [0..<ch]) [0..<ab_length buf])))"

lemma length_ascii [simp]: "length (ascii_bytes s) = length s"
  by (simp add: ascii_bytes_def)

lemma encodeWav16_alt:
  assumes "ch = min 2 (length (ab_channels buf))"
  shows "encodeWav16 buf = concat (map snd (wav_header ch (ab_length buf) (ab_sampleRate buf))) @ wav_data buf ch"
proof -
  let ?h = "wav_header ch (ab_length buf) (ab_sampleRate buf)"
  let ?n = "ab_length buf * ch * 2"
  have cons: "consecutive 0 ?h" "length (concat (map snd ?h)) = 44"
    by (simp_all add: wav_header_def)
  have head: "fold (\<lambda>(off, bs). put_bytes off bs) ?h (replicate (44 + ?n) 0) = concat (map snd ?h) @ replicate ?n 0"
    using put_consecutive [of "[]" ?h "44 + ?n"] cons by simp
  show ?thesis
    unfolding encodeWav16_def Let_def assms [symmetric] head wav_data_def
    using put_samples [of "concat (map (\<lambda>i. map (\<lambda>c. (i, c)) [0..<ch]) [0..<ab_length buf])" ?n
        "\<lambda>i c. sample16 (ab_channels buf ! c ! i)" "concat (map snd ?h)"] cons(2)
    by (simp add: length_frames)
qed

lemma js_word_int [simp]: "js_word (js_int k) = word_of_int k"
  by (simp add: js_word_def)

lemma js_word_nat [simp]: "js_word (Fin (of_nat n)) = of_nat n"
  by (simp add: js_word_def)

section \<open>A file that is read after it was written\<close>

lemma length_header [simp]: "length (concat (map snd (wav_header ch frames rate))) = 44"
  by (simp add: wav_header_def)

lemma length_data [simp]: "length (wav_data buf ch) = ab_length buf * ch * 2"
  by (simp add: wav_data_def length_concat comp_def case_prod_unfold sum_list_triv)

text \<open>What stands at each offset of the header.\<close>

lemma header_parts:
  assumes "buf = concat (map snd (wav_header ch frames rate)) @ data"
  shows "ascii_at buf 0 = ''RIFF''" "ascii_at buf 8 = ''WAVE''" "ascii_at buf 12 = ''fmt ''" "ascii_at buf 36 = ''data''"
    "readUInt32LE buf 16 = 16" "readUInt16LE buf 20 = 1" "readUInt16LE buf 22 = of_nat ch"
    "readUInt32LE buf 24 = js_word rate" "readUInt16LE buf 34 = 16" "readUInt32LE buf 40 = of_nat (frames * ch * 2)"
proof -
  note parts = assms wav_header_def
  show "ascii_at buf 0 = ''RIFF''" "ascii_at buf 8 = ''WAVE''" "ascii_at buf 12 = ''fmt ''" "ascii_at buf 36 = ''data''"
    by (simp_all add: parts ascii_at_def, simp_all add: ascii_bytes_def char_of_def bit_0)
  show "readUInt32LE buf 16 = 16" "readUInt16LE buf 20 = 1" "readUInt16LE buf 22 = of_nat ch"
    "readUInt32LE buf 24 = js_word rate" "readUInt16LE buf 34 = 16" "readUInt32LE buf 40 = of_nat (frames * ch * 2)"
    by (rule read32_at read16_at; simp add: parts)+
qed

text \<open>The walk over the chunks finds the format, then the data.\<close>

lemma read_chunks_written:
  assumes buf: "buf = concat (map snd (wav_header ch frames (js_int (int rate)))) @ data"
    and len: "length data = frames * ch * 2" and ch: "ch \<le> 2" and rate: "rate < 2 ^ 32" and size: "frames * ch * 2 < 2 ^ 32"
  shows "read_chunks buf 12 (None, None) =
    Inr (Some \<lparr>wf_format = 1, wf_channels = ch, wf_sampleRate = rate, wf_bits = 16\<rparr>, Some (44, frames * ch * 2))"
proof -
  note parts = header_parts [OF buf]
  have length: "length buf = 44 + frames * ch * 2" using len by (simp add: buf)
  have unat: "unat (of_nat ch :: 16 word) = ch" "unat (of_nat (frames * ch * 2) :: 32 word) = frames * ch * 2"
    "unat (of_nat rate :: 32 word) = rate"
    using of_nat_inverse [OF refl, of ch, where 'a = 16] of_nat_inverse [OF refl, of "frames * ch * 2", where 'a = 32]
      of_nat_inverse [OF refl, of rate, where 'a = 32] ch rate size by simp_all
  have format: "read_format buf 12 = Inr \<lparr>wf_format = 1, wf_channels = ch, wf_sampleRate = rate, wf_bits = 16\<rparr>"
    by (simp add: read_format_def length parts unat)
  have stop: "read_chunks buf (44 + frames * ch * 2) st = Inr st" for st
    by (subst read_chunks.simps) (simp add: length)
  have second: "read_chunks buf 36 (Some f, None) = Inr (Some f, Some (44, frames * ch * 2))" for f
    by (subst read_chunks.simps) (simp add: length parts unat stop del: of_nat_mult of_nat_numeral)
  show ?thesis
    by (subst read_chunks.simps) (simp add: length parts format second)
qed

lemma frame_at: "i < n \<Longrightarrow> c < ch \<Longrightarrow> concat (map (\<lambda>i. map (\<lambda>c. (i, c)) [0..<ch]) [0..<n]) ! (i * ch + c) = (i, c)"
proof (induction n)
  case (Suc n)
  have "i * ch + c < n * ch" if "i < n"
    using mult_le_mono1 [of "Suc i" n ch] that Suc.prems(2) by simp
  then show ?case using Suc by (cases "i < n") (simp_all add: nth_append length_frames less_Suc_eq)
qed simp

lemma drop_written:
  "k < length ps \<Longrightarrow> \<exists>post. drop (k * 2) (concat (map (\<lambda>p. le16 (g p)) ps)) = le16 (g (ps ! k)) @ post"
proof (induction ps arbitrary: k)
  case (Cons p ps)
  then show ?case by (cases k) simp_all
qed simp

lemma sample_written:
  assumes "buf = header @ wav_data b ch" "length header = 44" "i < ab_length b" "c < ch"
  shows "readUInt16LE buf (44 + (i * ch + c) * 2) = sample16 (ab_channels b ! c ! i)"
proof -
  have "i * ch + c < ab_length b * ch" using mult_le_mono1 [of "Suc i" "ab_length b" ch] assms(3,4) by simp
  then obtain post where "drop ((i * ch + c) * 2) (wav_data b ch) = le16 (sample16 (ab_channels b ! c ! i)) @ post"
    using drop_written [of "i * ch + c" "concat (map (\<lambda>i. map (\<lambda>c. (i, c)) [0..<ch]) [0..<ab_length b])"
        "\<lambda>(i, c). sample16 (ab_channels b ! c ! i)"] frame_at [OF assms(3,4)]
    unfolding wav_data_def length_frames by (auto simp: case_prod_unfold)
  then show ?thesis by (intro read16_at) (simp add: assms(1,2))
qed

lemma readWav_encodeWav16:
  assumes chans: "ab_channels b \<noteq> []" and ch: "ch = min 2 (length (ab_channels b))" and rate: "ab_sampleRate b = js_int (int rate)" "rate < 2 ^ 32"
    and size: "ab_length b * ch * 2 < 2 ^ 32"
  shows "readWav (encodeWav16 b) = Some (Inr \<lparr>wv_sampleRate = rate,
    wv_channels = map (\<lambda>c. map (\<lambda>i. js_div (js_int (sint (sample16 (ab_channels b ! c ! i)))) (js_int 32768))
      [0..<ab_length b]) [0..<ch],
    wv_frames = js_int (int (ab_length b))\<rparr>)"
proof -
  let ?buf = "encodeWav16 b" and ?n = "ab_length b"
  have buf: "?buf = concat (map snd (wav_header ch ?n (js_int (int rate)))) @ wav_data b ch"
    using encodeWav16_alt [OF ch] rate(1) by simp
  have chunks: "read_chunks ?buf 12 (None, None) =
      Inr (Some \<lparr>wf_format = 1, wf_channels = ch, wf_sampleRate = rate, wf_bits = 16\<rparr>, Some (44, ?n * ch * 2))"
    using read_chunks_written [OF buf _ _ rate(2) size] ch by simp
  have pos: "0 < ch" using chans ch by simp
  have frames: "js_floor (js_div (js_int (int (?n * ch * 2))) (js_mul (js_div (js_int (int 16)) (js_int 8)) (js_int (int ch)))) = js_int (int ?n)"
    using pos by simp
  show ?thesis
    unfolding readWav_def chunks using header_parts(1,2) [OF buf] pos frames
    by (simp add: supported_def read_sample_def sample_written [OF buf length_header, unfolded add_mult_distrib])
      (simp add: buf)
qed

text \<open>A sample is clamped, scaled and rounded: the clamped one comes back within three half steps.\<close>

lemma sample16_near:
  assumes "js_max (js_int (- 1)) (js_min (js_int 1) v) = Fin s"
  shows "\<exists>y. js_div (js_int (sint (sample16 v))) (js_int 32768) = Fin y \<and> \<bar>y - s\<bar> \<le> 3 / 65536"
proof -
  have s: "- 1 \<le> s" "s \<le> 1"
    using assms by (cases v; auto simp: js_max_def js_min_def split: if_splits)+
  define k where "k = \<lfloor>32767 * s + 1 / 2\<rfloor>"
  have k: "of_int k \<le> 32767 * s + 1 / 2" "32767 * s + 1 / 2 < of_int k + 1"
    unfolding k_def by linarith+
  have "- 32767 \<le> k" "k \<le> 32767"
    unfolding k_def using s by (simp_all add: le_floor_iff floor_le_iff)
  then have "sint (word_of_int k :: 16 word) = k"
    by (simp add: sint_uint uint_word_of_int_eq signed_take_bit_take_bit signed_take_bit_int_eq_self)
  then have "sint (sample16 v) = k"
    unfolding sample16_def assms by (simp add: mult.commute k_def)
  then have "js_div (js_int (sint (sample16 v))) (js_int 32768) = Fin (of_int k / 32768)" by simp
  moreover have "\<bar>of_int k / 32768 - s\<bar> \<le> 3 / 65536"
    using k s by (intro abs_leI) (simp_all add: field_simps)
  ultimately show ?thesis by blast
qed

text \<open>C15. What \<open>encodeWav16\<close> writes, \<open>readWav\<close> reads: a buffer of at least one channel, whose rate is a whole
  number and whose sizes fit the header's 32 bits, comes back with its rate, its frames and its first
  two channels, and every sample that is a number is within three half steps of 16 bits of the
  sample clamped to [-1, 1].\<close>

theorem wav_roundtrip:
  assumes "ab_channels b \<noteq> []" "ab_sampleRate b = js_int (int rate)" "rate < 2 ^ 32"
    and "ab_length b * min 2 (length (ab_channels b)) * 2 < 2 ^ 32"
  shows "\<exists>w. readWav (encodeWav16 b) = Some (Inr w) \<and> wv_sampleRate w = rate \<and> wv_frames w = js_int (int (ab_length b)) \<and>
    length (wv_channels w) = min 2 (length (ab_channels b)) \<and>
    (\<forall>c < length (wv_channels w). length (wv_channels w ! c) = ab_length b \<and>
      (\<forall>i < ab_length b. \<forall>s. js_max (js_int (- 1)) (js_min (js_int 1) (ab_channels b ! c ! i)) = Fin s \<longrightarrow>
        (\<exists>y. wv_channels w ! c ! i = Fin y \<and> \<bar>y - s\<bar> \<le> 3 / 65536)))"
  unfolding readWav_encodeWav16 [OF assms(1) refl assms(2-4)]
  using sample16_near by simp

lemma wav_roundtrip_witness:
  "\<exists>w. readWav (encodeWav16 \<lparr>ab_sampleRate = js_int (int 48000), ab_length = 2, ab_channels = [[Fin (1/2), Fin 3]]\<rparr>) =
     Some (Inr w) \<and> wv_sampleRate w = 48000"
  using wav_roundtrip [of "\<lparr>ab_sampleRate = js_int (int 48000), ab_length = 2, ab_channels = [[Fin (1/2), Fin 3]]\<rparr>" 48000]
  by auto

end
