(* ===== verification/Placement.thy ===== *)
theory Placement
  imports Reorder Navigation Wav Transport_Sync Coalesced "HOL-Library.AList"
begin

text \<open>
  Material intake, \<open>web/src/app/placement.ts\<close>: dropped files become assets and clips, the browser's
  instruments, effects and samples are dropped on tracks, on the empty zone and on the rack, and the
  palette is rebuilt from the assets of the project. The browser's decoder, the digest, the upload and
  the answers of the page are arguments; what the page shows of a gesture is its outcome.
\<close>

section \<open>State\<close>

text \<open>A sample of the palette.\<close>

record kit_sample =
  ks_name :: string
  ks_hash :: string
  ks_seconds :: jsnum

record kit =
  kit_sampleRate :: jsnum
  kit_samples :: "kit_sample list"

datatype dnd_feedback = NoFeedback | DropOnTrack string | DropNew

text \<open>\<open>pg_labKit\<close> is the answer of \<open>/kit.json\<close> once it was asked.\<close>

record 'd page =
  pg_project :: "'d project_state option"
  pg_selectedTrackId :: "string option"
  pg_pps :: jsnum
  pg_samplesByName :: "string \<rightharpoonup> kit_sample"
  pg_labKit :: "kit option option"
  pg_library :: "kit option"
  pg_lastPaletteKey :: string
  pg_feedback :: dnd_feedback
  pg_rackFeedback :: bool

datatype outcome = Nothing | RefusedOnLane string string | RefusedInConsole | Landed string | DeviceAdded

type_synonym 'd intake = "client_call list \<times> 'd page \<times> outcome"

definition page_doc :: "'d automerge \<Rightarrow> 'd page \<Rightarrow> project option" where
  "page_doc A pg = map_option (getDocument A) (pg_project pg)"

definition refuse :: "string \<Rightarrow> string \<Rightarrow> 'd page \<Rightarrow> 'd intake" where
  "refuse trackId why pg = ([], pg, RefusedOnLane trackId why)"

text \<open>A change of the project that is sent.\<close>

definition pg_send :: "'d project_state \<Rightarrow> outcome \<Rightarrow> 'd page \<Rightarrow> 'd intake" where
  "pg_send s res pg = (case sendLastChange s of (cs, s') \<Rightarrow> (cs, pg\<lparr>pg_project := Some s'\<rparr>, res))"

section \<open>Files\<close>

text \<open>
  What the browser and the server make of a file: the decoder at a rate, the digest, the status of the
  upload and the duration.
\<close>

record intake_io =
  io_name :: string
  io_bytes :: bytes
  io_decode :: "bytes \<Rightarrow> jsnum \<Rightarrow> audio_buffer option"
  io_digest :: "bytes \<Rightarrow> bytes"
  io_put :: "string \<Rightarrow> bytes \<Rightarrow> nat"
  io_duration :: "bytes \<Rightarrow> jsnum option"

definition transcodeToProjectWav :: "intake_io \<Rightarrow> bytes \<Rightarrow> jsnum \<Rightarrow> bytes option" where
  "transcodeToProjectWav io input sampleRate = map_option encodeWav16 (io_decode io input sampleRate)"

definition head_ascii :: "bytes \<Rightarrow> nat \<Rightarrow> string" where
  "head_ascii b off = map (\<lambda>x. char_of (unat x)) (slice off (off + 4) (take 12 b))"

definition is_wav :: "bytes \<Rightarrow> bool" where
  "is_wav b \<longleftrightarrow> head_ascii b 0 = ''RIFF'' \<and> head_ascii b 8 = ''WAVE''"

text \<open>The file's name without its extension, its runs of other characters as dashes, 24 characters at most.\<close>

definition drop_extension :: "string \<Rightarrow> string" where
  "drop_extension name =
     (let ext = takeWhile (\<lambda>c. c \<noteq> CHR ''.'') (rev name); rest = dropWhile (\<lambda>c. c \<noteq> CHR ''.'') (rev name)
      in if ext \<noteq> [] \<and> rest \<noteq> [] then rev (tl rest) else name)"

definition alphanumeric :: "char \<Rightarrow> bool" where
  "alphanumeric c \<longleftrightarrow>
     c \<in> set ''abcdefghijklmnopqrstuvwxyzABCDEFGHIJKLMNOPQRSTUVWXYZ0123456789''"

fun dashed :: "bool \<Rightarrow> string \<Rightarrow> string" where
  "dashed inRun [] = []"
| "dashed inRun (c # cs) =
     (if alphanumeric c then c # dashed False cs
      else if inRun then dashed True cs
      else CHR ''-'' # dashed True cs)"

definition file_stem :: "string \<Rightarrow> string" where
  "file_stem name = (let s = take 24 (dashed False (drop_extension name)) in if s = [] then ''audio'' else s)"

text \<open>The position of a pose, in seconds: the nearest line of the grid, not before the start.\<close>

definition pose_seconds :: "jsnum \<Rightarrow> jsnum \<Rightarrow> jsnum" where
  "pose_seconds pps laneX = js_max (js_int 0) (snap_on (snapStep pps) (js_div laneX pps))"

definition hex_string :: "bytes \<Rightarrow> string" where
  "hex_string b = concat (map hex_byte b)"

definition audio_clip :: "string \<Rightarrow> string option \<Rightarrow> string \<Rightarrow> jsnum \<Rightarrow> jsnum \<Rightarrow> clip" where
  "audio_clip i name hash start len =
     \<lparr>c_id = i, c_name = name, c_assetHash = hash, c_startSample = Some start, c_lengthSamples = Some len,
      c_offsetSamples = Some (js_int 0), c_fadeInSamples = None, c_fadeOutSamples = None, c_notes = None,
      c_sceneId = None, c_startTick = None, c_lengthTick = None\<rparr>"

definition pose_start :: "jsnum \<Rightarrow> jsnum \<Rightarrow> jsnum \<Rightarrow> jsnum" where
  "pose_start pps laneX sr = js_round (js_mul (pose_seconds pps laneX) sr)"

text \<open>Up to the first wait: the guard of the kind.\<close>

definition audio_refused :: "string \<Rightarrow> project \<Rightarrow> bool" where
  "audio_refused trackId doc \<longleftrightarrow> (case find_track trackId doc of Some t \<Rightarrow> \<not> trackAcceptsAudio t | None \<Rightarrow> False)"

text \<open>The bytes of the asset.\<close>

definition file_bytes :: "intake_io \<Rightarrow> project option \<Rightarrow> bytes option" where
  "file_bytes io doc =
     (if is_wav (io_bytes io) then Some (io_bytes io)
      else Option.bind doc (\<lambda>d. transcodeToProjectWav io (io_bytes io) (doc_rate d)))"

text \<open>After the upload: the clip.\<close>

definition pose_file :: "'d automerge \<Rightarrow> string \<Rightarrow> intake_io \<Rightarrow> string \<Rightarrow> jsnum \<Rightarrow> string \<Rightarrow> jsnum \<Rightarrow> 'd page \<Rightarrow> 'd intake" where
  "pose_file A u io trackId laneX hash durationSec pg =
     (case pg_project pg of
        None \<Rightarrow> ([], pg, Nothing)
      | Some s \<Rightarrow>
          (let sr = doc_rate (getDocument A s);
               stem = file_stem (io_name io);
               clipId = newId ''clip'' (Some stem) u
           in pg_send (perform A (addClip trackId (audio_clip clipId (Some stem) hash (pose_start (pg_pps pg) laneX sr)
                (js_max (js_int 1024) (js_round (js_mul durationSec sr))))) s) (Landed clipId) pg))"

text \<open>
  The whole: \<open>wait1\<close> and \<open>wait2\<close> are what other events did to the page while the file was read, and while
  it was decoded, hashed and uploaded.
\<close>

definition handleFileDrop ::
  "'d automerge \<Rightarrow> string \<Rightarrow> intake_io \<Rightarrow> string \<Rightarrow> jsnum \<Rightarrow> ('d page \<Rightarrow> 'd page) \<Rightarrow> ('d page \<Rightarrow> 'd page) \<Rightarrow> 'd page \<Rightarrow> 'd intake" where
  "handleFileDrop A u io trackId laneX wait1 wait2 pg =
     (case page_doc A pg of
        None \<Rightarrow> ([], pg, Nothing)
      | Some doc \<Rightarrow>
          if audio_refused trackId doc then refuse trackId ''Piste MIDI : un fichier audio ne se pose pas ici'' pg
          else
            (let pg = wait1 pg in
             case file_bytes io (page_doc A pg) of
               None \<Rightarrow> refuse trackId ''pas un fichier audio lisible'' pg
             | Some b \<Rightarrow>
                 (let pg = wait2 pg; hash = hex_string (io_digest io b) in
                  if io_put io hash b \<noteq> 201 then ([], pg, RefusedInConsole)
                  else
                    (case io_duration io b of
                       None \<Rightarrow> ([], pg, RefusedInConsole)
                     | Some durationSec \<Rightarrow> pose_file A u io trackId laneX hash durationSec pg))))"

section \<open>Drags from the browser\<close>

datatype device_kind = Instrument | Effect

datatype drag_payload = DragDevice device_kind string string | DragSample string | DragOther

text \<open>What a drop carries under the type of the drags: nothing, an unreadable text or a payload.\<close>

datatype drag_data = NoData | Unreadable | Carried drag_payload

text \<open>The page under the pointer: the track, whether the ruler is, and the left edge of the track's lane.\<close>

record drop_event =
  de_track :: "string option"
  de_onRuler :: bool
  de_laneLeft :: "jsnum option"
  de_clientX :: jsnum

definition resolveSample :: "bool \<Rightarrow> kit option \<Rightarrow> string \<Rightarrow> 'd page \<Rightarrow> kit_sample option \<times> 'd page" where
  "resolveSample LAB_MODE loaded name pg =
     (case pg_samplesByName pg name of
        Some known \<Rightarrow> (Some known, pg)
      | None \<Rightarrow>
          if LAB_MODE then
            (let answer = or_else (pg_labKit pg) loaded;
                 ss = (case answer of None \<Rightarrow> [] | Some k \<Rightarrow> kit_samples k);
                 m = fold (\<lambda>s m. m(ks_name s \<mapsto> s)) ss (pg_samplesByName pg)
             in (m name, pg\<lparr>pg_labKit := Some answer, pg_samplesByName := m\<rparr>))
          else (None, pg))"

definition dropTarget :: "drop_event \<Rightarrow> string option \<times> bool" where
  "dropTarget e = (case de_track e of Some t \<Rightarrow> (Some t, False) | None \<Rightarrow> (None, \<not> de_onRuler e))"

definition clearDndFeedback :: "'d page \<Rightarrow> 'd page" where
  "clearDndFeedback pg = pg\<lparr>pg_feedback := NoFeedback\<rparr>"

section \<open>Devices\<close>

definition device_def :: "string \<Rightarrow> string \<Rightarrow> string \<Rightarrow> processor" where
  "device_def u uid name =
     \<lparr>p_id = newId ''dev'' None u, p_type = ''vst3'', p_uid = Some uid, p_name = Some name, p_bypass = False,
      p_params = [], p_stateHash = None, p_stateVersion = None, p_stemHash = None, p_stemKey = None,
      p_stemLatencySamples = None\<rparr>"

text \<open>The track a device makes for itself.\<close>

definition device_track :: "string \<Rightarrow> device_kind \<Rightarrow> project \<Rightarrow> track" where
  "device_track u k doc =
     (let kind = (if k = Instrument then Midi else Audio);
          n = length (filter (\<lambda>t. t_kind t = Some kind) (d_tracks doc)) + 1
      in makeTrackDef ((if kind = Midi then ''MIDI '' else ''Audio '') @ decimal n) (Some kind) u)"

definition no_target :: "string option \<Rightarrow> bool" where
  "no_target trackId \<longleftrightarrow> trackId = None \<or> trackId = Some []"

definition instrument_refused :: "device_kind \<Rightarrow> string option \<Rightarrow> project \<Rightarrow> bool" where
  "instrument_refused k trackId doc \<longleftrightarrow> \<not> no_target trackId \<and> k = Instrument \<and>
     (case find_track (the trackId) doc of Some t \<Rightarrow> \<not> trackAcceptsMidi t | None \<Rightarrow> False)"

text \<open>\<open>u\<close> and \<open>v\<close> are the random parts of the ids of the track and of the device.\<close>

definition addDeviceToTrack ::
  "'d automerge \<Rightarrow> string \<Rightarrow> string \<Rightarrow> device_kind \<Rightarrow> string \<Rightarrow> string \<Rightarrow> string option \<Rightarrow> int option \<Rightarrow> 'd page \<Rightarrow> 'd intake" where
  "addDeviceToTrack A u v k uid name trackId index pg =
     (case pg_project pg of
        None \<Rightarrow> ([], pg, Nothing)
      | Some s \<Rightarrow>
          if instrument_refused k trackId (getDocument A s)
          then refuse (the trackId) ''Piste audio : un instrument a besoin d'une piste MIDI'' pg
          else
            (let s = beginUndoGroup s;
                 (target, s) =
                   (if no_target trackId
                    then (let def = device_track u k (getDocument A s) in (t_id def, perform A (addTrack def) s))
                    else (the trackId, s));
                 s = endUndoGroup (perform A (addProcessor target (device_def v uid name) index) s)
             in pg_send s DeviceAdded (pg\<lparr>pg_selectedTrackId := Some target\<rparr>)))"

text \<open>The track that the rack shows, and the position in its chain under the pointer.\<close>

definition shownRackTrackId :: "'d automerge \<Rightarrow> 'd page \<Rightarrow> string option" where
  "shownRackTrackId A pg =
     (case page_doc A pg of
        None \<Rightarrow> None
      | Some d \<Rightarrow>
          (case pg_selectedTrackId pg of
             Some (c # cs) \<Rightarrow>
               if find_track (c # cs) d \<noteq> None then Some (c # cs)
               else (case orderedTracks d of t # _ \<Rightarrow> Some (t_id t) | [] \<Rightarrow> None)
           | _ \<Rightarrow> (case orderedTracks d of t # _ \<Rightarrow> Some (t_id t) | [] \<Rightarrow> None)))"

definition rackInsertIndex :: "jsnum \<Rightarrow> (jsnum \<times> jsnum) list \<Rightarrow> nat" where
  "rackInsertIndex clientX panels =
     length (filter (\<lambda>(left, width). js_lt (js_add left (js_div width (js_int 2))) clientX) panels)"

section \<open>Samples\<close>

text \<open>The clip that is already exactly there.\<close>

definition same_pose :: "string \<Rightarrow> jsnum \<Rightarrow> clip \<Rightarrow> bool" where
  "same_pose hash start c \<longleftrightarrow> (c_sceneId c = None \<or> c_sceneId c = Some []) \<and> c_assetHash c = hash \<and>
     (case c_startSample c of Some v \<Rightarrow> js_eq v start | None \<Rightarrow> False)"

definition sample_clip :: "string \<Rightarrow> kit_sample \<Rightarrow> jsnum \<Rightarrow> jsnum \<Rightarrow> clip" where
  "sample_clip i sample start sr = audio_clip i None (ks_hash sample) start (js_round (js_mul (ks_seconds sample) sr))"

definition pose_sample :: "'d automerge \<Rightarrow> string \<Rightarrow> kit_sample \<Rightarrow> string \<Rightarrow> jsnum \<Rightarrow> 'd page \<Rightarrow> 'd intake" where
  "pose_sample A u sample trackId laneX pg =
     (case pg_project pg of
        None \<Rightarrow> ([], pg, RefusedInConsole)
      | Some s \<Rightarrow>
          (let doc = getDocument A s in
           if audio_refused trackId doc then refuse trackId ''Piste MIDI : un sample ne se pose pas ici'' pg
           else
             (let sr = doc_rate doc;
                  dropStart = pose_start (pg_pps pg) laneX sr
              in if (case find_track trackId doc of
                       Some t \<Rightarrow> list_ex (same_pose (ks_hash sample) dropStart) (t_clips t) | None \<Rightarrow> False)
                 then refuse trackId ''est deja pose exactement ici'' pg
                 else
                   (let placedId = newId ''clip'' (Some (ks_name sample)) u
                    in pg_send (perform A (addClip trackId (sample_clip placedId sample dropStart sr)) s)
                         (Landed placedId) pg))))"

definition placeSampleFromDrop ::
  "'d automerge \<Rightarrow> bool \<Rightarrow> kit option \<Rightarrow> string \<Rightarrow> string \<Rightarrow> string \<Rightarrow> jsnum \<Rightarrow> 'd page \<Rightarrow> 'd intake" where
  "placeSampleFromDrop A LAB_MODE loaded u name trackId laneX pg =
     (case resolveSample LAB_MODE loaded name pg of
        (None, pg) \<Rightarrow> ([], pg, RefusedInConsole)
      | (Some sample, pg) \<Rightarrow> pose_sample A u sample trackId laneX pg)"

section \<open>The targets of a drop\<close>

text \<open>
  \<open>isOurs\<close> and \<open>isSample\<close> are the types the drag announces; the answer says whether the drop is allowed.
\<close>

definition tracks_dragover :: "'d automerge \<Rightarrow> bool \<Rightarrow> bool \<Rightarrow> drop_event \<Rightarrow> 'd page \<Rightarrow> bool \<times> 'd page" where
  "tracks_dragover A isOurs isSample e pg =
     (if \<not> isOurs then (False, pg)
      else
        (let (trackEl, emptyZone) = dropTarget e; pg = clearDndFeedback pg in
         case trackEl of
           None \<Rightarrow> if isSample \<or> \<not> emptyZone then (False, pg) else (True, pg\<lparr>pg_feedback := DropNew\<rparr>)
         | Some t \<Rightarrow>
             if isSample \<and> (case page_doc A pg of Some d \<Rightarrow> audio_refused t d | None \<Rightarrow> False) then (False, pg)
             else (True, pg\<lparr>pg_feedback := DropOnTrack t\<rparr>)))"

definition tracks_dragleave :: "bool \<Rightarrow> 'd page \<Rightarrow> 'd page" where
  "tracks_dragleave inside pg = (if inside then pg else clearDndFeedback pg)"

definition tracks_drop ::
  "'d automerge \<Rightarrow> bool \<Rightarrow> kit option \<Rightarrow> string \<Rightarrow> string \<Rightarrow> drag_data \<Rightarrow> drop_event \<Rightarrow> 'd page \<Rightarrow> 'd intake" where
  "tracks_drop A LAB_MODE loaded u v raw e pg =
     (case raw of
        NoData \<Rightarrow> ([], pg, Nothing)
      | Unreadable \<Rightarrow> ([], clearDndFeedback pg, Nothing)
      | Carried payload \<Rightarrow>
          (let pg = clearDndFeedback pg; (trackEl, emptyZone) = dropTarget e in
           case payload of
             DragSample name \<Rightarrow>
               (case (trackEl, de_laneLeft e) of
                  (Some t, Some left) \<Rightarrow>
                    placeSampleFromDrop A LAB_MODE loaded u name t (js_max (js_int 0) (js_sub (de_clientX e) left)) pg
                | _ \<Rightarrow> ([], pg, Nothing))
           | DragDevice k uid name \<Rightarrow>
               if trackEl = None \<and> \<not> emptyZone then ([], pg, Nothing)
               else addDeviceToTrack A u v k uid name trackEl None pg
           | DragOther \<Rightarrow> ([], pg, Nothing)))"

definition rack_dragover :: "bool \<Rightarrow> bool \<Rightarrow> 'd page \<Rightarrow> bool \<times> 'd page" where
  "rack_dragover isOurs isSample pg =
     (if \<not> isOurs \<or> isSample then (False, pg) else (True, pg\<lparr>pg_rackFeedback := True\<rparr>))"

definition rack_dragleave :: "bool \<Rightarrow> 'd page \<Rightarrow> 'd page" where
  "rack_dragleave inside pg = (if inside then pg else pg\<lparr>pg_rackFeedback := False\<rparr>)"

definition rack_drop ::
  "'d automerge \<Rightarrow> string \<Rightarrow> string \<Rightarrow> drag_data \<Rightarrow> jsnum \<Rightarrow> (jsnum \<times> jsnum) list \<Rightarrow> 'd page \<Rightarrow> 'd intake" where
  "rack_drop A u v raw clientX panels pg =
     (let pg = pg\<lparr>pg_rackFeedback := False\<rparr> in
      case raw of
        Carried (DragDevice k uid name) \<Rightarrow>
          (case shownRackTrackId A pg of
             Some (c # cs) \<Rightarrow>
               addDeviceToTrack A u v k uid name (Some (c # cs)) (Some (int (rackInsertIndex clientX panels))) pg
           | _ \<Rightarrow> ([], pg, Nothing))
      | _ \<Rightarrow> ([], pg, Nothing))"

section \<open>The palette\<close>

text \<open>One entry for each asset, in the order of the document: its first name and its longest duration.\<close>

definition palette_entry :: "jsnum \<Rightarrow> clip \<Rightarrow> (string \<times> string \<times> jsnum) list \<Rightarrow> (string \<times> string \<times> jsnum) list" where
  "palette_entry sr c byHash =
     (let name = clipDisplayName c;
          seconds = js_div (or_else (c_lengthSamples c) (js_int 0)) sr
      in case map_of byHash (c_assetHash c) of
           None \<Rightarrow> AList.update (c_assetHash c) (name, seconds) byHash
         | Some prev \<Rightarrow>
             if js_lt (snd prev) seconds then AList.update (c_assetHash c) (fst prev, seconds) byHash else byHash)"

definition palette_of :: "project \<Rightarrow> (string \<times> string \<times> jsnum) list" where
  "palette_of doc = fold (\<lambda>t. fold (palette_entry (doc_rate doc)) (t_clips t)) (d_tracks doc) []"

fun join_comma :: "string list \<Rightarrow> string" where
  "join_comma [] = []"
| "join_comma [w] = w"
| "join_comma (w # ws) = w @ CHR '','' # join_comma ws"

definition palette_key :: "(string \<times> string \<times> jsnum) list \<Rightarrow> string" where
  "palette_key byHash = join_comma (sort (map fst byHash))"

definition initial_palette_key :: string where
  "initial_palette_key = CHR 0x00 # ''unset''"

definition kit_of :: "jsnum \<Rightarrow> (string \<times> string \<times> jsnum) list \<Rightarrow> kit" where
  "kit_of sr byHash = \<lparr>kit_sampleRate = sr,
     kit_samples = map (\<lambda>(hash, name, seconds). \<lparr>ks_name = name, ks_hash = hash, ks_seconds = seconds\<rparr>) byHash\<rparr>"

definition refreshPalette :: "'d automerge \<Rightarrow> bool \<Rightarrow> 'd page \<Rightarrow> 'd page" where
  "refreshPalette A LAB_MODE pg =
     (if LAB_MODE then pg
      else
        (case page_doc A pg of
           None \<Rightarrow> pg
         | Some doc \<Rightarrow>
             (let byHash = palette_of doc; key = palette_key byHash in
              if key = pg_lastPaletteKey pg then pg
              else
                (let pg = pg\<lparr>pg_lastPaletteKey := key\<rparr> in
                 if byHash = [] then pg\<lparr>pg_library := None\<rparr>
                 else
                   (let k = kit_of (doc_rate doc) byHash
                    in pg\<lparr>pg_library := Some k,
                          pg_samplesByName := fold (\<lambda>s m. m(ks_name s \<mapsto> s)) (kit_samples k) Map.empty\<rparr>)))))"

section \<open>Poses\<close>

lemma pg_send_page:
  "pg_send s r pg = (cs, pg', r') \<Longrightarrow> r' = r \<and> (\<exists>s'. pg' = pg\<lparr>pg_project := Some s'\<rparr> \<and>
     ps_doc s' = ps_doc s \<and> ps_journal s' = ps_journal s)"
  by (auto simp: pg_send_def sendLastChange_all split: prod.splits)

lemma doc_rate_upd [simp]: "doc_rate (upd_track t f d) = doc_rate d" "doc_rate (d\<lparr>d_tracks := ts\<rparr>) = doc_rate d"
  by (simp_all add: doc_rate_def upd_track_def)

lemma doc_perform_addClip:
  assumes "change_law A" and "\<not> isMusicalClip c"
  shows "getDocument A (perform A (addClip t c) s) = upd_track t (\<lambda>t. t\<lparr>t_clips := t_clips t @ [c]\<rparr>) (getDocument A s)"
  using assms by (cases "find_track t (getDocument A s)") (simp_all add: perform_def addClip_def track.upd_none)

lemma set_samples: "fold (\<lambda>s m. m(ks_name s \<mapsto> s)) ss m = m ++ map_of (map (\<lambda>s. (ks_name s, s)) (rev ss))"
  by (induction ss rule: rev_induct) (auto simp: map_add_def fun_eq_iff)

lemma map_add_again [simp]: "m ++ k ++ k = m ++ k"
  by (auto simp: map_add_def fun_eq_iff split: option.splits)

lemma audio_clip_absolute [simp]: "\<not> isMusicalClip (audio_clip i n h st l)"
  "\<not> isMusicalClip (sample_clip i sample st sr)"
  by (simp_all add: isMusicalClip_def audio_clip_def sample_clip_def)

text \<open>A name resolved once is resolved the same way later, whatever became of the project.\<close>

lemma resolve_again:
  assumes "resolveSample LAB loaded name pg = (r, pg1)"
  shows "resolveSample LAB loaded' name (pg1\<lparr>pg_project := p\<rparr>) = (r, pg1\<lparr>pg_project := p\<rparr>)" "pg_project pg1 = pg_project pg"
    "pg_pps pg1 = pg_pps pg"
  using assms by (auto simp: resolveSample_def Let_def set_samples map_add_Some_iff split: option.splits if_splits)

text \<open>A pose of a sample, on a page with a project.\<close>

lemma pose_sample_page:
  assumes "change_law A" and "pg_project pg = Some s" and "pose_sample A u sample t x pg = (cs, pg', r)"
  shows "\<exists>s'. pg' = pg\<lparr>pg_project := Some s'\<rparr> \<and> getDocument A s' =
    (case r of Landed i \<Rightarrow> upd_track t (\<lambda>tr. tr\<lparr>t_clips := t_clips tr @ [sample_clip i sample
        (pose_start (pg_pps pg) x (doc_rate (getDocument A s))) (doc_rate (getDocument A s))]\<rparr>) (getDocument A s)
     | _ \<Rightarrow> getDocument A s)"
proof (cases "\<exists>i. r = Landed i")
  case True
  then obtain s1 i where send: "pg_send s1 (Landed i) pg = (cs, pg', r)"
      "s1 = perform A (addClip t (sample_clip i sample (pose_start (pg_pps pg) x (doc_rate (getDocument A s)))
         (doc_rate (getDocument A s)))) s"
    using assms(2,3) by (auto simp: pose_sample_def Let_def refuse_def split: if_splits)
  then show ?thesis using pg_send_page [OF send(1)] doc_perform_addClip [OF assms(1) audio_clip_absolute(2)]
    by (auto simp: getDocument_def)
next
  case False
  then have "pg' = pg" "\<And>i. r \<noteq> Landed i"
    using assms(2,3) by (auto simp: pose_sample_def Let_def refuse_def dest: pg_send_page split: if_splits)
  then show ?thesis using assms(2) by (cases pg) (auto split: outcome.splits)
qed


section \<open>Devices\<close>

lemma perform_do_op: "(\<And>d. replay_op [] op d = Inr (m d)) \<Longrightarrow> perform A m s = do_op A op s"
  by (simp add: do_op_def perform_result_def perform_def)

text \<open>What a drop of a device does, as operations of the journal.\<close>

definition device_ops :: "string \<Rightarrow> string \<Rightarrow> device_kind \<Rightarrow> string \<Rightarrow> string \<Rightarrow> string option \<Rightarrow> int option \<Rightarrow> project \<Rightarrow> inverse_op list" where
  "device_ops u v k uid name trackId index doc =
     (if no_target trackId
      then [AddTrack (device_track u k doc), AddProcessor (t_id (device_track u k doc)) (device_def v uid name) index]
      else [AddProcessor (the trackId) (device_def v uid name) index])"

lemma addDeviceToTrack_ops:
  assumes "pg_project pg = Some s" and "\<not> instrument_refused k trackId (getDocument A s)"
    and "addDeviceToTrack A u v k uid name trackId index pg = (cs, pg', r)"
  shows "r = DeviceAdded \<and> (\<exists>s'. pg_project pg' = Some s' \<and>
    pg_selectedTrackId pg' = Some (if no_target trackId then t_id (device_track u k (getDocument A s)) else the trackId) \<and>
    ps_doc s' = ps_doc (endUndoGroup (fold (do_op A) (device_ops u v k uid name trackId index (getDocument A s)) (beginUndoGroup s))) \<and>
    ps_journal s' =
      ps_journal (endUndoGroup (fold (do_op A) (device_ops u v k uid name trackId index (getDocument A s)) (beginUndoGroup s))))"
proof -
  have b: "getDocument A (beginUndoGroup s) = getDocument A s" by (simp add: beginUndoGroup_def)
  have ops: "perform A (addTrack tr) x = do_op A (AddTrack tr) x"
    "perform A (addProcessor t p i) x = do_op A (AddProcessor t p i) x" for tr t p i x
    by (rule perform_do_op, simp)+
  show ?thesis
    using assms(3) assms(1,2) b
    by (cases "no_target trackId") (auto simp: addDeviceToTrack_def device_ops_def ops Let_def dest!: pg_send_page)
qed

lemma makeTrackDef_id [simp]: "t_id (device_track u k doc) = newId ''track'' None u" "t_chain (device_track u k doc) = []"
  "trackAcceptsMidi (device_track u k doc) \<longleftrightarrow> k = Instrument" "trackAcceptsAudio (device_track u k doc) \<longleftrightarrow> k \<noteq> Instrument"
  by (simp_all add: device_track_def makeTrackDef_def trackAcceptsMidi_def trackAcceptsAudio_def)

lemma find_last: "\<forall>x\<in>set xs. \<not> P x \<Longrightarrow> P y \<Longrightarrow> find P (xs @ [y]) = Some y"
  by (induction xs) auto

lemma find_track_added: "\<forall>x\<in>set (d_tracks d). t_id x \<noteq> t_id tr \<Longrightarrow>
  find_track (t_id tr) (d\<lparr>d_tracks := d_tracks d @ [tr]\<rparr>) = Some tr"
  by (simp add: find_track_def find_last)

lemma update_first_last: "\<forall>x\<in>set xs. \<not> P x \<Longrightarrow> P y \<Longrightarrow> update_first P f (xs @ [y]) = xs @ [f y]"
  by (induction xs) auto

definition with_device :: "int option \<Rightarrow> processor \<Rightarrow> track \<Rightarrow> track" where
  "with_device i p tr = tr\<lparr>t_chain :=
     (case i of Some k \<Rightarrow> splice_in (index_or_end k (t_chain tr)) p (t_chain tr) | None \<Rightarrow> t_chain tr @ [p])\<rparr>"

lemma with_device [simp]:
  "t_id (with_device i p tr) = t_id tr" "t_kind (with_device i p tr) = t_kind tr" "p \<in> set (t_chain (with_device i p tr))"
  "t_chain tr = [] \<Longrightarrow> with_device i p tr = tr\<lparr>t_chain := [p]\<rparr>"
  by (auto simp: with_device_def splice_in_def split: option.splits)

lemma doc_step_AddProcessor:
  "find_track t d = Some tr \<Longrightarrow> \<forall>x\<in>set (t_chain tr). p_id x \<noteq> p_id p \<Longrightarrow>
   doc_step (AddProcessor t p i) d = Some (RemoveProcessor t (p_id p), upd_track t (with_device i p) d)"
  by (auto simp: doc_step_def addProcessor_def with_device_def [abs_def])

text \<open>The operations of a drop go back, and the device is on its track.\<close>

lemma device_ops_new:
  fixes k :: device_kind and u v uid name :: string and d :: project
  assumes "no_target trackId" and fresh: "\<forall>x\<in>set (d_tracks d). t_id x \<noteq> newId ''track'' None u"
  defines "tr \<equiv> device_track u k d"
  defines "e \<equiv> d\<lparr>d_tracks := d_tracks d @ [tr\<lparr>t_chain := [device_def v uid name]\<rparr>]\<rparr>"
  shows "run_ops doc_step (device_ops u v k uid name trackId index d) d =
      ([RemoveProcessor (t_id tr) (p_id (device_def v uid name)), DeleteTrack (t_id tr)], e)"
    and "good_run doc_step reversible (device_ops u v k uid name trackId index d) d"
    and "find_track (t_id tr) e = Some (tr\<lparr>t_chain := [device_def v uid name]\<rparr>)"
proof -
  let ?p = "device_def v uid name" and ?d1 = "d\<lparr>d_tracks := d_tracks d @ [tr]\<rparr>"
  have new: "\<forall>x\<in>set (d_tracks d). t_id x \<noteq> t_id tr" using fresh by (simp add: tr_def)
  have step1: "doc_step (AddTrack tr) d = Some (DeleteTrack (t_id tr), ?d1)"
    by (simp add: doc_step_def addTrack_def)
  have found: "find_track (t_id tr) ?d1 = Some tr" using find_track_added [OF new] .
  have e: "upd_track (t_id tr) (with_device index ?p) ?d1 = e"
    using new by (simp add: upd_track_def update_first_last e_def) (simp add: tr_def)
  have step2: "doc_step (AddProcessor (t_id tr) ?p index) ?d1 = Some (RemoveProcessor (t_id tr) (p_id ?p), e)"
    using doc_step_AddProcessor [OF found] e by (simp add: tr_def)
  have ops: "device_ops u v k uid name trackId index d = [AddTrack tr, AddProcessor (t_id tr) ?p index]"
    using assms(1) by (simp add: device_ops_def tr_def)
  show "run_ops doc_step (device_ops u v k uid name trackId index d) d =
      ([RemoveProcessor (t_id tr) (p_id ?p), DeleteTrack (t_id tr)], e)"
    unfolding ops by (simp add: step1 step2)
  show "good_run doc_step reversible (device_ops u v k uid name trackId index d) d"
    unfolding ops using new found by (simp add: step1) (simp add: tr_def)
  show "find_track (t_id tr) e = Some (tr\<lparr>t_chain := [?p]\<rparr>)"
    using find_track_added [of d "tr\<lparr>t_chain := [?p]\<rparr>"] new by (simp add: e_def)
qed

lemma device_ops_there:
  assumes "\<not> no_target trackId" and "find_track (the trackId) d = Some tr"
    and "\<forall>p\<in>set (t_chain tr). p_id p \<noteq> newId ''dev'' None v"
  shows "run_ops doc_step (device_ops u v k uid name trackId index d) d =
      ([RemoveProcessor (the trackId) (p_id (device_def v uid name))], upd_track (the trackId) (with_device index (device_def v uid name)) d)"
    and "good_run doc_step reversible (device_ops u v k uid name trackId index d) d"
    and "find_track (the trackId) (upd_track (the trackId) (with_device index (device_def v uid name)) d) =
      Some (with_device index (device_def v uid name) tr)"
proof -
  let ?p = "device_def v uid name"
  have new: "\<forall>x\<in>set (t_chain tr). p_id x \<noteq> p_id ?p" using assms(3) by (simp add: device_def_def)
  have ops: "device_ops u v k uid name trackId index d = [AddProcessor (the trackId) ?p index]"
    using assms(1) by (simp add: device_ops_def)
  note step = doc_step_AddProcessor [OF assms(2) new]
  show "run_ops doc_step (device_ops u v k uid name trackId index d) d =
      ([RemoveProcessor (the trackId) (p_id ?p)], upd_track (the trackId) (with_device index ?p) d)"
    unfolding ops by (simp add: step)
  show "good_run doc_step reversible (device_ops u v k uid name trackId index d) d"
    unfolding ops using assms(2) new by (simp add: step)
  show "find_track (the trackId) (upd_track (the trackId) (with_device index ?p) d) = Some (with_device index ?p tr)"
    using track.get_upd_Some [OF _ assms(2)] by simp
qed


section \<open>Imported files\<close>

lemma encodeWav16_is_wav: "is_wav (encodeWav16 b)"
proof -
  let ?h = "concat (map snd (wav_header (min 2 (length (ab_channels b))) (ab_length b) (ab_sampleRate b)))"
  have head: "take 12 (encodeWav16 b) = take 12 ?h"
    unfolding encodeWav16_alt [OF refl] by simp
  show ?thesis
    unfolding is_wav_def head_ascii_def head
    by (simp add: wav_header_def slice_def le32_def ascii_bytes_def char_of_def bit_0)
qed

lemma file_bytes_wav: "file_bytes io d = Some b \<Longrightarrow> is_wav b"
  by (auto simp: file_bytes_def transcodeToProjectWav_def encodeWav16_is_wav split: if_splits bind_splits)

lemma dashed_set: "c \<in> set (dashed r s) \<Longrightarrow> alphanumeric c \<or> c = CHR ''-''"
  by (induction r s rule: dashed.induct) (auto split: if_splits)

text \<open>The name of an imported clip.\<close>

definition clean_stem :: "string \<Rightarrow> bool" where
  "clean_stem s \<longleftrightarrow> s \<noteq> [] \<and> length s \<le> 24 \<and> (\<forall>c\<in>set s. alphanumeric c \<or> c = CHR ''-'')"

lemma file_stem_clean: "clean_stem (file_stem name)"
proof -
  have "clean_stem ''audio''" by code_simp
  moreover have "clean_stem (take 24 (dashed False s))" if "take 24 (dashed False s) \<noteq> []" for s
    using that dashed_set [of _ False s] unfolding clean_stem_def by (auto dest: in_set_takeD)
  ultimately show ?thesis by (simp add: file_stem_def Let_def)
qed

lemma pose_start_from_0:
  assumes "js_finite x" and "0 < p" and "0 < r"
  shows "js_int_from 0 (pose_start (Fin p) x (Fin r))"
proof -
  obtain a where x: "x = Fin a" using assms(1) by (cases x) auto
  obtain k where k: "snapStep (Fin p) = Fin k" "0 < k" using snapStep_pos by blast
  have "js_max (js_int 0) (Fin y) = Fin (max 0 y)" for y by (simp add: js_max_def max_def)
  then obtain b where b: "pose_seconds (Fin p) x = Fin b" "0 \<le> b"
    using assms(2) k by (simp add: pose_seconds_def x snap_on_def)
  have "0 \<le> b * r" using b(2) assms(3) by simp
  then have "0 \<le> \<lfloor>b * r + 1 / 2\<rfloor>" by (simp add: le_floor_iff)
  then show ?thesis by (simp add: pose_start_def b(1) js_int_from_def)
qed

lemma doc_rate_pos: "js_finite (d_sampleRate d) \<Longrightarrow> js_le (js_int 0) (d_sampleRate d) \<Longrightarrow> \<exists>r>0. doc_rate d = Fin r"
  by (cases "d_sampleRate d") (auto simp: doc_rate_def js_or_def js_le_def js_eq_def intro: exI [of _ 48000])

text \<open>C17. Whatever file is dropped, what it becomes is sound: if a clip lands then the asset is a RIFF/WAVE file
  that the server has accepted under its digest, the track accepted audio when the file was dropped,
  and the clip refers to that digest, is named by 1 to 24 letters, digits and dashes, and has a start
  that is a whole number not below 0 and a length not below 1024.\<close>

theorem imported_file_sound:
  assumes "change_law A" and "handleFileDrop A u io t x wait1 wait2 pg = (cs, pg', Landed i)"
    and "pg_project (wait2 (wait1 pg)) = Some s" and "js_finite x" and "pg_pps (wait2 (wait1 pg)) = Fin p" "0 < p"
    and "js_finite (d_sampleRate (getDocument A s))" "js_le (js_int 0) (d_sampleRate (getDocument A s))"
    and "\<forall>b d. io_duration io b = Some d \<longrightarrow> js_finite d"
  shows "\<exists>b s' stem start len. is_wav b \<and> io_put io (hex_string (io_digest io b)) b = 201 \<and>
    (\<exists>d. page_doc A pg = Some d \<and> (\<forall>tr. find_track t d = Some tr \<longrightarrow> trackAcceptsAudio tr)) \<and>
    pg_project pg' = Some s' \<and>
    getDocument A s' = upd_track t (\<lambda>tr. tr\<lparr>t_clips := t_clips tr @
      [audio_clip i (Some stem) (hex_string (io_digest io b)) start len]\<rparr>) (getDocument A s) \<and>
    clean_stem stem \<and> js_int_from 0 start \<and> js_int_from 1024 len"
proof -
  let ?pg = "wait2 (wait1 pg)" and ?sr = "doc_rate (getDocument A s)"
  obtain d where d: "page_doc A pg = Some d" "\<not> audio_refused t d"
    using assms(2) by (auto simp: handleFileDrop_def refuse_def split: option.splits if_splits)
  obtain b where b: "file_bytes io (page_doc A (wait1 pg)) = Some b"
    using assms(2) d by (auto simp: handleFileDrop_def refuse_def Let_def split: option.splits)
  obtain dur where dur: "io_put io (hex_string (io_digest io b)) b = 201" "io_duration io b = Some dur"
      and pose: "pose_file A u io t x (hex_string (io_digest io b)) dur ?pg = (cs, pg', Landed i)"
    using assms(2) d b by (auto simp: handleFileDrop_def Let_def split: option.splits if_splits)
  define stem start len where "stem = file_stem (io_name io)" and "start = pose_start (Fin p) x ?sr"
    and "len = js_max (js_int 1024) (js_round (js_mul dur ?sr))"
  have send: "pg_send (perform A (addClip t (audio_clip i (Some stem) (hex_string (io_digest io b)) start len)) s) (Landed i) ?pg =
      (cs, pg', Landed i)"
    using pose assms(3,5) by (auto simp: pose_file_def stem_def start_def len_def Let_def dest: pg_send_page)
  obtain s' where s': "pg_project pg' = Some s'" "getDocument A s' = upd_track t (\<lambda>tr. tr\<lparr>t_clips := t_clips tr @
      [audio_clip i (Some stem) (hex_string (io_digest io b)) start len]\<rparr>) (getDocument A s)"
    using pg_send_page [OF send] doc_perform_addClip [OF assms(1) audio_clip_absolute(1)] by (auto simp: getDocument_def)
  obtain r where r: "?sr = Fin r" "0 < r" using doc_rate_pos assms(7,8) by blast
  have "js_int_from 0 start" unfolding start_def r(1) by (rule pose_start_from_0 [OF assms(4,6) r(2)])
  moreover have "js_finite dur" using assms(9) dur(2) by blast
  then have "js_finite (js_mul dur ?sr)" using r by (cases dur) auto
  then have "js_int_from 1024 len" using js_round_from_int [of _ 1024] by (simp add: len_def js_round_from_def)
  moreover have "clean_stem stem" unfolding stem_def by (rule file_stem_clean)
  moreover have "trackAcceptsAudio tr" if "find_track t d = Some tr" for tr using d(2) that by (simp add: audio_refused_def)
  ultimately show ?thesis using file_bytes_wav [OF b] dur(1) d(1) s' by blast
qed

section \<open>Examples\<close>

definition lone_track :: "track_kind option \<Rightarrow> clip list \<Rightarrow> track" where
  "lone_track k cs = \<lparr>t_id = ''t'', t_name = ''T'', t_gain = js_int 1, t_kind = k, t_pan = None, t_order = None,
     t_clips = cs, t_chain = [], t_automation = None\<rparr>"

definition example_page :: "clip list \<Rightarrow> project page" where
  "example_page cs =
     \<lparr>pg_project = Some ((new_project local_automerge)
        \<lparr>ps_doc := (createEmptyDocument (js_int 48000))\<lparr>d_tracks := [lone_track (Some Audio) cs]\<rparr>\<rparr>),
      pg_selectedTrackId = None, pg_pps = js_int 40, pg_samplesByName = Map.empty, pg_labKit = None, pg_library = None,
      pg_lastPaletteKey = initial_palette_key, pg_feedback = NoFeedback, pg_rackFeedback = False\<rparr>"

definition example_kit :: kit where
  "example_kit = \<lparr>kit_sampleRate = js_int 48000,
     kit_samples = [\<lparr>ks_name = ''kick'', ks_hash = ''a'', ks_seconds = js_int 2\<rparr>]\<rparr>"

definition example_sample_drop :: "project intake" where
  "example_sample_drop = placeSampleFromDrop local_automerge True (Some example_kit) ''u1'' ''kick'' ''t'' (js_int 100) (example_page [])"


definition example_device_drop :: "project intake" where
  "example_device_drop = addDeviceToTrack local_automerge ''u'' ''v'' Instrument ''uid'' ''Synth'' None None (example_page [])"


definition example_io :: intake_io where
  "example_io = \<lparr>io_name = ''my loop!.mp3'', io_bytes = [1, 2, 3],
     io_decode = (\<lambda>_ r. Some \<lparr>ab_sampleRate = r, ab_length = 1, ab_channels = [[js_int 1]]\<rparr>), io_digest = take 2,
     io_put = (\<lambda>_ _. 201), io_duration = (\<lambda>_. Some (js_int 2))\<rparr>"

definition example_file_drop :: "project intake" where
  "example_file_drop = handleFileDrop local_automerge ''u'' example_io ''t'' (js_int 100) id id (example_page [])"

lemma imported_file_sound_witness:
  "\<exists>b. is_wav b \<and> snd (snd example_file_drop) = Landed ''clip-my-loop--u''"
proof -
  let ?s = "the (pg_project (example_page []))"
  have drop: "snd (snd example_file_drop) = Landed ''clip-my-loop--u''" by code_simp
  have s: "pg_project (id (id (example_page []))) = Some ?s" by (simp add: example_page_def)
  have pps: "pg_pps (id (id (example_page []))) = Fin 40" by (simp add: example_page_def)
  have rate: "js_finite (d_sampleRate (getDocument local_automerge ?s))" "js_le (js_int 0) (d_sampleRate (getDocument local_automerge ?s))"
    by code_simp+
  have place: "handleFileDrop local_automerge ''u'' example_io ''t'' (js_int 100) id id (example_page []) =
      (fst example_file_drop, fst (snd example_file_drop), Landed ''clip-my-loop--u'')"
    using drop by (simp add: example_file_drop_def prod_eq_iff)
  have finite: "js_finite (js_int 100)" "(0::rat) < 40" "\<forall>b d. io_duration example_io b = Some d \<longrightarrow> js_finite d"
    by (simp_all add: example_io_def)
  note sound = imported_file_sound [where ?wait1.0 = id and ?wait2.0 = id and pg = "example_page []",
      OF local_change_law place s finite(1) pps finite(2) rate finite(3)]
  show ?thesis using sound drop by blast
qed

section \<open>The palette\<close>

definition pad_clip :: "string \<Rightarrow> string \<Rightarrow> int \<Rightarrow> clip" where
  "pad_clip i hash len = audio_clip i (Some ''pad'') hash (js_int 0) (js_int len)"

text \<open>
  The chip of a drag carries a name only: of two assets that show the same name, both chips place the
  second one.
\<close>

lemma same_name_places_second:
  "let pg = refreshPalette local_automerge False (example_page [pad_clip ''c1'' ''first'' 48000, pad_clip ''c2'' ''second'' 96000])
   in map (\<lambda>s. (ks_name s, ks_hash s)) (kit_samples (the (pg_library pg))) = [(''pad'', ''first''), (''pad'', ''second'')] \<and>
      map_option ks_hash (pg_samplesByName pg ''pad'') = Some ''second''"
  by code_simp

text \<open>
  The palette is rebuilt when the set of assets changes, not when a name or a duration does: after a
  longer clip on the same asset, a sample still has the old duration.
\<close>

lemma palette_keeps_old_duration:
  "let pg = refreshPalette local_automerge False (example_page [pad_clip ''c1'' ''h'' 48000]);
       later = refreshPalette local_automerge False (pg\<lparr>pg_project :=
         pg_project (example_page [pad_clip ''c1'' ''h'' 48000, pad_clip ''c2'' ''h'' 96000])\<rparr>)
   in map_option ks_seconds (pg_samplesByName later ''pad'') = Some (js_int 1)"
  by code_simp

text \<open>What the palette holds: one entry for each asset of the document.\<close>

lemma palette_fold_keys:
  "fst ` set (fold (palette_entry sr) cs m) = fst ` set m \<union> c_assetHash ` set cs \<and>
   (distinct (map fst m) \<longrightarrow> distinct (map fst (fold (palette_entry sr) cs m)))"
proof (induction cs arbitrary: m)
  case (Cons c cs)
  have "fst ` set (palette_entry sr c m) = insert (c_assetHash c) (fst ` set m)"
    by (force simp: palette_entry_def Let_def dom_update image_iff split: option.splits dest: map_of_SomeD)
  moreover have "distinct (map fst m) \<longrightarrow> distinct (map fst (palette_entry sr c m))"
    by (auto simp: palette_entry_def Let_def distinct_update split: option.splits)
  ultimately show ?case using Cons.IH [of "palette_entry sr c m"] by auto
qed simp

lemma palette_assets:
  "fst ` set (palette_of doc) = (\<Union>t\<in>set (d_tracks doc). c_assetHash ` set (t_clips t))" "distinct (map fst (palette_of doc))"
proof -
  have "fst ` set (fold (\<lambda>t. fold (palette_entry sr) (t_clips t)) ts m) =
      fst ` set m \<union> (\<Union>t\<in>set ts. c_assetHash ` set (t_clips t)) \<and>
    (distinct (map fst m) \<longrightarrow> distinct (map fst (fold (\<lambda>t. fold (palette_entry sr) (t_clips t)) ts m)))" for sr ts m
  proof (induction ts arbitrary: m)
    case (Cons t ts)
    show ?case
      using Cons.IH [of "fold (palette_entry sr) (t_clips t) m"] palette_fold_keys [of sr "t_clips t" m] by auto
  qed simp
  from this [of "doc_rate doc" "d_tracks doc" "[]"]
  show "fst ` set (palette_of doc) = (\<Union>t\<in>set (d_tracks doc). c_assetHash ` set (t_clips t))" "distinct (map fst (palette_of doc))"
    by (simp_all add: palette_of_def)
qed

end
