(* ===== verification/Jam.thy ===== *)
theory Jam
  imports Prelude Socket "HOL-Library.AList"
begin

text \<open>
  The jam between tabs, \<open>web/src/network/jam.ts\<close>: its roles, the signals relayed as text, and the peer
  connections. A connection or a data channel is an object of the browser, named by its index in a
  store; what a handler awaits is a task that the browser resumes with an outcome. The session
  descriptions and the candidates are texts of the browser. \<open>rtcStats\<close>, a probe, is left out.
\<close>

section \<open>State\<close>

datatype signal_kind = SOffer | SAnswer | SIce | SBye

text \<open>Only whether \<open>to\<close>, \<open>sdp\<close> and \<open>candidate\<close> are truthy matters: an absent field is \<open>None\<close>.\<close>

record jam_signal =
  sg_jam :: bool
  sg_from :: string
  sg_to :: "string option"
  sg_kind :: signal_kind
  sg_sdp :: "string option"
  sg_candidate :: "string option"

definition falsy :: "string option \<Rightarrow> bool" where
  "falsy s \<longleftrightarrow> s = None \<or> s = Some []"

datatype jam_role = Idle | Broadcasting | Listening

text \<open>\<open>connectionState\<close>.\<close>

datatype link = New | Connecting | Connected | Disconnected | Failed | Closed

text \<open>An \<open>RTCPeerConnection\<close>: \<open>pc_peer\<close> is what its handlers captured, \<open>pc_takes\<close> tells whether it has an \<open>ondatachannel\<close>.\<close>

record connection =
  pc_peer :: string
  pc_state :: link
  pc_takes :: bool
  pc_tracks :: "string list"
  pc_localDescription :: "(signal_kind \<times> string) option"
  pc_remoteDescription :: "(signal_kind \<times> string) option"
  pc_candidates :: "string list"

text \<open>An \<open>RTCDataChannel\<close>; \<open>dc_pings\<close> once \<open>startPing\<close> has set its \<open>onmessage\<close>.\<close>

record data_channel =
  dc_conn :: nat
  dc_peer :: string
  dc_open :: bool
  dc_pings :: bool

text \<open>What a handler waits for.\<close>

datatype jam_task =
    CreateOffer nat string
  | SetOffer nat string string
  | TakeOffer nat string string
  | CreateAnswer nat string
  | SetAnswer nat string string
  | TakeAnswer nat string
  | AddCandidate nat string

record jam =
  jm_id :: string
  jm_role :: jam_role
  jm_peers :: "(string \<times> nat) list"
  jm_channels :: "(string \<times> nat) list"
  jm_latencyMs :: "(string \<times> jsnum) list"
  jm_pingTimer :: bool
  jm_joinRetryTimer :: bool
  jm_conns :: "connection list"
  jm_dcs :: "data_channel list"
  jm_tasks :: "jam_task list"

datatype ping = Ping jsnum | Pong jsnum | OtherMessage

datatype jam_effect =
    SendSignal jam_signal
  | StateChange
  | RemoteTrack string
  | SendPing nat ping

type_synonym jam_handler = "(jam, jam_effect) handler"

definition JamChannel :: "string \<Rightarrow> jam" where
  "JamChannel me = \<lparr>jm_id = me, jm_role = Idle, jm_peers = [], jm_channels = [], jm_latencyMs = [],
     jm_pingTimer = False, jm_joinRetryTimer = False, jm_conns = [], jm_dcs = [], jm_tasks = []\<rparr>"

section \<open>Roles\<close>

definition to_room :: "string \<Rightarrow> signal_kind \<Rightarrow> jam_signal" where
  "to_room me k = \<lparr>sg_jam = True, sg_from = me, sg_to = None, sg_kind = k, sg_sdp = None, sg_candidate = None\<rparr>"

definition to_peer :: "string \<Rightarrow> string \<Rightarrow> signal_kind \<Rightarrow> jam_signal" where
  "to_peer me peer k = (to_room me k)\<lparr>sg_to := Some peer\<rparr>"

definition send_to_room :: "signal_kind \<Rightarrow> jam_handler" where
  "send_to_room k j = ([SendSignal (to_room (jm_id j) k)], j)"

definition state_of :: "jam \<Rightarrow> nat \<Rightarrow> link" where
  "state_of j c = pc_state (jm_conns j ! c)"

definition peerCount :: "jam \<Rightarrow> nat" where
  "peerCount j = length (filter (\<lambda>(p, c). state_of j c = Connected) (jm_peers j))"

definition announce :: jam_handler where
  "announce = send_to_room SOffer"

definition startBroadcast :: jam_handler where
  "startBroadcast = act_if (\<lambda>j. jm_role j = Idle)
     (do_all [act (jm_role_update (\<lambda>_. Broadcasting)), emit StateChange, send_to_room SBye, announce])"

definition startListen :: jam_handler where
  "startListen = act_if (\<lambda>j. jm_role j = Idle)
     (do_all [act (jm_role_update (\<lambda>_. Listening)), emit StateChange, send_to_room SOffer,
        act (jm_joinRetryTimer_update (\<lambda>_. True))])"

definition waiting :: "jam \<Rightarrow> bool" where
  "waiting j \<longleftrightarrow> jm_role j = Listening \<and> peerCount j = 0"

definition joinRetryFires :: jam_handler where
  "joinRetryFires = act_if waiting (send_to_room SOffer)"

definition reassert :: jam_handler where
  "reassert = act_if waiting (send_to_room SOffer)"

definition close_conn :: "nat \<Rightarrow> jam \<Rightarrow> jam" where
  "close_conn c j = j\<lparr>jm_conns := (jm_conns j)[c := (jm_conns j ! c)\<lparr>pc_state := Closed\<rparr>]\<rparr>"

definition stop_jam :: jam_handler where
  "stop_jam = do_all
     [send_to_room SBye,
      act (\<lambda>j. fold (\<lambda>(p, c). close_conn c) (jm_peers j) j),
      act (\<lambda>j. j\<lparr>jm_peers := [], jm_channels := [], jm_latencyMs := []\<rparr>),
      act (\<lambda>j. j\<lparr>jm_pingTimer := False, jm_joinRetryTimer := False\<rparr>),
      act (jm_role_update (\<lambda>_. Idle)),
      emit StateChange]"

section \<open>Connections\<close>

definition close_peer :: "string \<Rightarrow> jam \<Rightarrow> jam" where
  "close_peer p j = (case map_of (jm_peers j) p of None \<Rightarrow> j | Some c \<Rightarrow> close_conn c j)"

definition newPeer :: "string \<Rightarrow> jam \<Rightarrow> nat \<times> jam" where
  "newPeer p j =
     (let c = length (jm_conns j);
          j = j\<lparr>jm_conns := jm_conns j @ [\<lparr>pc_peer = p, pc_state = New, pc_takes = False, pc_tracks = [],
                pc_localDescription = None, pc_remoteDescription = None, pc_candidates = []\<rparr>]\<rparr>;
          j = close_peer p j
      in (c, j\<lparr>jm_peers := AList.update p c (jm_peers j)\<rparr>))"

definition upd_conn :: "nat \<Rightarrow> (connection \<Rightarrow> connection) \<Rightarrow> jam \<Rightarrow> jam" where
  "upd_conn c f j = j\<lparr>jm_conns := (jm_conns j)[c := f (jm_conns j ! c)]\<rparr>"

definition add_task :: "jam_task \<Rightarrow> jam \<Rightarrow> jam" where
  "add_task t j = j\<lparr>jm_tasks := jm_tasks j @ [t]\<rparr>"

definition startPing :: "nat \<Rightarrow> jam \<Rightarrow> jam" where
  "startPing d j = j\<lparr>jm_dcs := (jm_dcs j)[d := (jm_dcs j ! d)\<lparr>dc_pings := True\<rparr>], jm_pingTimer := True\<rparr>"

text \<open>\<open>readyState === 'open'\<close>: a channel is closed with its connection.\<close>

definition channel_open :: "jam \<Rightarrow> nat \<Rightarrow> bool" where
  "channel_open j d \<longleftrightarrow> dc_open (jm_dcs j ! d) \<and> state_of j (dc_conn (jm_dcs j ! d)) \<noteq> Closed"

definition pingFires :: "jsnum \<Rightarrow> jam_handler" where
  "pingFires now j =
     (map (\<lambda>(p, d). SendPing d (Ping now)) (filter (\<lambda>(p, d). channel_open j d) (jm_channels j)), j)"

definition channel_onmessage :: "nat \<Rightarrow> jsnum \<Rightarrow> ping \<Rightarrow> jam_handler" where
  "channel_onmessage d now m j =
     (case m of
        Ping t \<Rightarrow> ([SendPing d (Pong t)], j)
      | Pong t \<Rightarrow> ([StateChange], j\<lparr>jm_latencyMs :=
          AList.update (dc_peer (jm_dcs j ! d)) (js_round (js_sub now t)) (jm_latencyMs j)\<rparr>)
      | OtherMessage \<Rightarrow> ([], j))"

definition onicecandidate :: "nat \<Rightarrow> string option \<Rightarrow> jam_handler" where
  "onicecandidate c cand j =
     (case cand of
        None \<Rightarrow> ([], j)
      | Some x \<Rightarrow> ([SendSignal ((to_peer (jm_id j) (pc_peer (jm_conns j ! c)) SIce)\<lparr>sg_candidate := Some x\<rparr>)], j))"

text \<open>\<open>pc.ondatachannel\<close>, set on the connections that take an offer.\<close>

definition ondatachannel :: "nat \<Rightarrow> jam \<Rightarrow> jam" where
  "ondatachannel c j =
     (let p = pc_peer (jm_conns j ! c)
      in j\<lparr>jm_dcs := jm_dcs j @ [\<lparr>dc_conn = c, dc_peer = p, dc_open = False, dc_pings = False\<rparr>],
           jm_channels := AList.update p (length (jm_dcs j)) (jm_channels j)\<rparr>)"

definition channel_onopen :: "nat \<Rightarrow> jam \<Rightarrow> jam" where
  "channel_onopen d j = startPing d (j\<lparr>jm_dcs := (jm_dcs j)[d := (jm_dcs j ! d)\<lparr>dc_open := True\<rparr>]\<rparr>)"

section \<open>Signals\<close>

text \<open>A JOIN or an announce; \<open>tracks\<close> are those of the local stream, if there is one.\<close>

definition on_join :: "string list option \<Rightarrow> jam_signal \<Rightarrow> jam_handler" where
  "on_join tracks m j =
     (let p = sg_from m
      in if jm_role j = Listening \<and> falsy (sg_to m) \<and> peerCount j = 0 \<and> map_of (jm_peers j) p = None
         then send_to_room SOffer j
         else if jm_role j \<noteq> Broadcasting then ([], j)
         else if (case map_of (jm_peers j) p of Some c \<Rightarrow> state_of j c = Connected | None \<Rightarrow> False) then ([], j)
         else
           (let (c, j) = newPeer p j;
                d = length (jm_dcs j);
                j = j\<lparr>jm_dcs := jm_dcs j @ [\<lparr>dc_conn = c, dc_peer = p, dc_open = False, dc_pings = False\<rparr>],
                      jm_channels := AList.update p d (jm_channels j)\<rparr>;
                j = upd_conn c (\<lambda>pc. pc\<lparr>pc_tracks := (case tracks of Some ts \<Rightarrow> ts | None \<Rightarrow> [])\<rparr>) j
            in ([], add_task (CreateOffer c p) j)))"

text \<open>The offer of the broadcaster.\<close>

definition on_offer :: "jam_signal \<Rightarrow> string \<Rightarrow> jam_handler" where
  "on_offer m sdp j =
     (if jm_role j \<noteq> Listening then ([], j)
      else
        (let (c, j) = newPeer (sg_from m) j;
             j = upd_conn c (pc_takes_update (\<lambda>_. True)) j
         in ([], add_task (TakeOffer c (sg_from m) sdp) j)))"

definition on_bye :: "string \<Rightarrow> jam_handler" where
  "on_bye p = do_all
     [act (close_peer p),
      act (\<lambda>j. j\<lparr>jm_peers := AList.delete p (jm_peers j), jm_channels := AList.delete p (jm_channels j),
        jm_latencyMs := AList.delete p (jm_latencyMs j)\<rparr>),
      emit StateChange]"

text \<open>An optional call on the connection of a peer, awaited.\<close>

definition await_peer :: "string \<Rightarrow> (nat \<Rightarrow> jam_task) \<Rightarrow> jam_handler" where
  "await_peer p task j =
     (case map_of (jm_peers j) p of None \<Rightarrow> ([], j) | Some c \<Rightarrow> ([], add_task (task c) j))"

definition handleSignal :: "string list option \<Rightarrow> jam_signal \<Rightarrow> jam_handler" where
  "handleSignal tracks m j =
     (if \<not> sg_jam m \<or> sg_from m = jm_id j then ([], j)
      else if \<not> falsy (sg_to m) \<and> sg_to m \<noteq> Some (jm_id j) then ([], j)
      else
        (case sg_kind m of
           SOffer \<Rightarrow> if falsy (sg_sdp m) then on_join tracks m j else on_offer m (the (sg_sdp m)) j
         | SAnswer \<Rightarrow> if falsy (sg_sdp m) then ([], j)
             else await_peer (sg_from m) (\<lambda>c. TakeAnswer c (the (sg_sdp m))) j
         | SIce \<Rightarrow> (case sg_candidate m of
               None \<Rightarrow> ([], j)
             | Some cand \<Rightarrow> await_peer (sg_from m) (\<lambda>c. AddCandidate c cand) j)
         | SBye \<Rightarrow> on_bye (sg_from m) j))"

text \<open>
  The rest of \<open>handleSignal\<close> after an \<open>await\<close>: \<open>None\<close> when the promise is rejected, \<open>Some\<close> of the text of the
  new description when it is fulfilled (a description with no text counts as the empty one). A fulfilled
  promise has changed the connection; the handler only reads the outcome.
\<close>

definition resume :: "jam_task \<Rightarrow> string option \<Rightarrow> jam_handler" where
  "resume t outcome j =
     (case outcome of
        None \<Rightarrow> ([StateChange], j)
      | Some text \<Rightarrow>
        (case t of
           CreateOffer c p \<Rightarrow> ([], add_task (SetOffer c p text) j)
         | SetOffer c p sdp \<Rightarrow> ([SendSignal ((to_peer (jm_id j) p SOffer)\<lparr>sg_sdp := Some sdp\<rparr>)],
             upd_conn c (pc_localDescription_update (\<lambda>_. Some (SOffer, sdp))) j)
         | TakeOffer c p sdp \<Rightarrow> ([], add_task (CreateAnswer c p)
             (upd_conn c (pc_remoteDescription_update (\<lambda>_. Some (SOffer, sdp))) j))
         | CreateAnswer c p \<Rightarrow> ([], add_task (SetAnswer c p text) j)
         | SetAnswer c p sdp \<Rightarrow> ([SendSignal ((to_peer (jm_id j) p SAnswer)\<lparr>sg_sdp := Some sdp\<rparr>)],
             upd_conn c (pc_localDescription_update (\<lambda>_. Some (SAnswer, sdp))) j)
         | TakeAnswer c sdp \<Rightarrow> ([], upd_conn c (pc_remoteDescription_update (\<lambda>_. Some (SAnswer, sdp))) j)
         | AddCandidate c cand \<Rightarrow> ([], upd_conn c (pc_candidates_update (\<lambda>cs. cs @ [cand])) j)))"

section \<open>The life of a tab\<close>

text \<open>
  What a tab does by itself: a call of the application, a timer that is set, an awaited
  promise, and the events of the browser on an object that is not closed (a closed connection stays
  closed, and \<open>close\<close> is the only way there).
\<close>

inductive jam_local :: "jam \<Rightarrow> jam_effect list \<Rightarrow> jam \<Rightarrow> bool" where
  broadcast: "startBroadcast j = (es, j') \<Longrightarrow> jam_local j es j'"
| listen: "startListen j = (es, j') \<Longrightarrow> jam_local j es j'"
| reasserted: "reassert j = (es, j') \<Longrightarrow> jam_local j es j'"
| stopped: "stop_jam j = (es, j') \<Longrightarrow> jam_local j es j'"
| retry: "jm_joinRetryTimer j \<Longrightarrow> joinRetryFires j = (es, j') \<Longrightarrow> jam_local j es j'"
| pinged: "jm_pingTimer j \<Longrightarrow> pingFires now j = (es, j') \<Longrightarrow> jam_local j es j'"
| resumed: "i < length (jm_tasks j) \<Longrightarrow>
    resume (jm_tasks j ! i) outcome (j\<lparr>jm_tasks := splice_out i (jm_tasks j)\<rparr>) = (es, j') \<Longrightarrow> jam_local j es j'"
| candidate: "c < length (jm_conns j) \<Longrightarrow> state_of j c \<noteq> Closed \<Longrightarrow> onicecandidate c cand j = (es, j') \<Longrightarrow> jam_local j es j'"
| link: "c < length (jm_conns j) \<Longrightarrow> state_of j c \<noteq> Closed \<Longrightarrow> l \<noteq> Closed \<Longrightarrow>
    jam_local j [StateChange] (upd_conn c (pc_state_update (\<lambda>_. l)) j)"
| track: "c < length (jm_conns j) \<Longrightarrow> state_of j c \<noteq> Closed \<Longrightarrow> jam_local j [RemoteTrack x] j"
| channel: "c < length (jm_conns j) \<Longrightarrow> state_of j c \<noteq> Closed \<Longrightarrow> pc_takes (jm_conns j ! c) \<Longrightarrow>
    jam_local j [] (ondatachannel c j)"
| opened: "d < length (jm_dcs j) \<Longrightarrow> state_of j (dc_conn (jm_dcs j ! d)) \<noteq> Closed \<Longrightarrow> jam_local j [] (channel_onopen d j)"
| shut: "jam_local j [] (j\<lparr>jm_dcs := (jm_dcs j)[d := (jm_dcs j ! d)\<lparr>dc_open := False\<rparr>]\<rparr>)"
| received: "d < length (jm_dcs j) \<Longrightarrow> state_of j (dc_conn (jm_dcs j ! d)) \<noteq> Closed \<Longrightarrow> dc_pings (jm_dcs j ! d) \<Longrightarrow>
    channel_onmessage d now m j = (es, j') \<Longrightarrow> jam_local j es j'"

text \<open>A step of a tab is one of its own or the delivery of a signal.\<close>

inductive jam_step :: "jam \<Rightarrow> jam_effect list \<Rightarrow> jam \<Rightarrow> bool" where
  own: "jam_local j es j' \<Longrightarrow> jam_step j es j'"
| signal: "handleSignal tracks m j = (es, j') \<Longrightarrow> jam_step j es j'"

inductive jam_reachable :: "string \<Rightarrow> jam \<Rightarrow> bool" where
  start: "jam_reachable me (JamChannel me)"
| step: "jam_reachable me j \<Longrightarrow> jam_step j es j' \<Longrightarrow> jam_reachable me j'"

section \<open>No connection leaks\<close>

text \<open>
  Every connection that is not closed is the one of its peer, and every peer has an open connection;
  an idle tab has neither connection nor timer, a listening one has its retry timer.
\<close>

definition jam_ok :: "jam \<Rightarrow> bool" where
  "jam_ok j \<longleftrightarrow> distinct (map fst (jm_peers j)) \<and>
     (\<forall>c<length (jm_conns j). state_of j c \<noteq> Closed \<longrightarrow> map_of (jm_peers j) (pc_peer (jm_conns j ! c)) = Some c) \<and>
     (\<forall>p c. map_of (jm_peers j) p = Some c \<longrightarrow>
        c < length (jm_conns j) \<and> pc_peer (jm_conns j ! c) = p \<and> state_of j c \<noteq> Closed) \<and>
     (\<forall>dc\<in>set (jm_dcs j). dc_conn dc < length (jm_conns j)) \<and>
     (jm_joinRetryTimer j \<longleftrightarrow> jm_role j = Listening) \<and>
     (jm_role j = Idle \<longrightarrow> jm_peers j = [] \<and> jm_channels j = [] \<and> jm_latencyMs j = [] \<and> \<not> jm_pingTimer j)"

lemma nth_update_if: "xs[c := y] ! i = (if i = c \<and> c < length xs then y else xs ! i)"
  by (cases "c < length xs") (auto simp: nth_list_update list_update_beyond)

lemma jam_okD:
  assumes "jam_ok j"
  shows "distinct (map fst (jm_peers j))"
    and "c < length (jm_conns j) \<Longrightarrow> pc_state (jm_conns j ! c) \<noteq> Closed \<Longrightarrow> map_of (jm_peers j) (pc_peer (jm_conns j ! c)) = Some c"
    and "map_of (jm_peers j) p = Some c \<Longrightarrow> c < length (jm_conns j) \<and> pc_peer (jm_conns j ! c) = p \<and> pc_state (jm_conns j ! c) \<noteq> Closed"
    and "dc \<in> set (jm_dcs j) \<Longrightarrow> dc_conn dc < length (jm_conns j)"
  using assms by (auto simp: jam_ok_def state_of_def simp del: map_of_eq_Some_iff)

lemma jam_ok_tasks [simp]: "jam_ok (j\<lparr>jm_tasks := ts\<rparr>) \<longleftrightarrow> jam_ok j"
  by (simp add: jam_ok_def state_of_def)

lemma jam_ok_add_task [simp]: "jam_ok (add_task t j) \<longleftrightarrow> jam_ok j"
  by (simp add: add_task_def)

lemma upd_conn_key:
  assumes "pc_peer (f (jm_conns j ! c)) = pc_peer (jm_conns j ! c)"
    and "pc_state (f (jm_conns j ! c)) = Closed \<longleftrightarrow> pc_state (jm_conns j ! c) = Closed"
  shows "pc_peer (jm_conns (upd_conn c f j) ! i) = pc_peer (jm_conns j ! i)"
    and "pc_state (jm_conns (upd_conn c f j) ! i) = Closed \<longleftrightarrow> pc_state (jm_conns j ! i) = Closed"
  using assms by (simp_all add: upd_conn_def nth_update_if)

lemma upd_conn_same [simp]:
  "jm_peers (upd_conn c f j) = jm_peers j" "length (jm_conns (upd_conn c f j)) = length (jm_conns j)"
  "jm_dcs (upd_conn c f j) = jm_dcs j" "jm_role (upd_conn c f j) = jm_role j"
  "jm_joinRetryTimer (upd_conn c f j) = jm_joinRetryTimer j" "jm_pingTimer (upd_conn c f j) = jm_pingTimer j"
  "jm_channels (upd_conn c f j) = jm_channels j" "jm_latencyMs (upd_conn c f j) = jm_latencyMs j"
  "jm_id (upd_conn c f j) = jm_id j" "jm_tasks (upd_conn c f j) = jm_tasks j"
  by (simp_all add: upd_conn_def)

lemma jam_ok_upd:
  assumes "jam_ok j" and "pc_peer (f (jm_conns j ! c)) = pc_peer (jm_conns j ! c)"
    and "pc_state (f (jm_conns j ! c)) = Closed \<longleftrightarrow> pc_state (jm_conns j ! c) = Closed"
  shows "jam_ok (upd_conn c f j)"
  using assms(1) upd_conn_key [where f = f and j = j and c = c, OF assms(2,3)]
  by (simp add: jam_ok_def state_of_def del: map_of_eq_Some_iff)

lemma close_peer_conns:
  assumes "jam_ok j" and "i < length (jm_conns j)"
  shows "pc_peer (jm_conns (close_peer p j) ! i) = pc_peer (jm_conns j ! i)"
    and "pc_state (jm_conns (close_peer p j) ! i) = Closed \<longleftrightarrow> pc_state (jm_conns j ! i) = Closed \<or> pc_peer (jm_conns j ! i) = p"
proof -
  have mine: "map_of (jm_peers j) p = Some i" if "pc_peer (jm_conns j ! i) = p" "pc_state (jm_conns j ! i) \<noteq> Closed"
    using that jam_okD(2) [OF assms] by simp
  have theirs: "pc_peer (jm_conns j ! c) = p" if "map_of (jm_peers j) p = Some c" for c
    using that jam_okD(3) [OF assms(1)] by blast
  show "pc_peer (jm_conns (close_peer p j) ! i) = pc_peer (jm_conns j ! i)"
    by (simp add: close_peer_def close_conn_def nth_update_if split: option.split)
  show "pc_state (jm_conns (close_peer p j) ! i) = Closed \<longleftrightarrow> pc_state (jm_conns j ! i) = Closed \<or> pc_peer (jm_conns j ! i) = p"
  proof (cases "map_of (jm_peers j) p")
    case None
    then show ?thesis using mine by (auto simp: close_peer_def)
  next
    case (Some c)
    then have "jm_conns (close_peer p j) ! i = (if i = c then (jm_conns j ! c)\<lparr>pc_state := Closed\<rparr> else jm_conns j ! i)"
      using assms(2) by (simp add: close_peer_def close_conn_def nth_update_if)
    moreover have "i = c \<or> pc_state (jm_conns j ! i) = Closed \<or> pc_peer (jm_conns j ! i) \<noteq> p"
      using mine Some by (metis option.inject)
    ultimately show ?thesis using theirs [OF Some] by (cases "i = c") auto
  qed
qed

lemma close_peer_same [simp]:
  "jm_peers (close_peer p j) = jm_peers j" "length (jm_conns (close_peer p j)) = length (jm_conns j)"
  "jm_dcs (close_peer p j) = jm_dcs j" "jm_role (close_peer p j) = jm_role j"
  "jm_joinRetryTimer (close_peer p j) = jm_joinRetryTimer j" "jm_pingTimer (close_peer p j) = jm_pingTimer j"
  "jm_channels (close_peer p j) = jm_channels j" "jm_latencyMs (close_peer p j) = jm_latencyMs j"
  "jm_id (close_peer p j) = jm_id j" "jm_tasks (close_peer p j) = jm_tasks j"
  by (simp_all add: close_peer_def close_conn_def split: option.splits)

lemma on_bye_ok:
  assumes "jam_ok j"
  shows "jam_ok (snd (on_bye p j))"
  using assms close_peer_conns [OF assms, where p = p] jam_okD(3,4) [OF assms]
  by (auto simp: on_bye_def handler_defs jam_ok_def state_of_def delete_conv' distinct_delete
      simp del: map_of_eq_Some_iff split: if_splits)


lemma newPeer_same [simp]:
  "fst (newPeer p j) = length (jm_conns j)" "length (jm_conns (snd (newPeer p j))) = Suc (length (jm_conns j))"
  "jm_peers (snd (newPeer p j)) = AList.update p (length (jm_conns j)) (jm_peers j)"
  "jm_dcs (snd (newPeer p j)) = jm_dcs j" "jm_role (snd (newPeer p j)) = jm_role j"
  "jm_joinRetryTimer (snd (newPeer p j)) = jm_joinRetryTimer j" "jm_pingTimer (snd (newPeer p j)) = jm_pingTimer j"
  "jm_channels (snd (newPeer p j)) = jm_channels j" "jm_id (snd (newPeer p j)) = jm_id j"
  "jm_tasks (snd (newPeer p j)) = jm_tasks j"
  by (simp_all add: newPeer_def Let_def)

lemma newPeer_conns:
  assumes "jam_ok j"
  shows "i < length (jm_conns j) \<Longrightarrow> jm_conns (snd (newPeer p j)) ! i = jm_conns (close_peer p j) ! i"
    and "jm_conns (snd (newPeer p j)) ! length (jm_conns j) = \<lparr>pc_peer = p, pc_state = New, pc_takes = False,
      pc_tracks = [], pc_localDescription = None, pc_remoteDescription = None, pc_candidates = []\<rparr>"
  using jam_okD(3) [OF assms, of p]
  by (auto simp: newPeer_def Let_def close_peer_def close_conn_def nth_update_if nth_append
      simp del: map_of_eq_Some_iff split: option.splits)

lemma newPeer_ok:
  assumes "jam_ok j" and "jm_role j \<noteq> Idle"
  shows "jam_ok (snd (newPeer p j))"
  using assms newPeer_conns [OF assms(1), where p = p] close_peer_conns [OF assms(1), where p = p] jam_okD(3,4) [OF assms(1)]
  by (auto simp: jam_ok_def state_of_def update_conv' distinct_update less_Suc_eq
      simp del: map_of_eq_Some_iff split: if_splits)


lemma close_all:
  "length (jm_conns (fold (\<lambda>(p, c). close_conn c) ps j)) = length (jm_conns j) \<and>
   jm_dcs (fold (\<lambda>(p, c). close_conn c) ps j) = jm_dcs j \<and>
   (i < length (jm_conns j) \<longrightarrow> pc_state (jm_conns (fold (\<lambda>(p, c). close_conn c) ps j) ! i) = Closed \<longleftrightarrow>
     i \<in> snd ` set ps \<or> pc_state (jm_conns j ! i) = Closed)"
proof (induction ps arbitrary: j)
  case (Cons x ps)
  show ?case
    using Cons.IH [of "close_conn (snd x) j"] by (auto simp: split_beta close_conn_def nth_update_if)
qed simp

lemma stop_ok:
  assumes "jam_ok j"
  shows "jam_ok (snd (stop_jam j))"
proof -
  have "pc_state (jm_conns (fold (\<lambda>(p, c). close_conn c) (jm_peers j) j) ! i) = Closed" if "i < length (jm_conns j)" for i
    using that jam_okD(2) [OF assms that] close_all [of "jm_peers j" j i] by (force dest!: map_of_SomeD)
  then show ?thesis
    using close_all [of "jm_peers j" j] jam_okD(4) [OF assms]
    by (simp add: stop_jam_def send_to_room_def handler_defs jam_ok_def state_of_def)
qed

lemma on_join_ok:
  assumes "jam_ok j"
  shows "jam_ok (snd (on_join tracks m j))"
proof -
  have "jam_ok (snd (newPeer p j)\<lparr>jm_dcs := jm_dcs j @ [\<lparr>dc_conn = length (jm_conns j), dc_peer = p, dc_open = False, dc_pings = False\<rparr>],
      jm_channels := ch\<rparr>)" if "jm_role j \<noteq> Idle" for p ch
    using newPeer_ok [OF assms that, of p] that by (auto simp: jam_ok_def state_of_def simp del: map_of_eq_Some_iff)
  then show ?thesis
    using assms by (auto simp: on_join_def send_to_room_def split_beta Let_def intro!: jam_ok_upd)
qed

lemma on_offer_ok:
  assumes "jam_ok j"
  shows "jam_ok (snd (on_offer m sdp j))"
  using assms newPeer_ok [OF assms] by (auto simp: on_offer_def split_beta Let_def intro!: jam_ok_upd)

lemma await_peer_ok [simp]: "jam_ok (snd (await_peer p t j)) \<longleftrightarrow> jam_ok j"
  by (simp add: await_peer_def split: option.splits)

lemma handleSignal_ok: "jam_ok j \<Longrightarrow> jam_ok (snd (handleSignal tracks m j))"
  by (auto simp: handleSignal_def on_join_ok on_offer_ok on_bye_ok split: signal_kind.splits option.splits)

lemma resume_ok: "jam_ok j \<Longrightarrow> jam_ok (snd (resume t outcome j))"
  by (auto simp: resume_def intro!: jam_ok_upd split: option.splits jam_task.splits)


lemma open_not_idle:
  assumes "jam_ok j" and "c < length (jm_conns j)" and "pc_state (jm_conns j ! c) \<noteq> Closed"
  shows "jm_role j \<noteq> Idle"
  using jam_okD(2) [OF assms] assms(1) by (auto simp: jam_ok_def simp del: map_of_eq_Some_iff)

lemma dc_bound_update:
  assumes "\<forall>dc\<in>set dcs. dc_conn dc < n" and "dc_conn (f (dcs ! d)) = dc_conn (dcs ! d)"
  shows "\<forall>dc\<in>set (dcs[d := f (dcs ! d)]). dc_conn dc < n"
  using assms by (cases "d < length dcs") (auto simp: list_update_beyond dest!: set_update_subset_insert [THEN subsetD])

lemma channel_handlers_ok:
  assumes "jam_ok j" and "jm_role j \<noteq> Idle"
  shows "c < length (jm_conns j) \<Longrightarrow> jam_ok (ondatachannel c j)"
    and "jam_ok (startPing d j)" and "jam_ok (channel_onopen d j)" and "jam_ok (snd (channel_onmessage d now m j))"
proof -
  show "jam_ok (ondatachannel c j)" if "c < length (jm_conns j)"
    using assms that by (auto simp: ondatachannel_def jam_ok_def state_of_def Let_def simp del: map_of_eq_Some_iff)
  have dcs: "jam_ok (j\<lparr>jm_dcs := (jm_dcs j)[d := f (jm_dcs j ! d)], jm_pingTimer := t\<rparr>)"
    if "\<And>x. dc_conn (f x) = dc_conn x" for f t
    using assms dc_bound_update [of "jm_dcs j" "length (jm_conns j)" f d] that
    by (simp add: jam_ok_def state_of_def del: map_of_eq_Some_iff)
  show "jam_ok (startPing d j)" using dcs [of "dc_pings_update (\<lambda>_. True)"] by (simp add: startPing_def)
  show "jam_ok (channel_onopen d j)"
    using dcs [of "\<lambda>x. x\<lparr>dc_open := True, dc_pings := True\<rparr>"]
    by (cases "d < length (jm_dcs j)") (simp_all add: channel_onopen_def startPing_def list_update_beyond)
  show "jam_ok (snd (channel_onmessage d now m j))"
    using assms by (auto simp: channel_onmessage_def jam_ok_def state_of_def simp del: map_of_eq_Some_iff split: ping.split)
qed

lemma roles_ok:
  assumes "jam_ok j"
  shows "jam_ok (snd (startBroadcast j))" and "jam_ok (snd (startListen j))"
    and "jam_ok (snd (reassert j))" and "jam_ok (snd (joinRetryFires j))"
  using assms
  by (auto simp: startBroadcast_def announce_def startListen_def reassert_def joinRetryFires_def send_to_room_def
      handler_defs jam_ok_def state_of_def simp del: map_of_eq_Some_iff)

lemma jam_local_ok: "jam_local j es j' \<Longrightarrow> jam_ok j \<Longrightarrow> jam_ok j'"
proof (induction rule: jam_local.induct)
  case (resumed i j outcome es j')
  then show ?case using resume_ok [of "j\<lparr>jm_tasks := splice_out i (jm_tasks j)\<rparr>" "jm_tasks j ! i" outcome] by simp
next
  case (opened d j)
  then show ?case
    using open_not_idle channel_handlers_ok(3) jam_okD(4) by (metis nth_mem state_of_def)
next
  case (received d j now m es j')
  then show ?case
    using open_not_idle channel_handlers_ok(4) jam_okD(4) by (metis nth_mem snd_conv state_of_def)
next
  case (channel c j)
  then show ?case using open_not_idle channel_handlers_ok(1) by (metis state_of_def)
next
  case (shut j d)
  then show ?case
    using dc_bound_update [of "jm_dcs j" "length (jm_conns j)" "dc_open_update (\<lambda>_. False)" d]
    by (simp add: jam_ok_def state_of_def del: map_of_eq_Some_iff)
next
  case (link c j l)
  then show ?case by (auto simp: state_of_def intro: jam_ok_upd)
qed (use roles_ok stop_ok in \<open>force simp: pingFires_def onicecandidate_def split: option.splits\<close>)+

lemma handleSignal_step_ok: "handleSignal tracks m j = (es, j') \<Longrightarrow> jam_ok j \<Longrightarrow> jam_ok j'"
  using handleSignal_ok [of j tracks m] by simp

lemma jam_step_ok: "jam_step j es j' \<Longrightarrow> jam_ok j \<Longrightarrow> jam_ok j'"
  by (auto elim!: jam_step.cases intro: jam_local_ok handleSignal_step_ok)

lemma JamChannel_ok: "jam_ok (JamChannel me)"
  by (simp add: JamChannel_def jam_ok_def)

lemma reachable_jam_ok: "jam_reachable me j \<Longrightarrow> jam_ok j"
  by (induction rule: jam_reachable.induct) (auto intro: JamChannel_ok jam_step_ok)

lemma signal_id: "handleSignal tracks m j = (es, j') \<Longrightarrow> jm_id j' = jm_id j"
  by (auto simp: handleSignal_def on_join_def on_offer_def on_bye_def await_peer_def send_to_room_def handler_defs
      add_task_def split_beta split: if_splits signal_kind.splits option.splits)

lemma local_id: "jam_local j es j' \<Longrightarrow> jm_id j' = jm_id j"
proof (induction rule: jam_local.induct)
  case (stopped j es j')
  have "jm_id (fold (\<lambda>(p, c). close_conn c) ps j) = jm_id j" for ps
    by (induction ps arbitrary: j) (auto simp: close_conn_def)
  with stopped show ?case by (auto simp: stop_jam_def handler_defs send_to_room_def)
next
  case (resumed i j outcome es j')
  then show ?case by (auto simp: resume_def add_task_def split: option.splits jam_task.splits)
qed (auto simp: startBroadcast_def startListen_def reassert_def joinRetryFires_def announce_def send_to_room_def
    handler_defs pingFires_def onicecandidate_def ondatachannel_def channel_onopen_def startPing_def
    channel_onmessage_def Let_def split: option.splits ping.splits if_splits)

lemma step_id: "jam_step j es j' \<Longrightarrow> jm_id j' = jm_id j"
  by (auto elim!: jam_step.cases dest: signal_id local_id)

lemma reachable_id: "jam_reachable me j \<Longrightarrow> jm_id j = me"
  by (induction rule: jam_reachable.induct) (auto simp: JamChannel_def step_id)

section \<open>A connected peer is left alone\<close>

text \<open>What ends a connection on purpose: its peer says goodbye, or offers a new one.\<close>

definition ends_connection :: "jam_signal \<Rightarrow> string \<Rightarrow> bool" where
  "ends_connection m p \<longleftrightarrow> sg_from m = p \<and> (sg_kind m = SBye \<or> sg_kind m = SOffer \<and> \<not> falsy (sg_sdp m))"

lemma newPeer_keeps_others:
  assumes "jam_ok j" and "map_of (jm_peers j) p = Some c" and "q \<noteq> p"
  shows "jm_conns (snd (newPeer q j)) ! c = jm_conns j ! c" and "c < length (jm_conns j)"
    and "map_of (jm_peers (snd (newPeer q j))) p = Some c"
proof -
  have c: "c < length (jm_conns j)" "pc_peer (jm_conns j ! c) = p" using jam_okD(3) [OF assms(1,2)] by auto
  then have "map_of (jm_peers j) q \<noteq> Some c" using jam_okD(3) [OF assms(1), of q c] assms(3) by auto
  then show "jm_conns (snd (newPeer q j)) ! c = jm_conns j ! c"
    using newPeer_conns(1) [OF assms(1) c(1), of q]
    by (auto simp: close_peer_def close_conn_def nth_update_if simp del: map_of_eq_Some_iff split: option.split)
  show "c < length (jm_conns j)" by fact
  show "map_of (jm_peers (snd (newPeer q j))) p = Some c" using assms(2,3) by (simp add: update_conv')
qed

lemma upd_conn_nth [simp]:
  "jm_conns (upd_conn c f j) ! i = (if i = c \<and> c < length (jm_conns j) then f (jm_conns j ! c) else jm_conns j ! i)"
  by (simp add: upd_conn_def nth_update_if)

lemma add_task_same [simp]:
  "jm_conns (add_task t j) = jm_conns j" "jm_peers (add_task t j) = jm_peers j" "jm_tasks (add_task t j) = jm_tasks j @ [t]"
  "jm_role (add_task t j) = jm_role j" "jm_id (add_task t j) = jm_id j"
  by (simp_all add: add_task_def)

lemma connected_kept:
  assumes "jam_ok j" and "handleSignal tracks m j = (es, j')" and "map_of (jm_peers j) p = Some c"
    and "state_of j c = Connected" and "\<not> ends_connection m p"
  shows "map_of (jm_peers j') p = Some c \<and> state_of j' c = Connected"
proof (cases "sg_from m = p")
  case True
  then show ?thesis
    using assms
    by (auto simp: handleSignal_def on_join_def send_to_room_def await_peer_def state_of_def ends_connection_def split_beta
        simp del: map_of_eq_Some_iff split: if_splits signal_kind.splits option.splits)
next
  case False
  note k = newPeer_keeps_others [OF assms(1,3) False]
  have closed: "jm_conns (close_peer (sg_from m) j) ! c = jm_conns j ! c"
    using jam_okD(3) [OF assms(1,3)] jam_okD(3) [OF assms(1), of "sg_from m" c] False
    by (auto simp: close_peer_def close_conn_def nth_update_if simp del: map_of_eq_Some_iff split: option.split)
  show ?thesis
    using assms(2-4) k closed False
    by (auto simp: handleSignal_def on_join_def on_offer_def on_bye_def send_to_room_def await_peer_def state_of_def
        split_beta Let_def handler_defs delete_conv'
        simp del: map_of_eq_Some_iff split: if_splits signal_kind.splits option.splits)
qed

section \<open>A room\<close>

text \<open>
  The tabs of a project behind the relay of the server, which hands every signal to every tab, in
  order; a tab that is offline misses some. The sender receives its own signals too and ignores them.
\<close>

record room =
  rm_tabs :: "string \<Rightarrow> jam"
  rm_inbox :: "string \<Rightarrow> jam_signal list"

fun signals_of :: "jam_effect list \<Rightarrow> jam_signal list" where
  "signals_of [] = []"
| "signals_of (SendSignal m # es) = m # signals_of es"
| "signals_of (_ # es) = signals_of es"

definition relayed :: "string \<Rightarrow> jam_effect list \<Rightarrow> jam \<Rightarrow> room \<Rightarrow> room" where
  "relayed i es j r =
     r\<lparr>rm_tabs := (rm_tabs r)(i := j), rm_inbox := (\<lambda>k. rm_inbox r k @ signals_of es)\<rparr>"

inductive room_step :: "room \<Rightarrow> room \<Rightarrow> bool" where
  own: "jam_local (rm_tabs r i) es j \<Longrightarrow> room_step r (relayed i es j r)"
| deliver: "rm_inbox r i = m # ms \<Longrightarrow> handleSignal tracks m (rm_tabs r i) = (es, j) \<Longrightarrow>
    room_step r (relayed i es j (r\<lparr>rm_inbox := (rm_inbox r)(i := ms)\<rparr>))"
| lost: "rm_inbox r i = m # ms \<Longrightarrow> room_step r (r\<lparr>rm_inbox := (rm_inbox r)(i := ms)\<rparr>)"

definition room_start :: room where
  "room_start = \<lparr>rm_tabs = JamChannel, rm_inbox = (\<lambda>_. [])\<rparr>"

lemma room_tabs_reachable: "room_step\<^sup>*\<^sup>* room_start r \<Longrightarrow> jam_reachable i (rm_tabs r i)"
proof (induction rule: rtranclp_induct)
  case base
  then show ?case by (simp add: room_start_def jam_reachable.start)
next
  case (step r r')
  from step(2,3) show ?case
    by (cases rule: room_step.cases) (auto simp: relayed_def intro: jam_reachable.step jam_step.intros)
qed

section \<open>A listener is never stranded\<close>

lemma resume_last:
  assumes "jm_tasks j = ts @ [t]" and "resume t outcome (j\<lparr>jm_tasks := ts\<rparr>) = (es, j')"
  shows "jam_local j es j'"
  by (rule jam_local.resumed [of "length ts" j outcome]) (use assms in \<open>simp_all add: splice_out_def nth_append\<close>)

text \<open>Two ends whose descriptions belong together.\<close>

definition ends_match :: "jam \<Rightarrow> jam \<Rightarrow> string \<Rightarrow> string \<Rightarrow> bool" where
  "ends_match b l offer answer \<longleftrightarrow>
     (case (map_of (jm_peers b) (jm_id l), map_of (jm_peers l) (jm_id b)) of
        (Some c, Some d) \<Rightarrow>
          pc_localDescription (jm_conns b ! c) = Some (SOffer, offer) \<and>
          pc_remoteDescription (jm_conns l ! d) = Some (SOffer, offer) \<and>
          pc_localDescription (jm_conns l ! d) = Some (SAnswer, answer) \<and>
          pc_remoteDescription (jm_conns b ! c) = Some (SAnswer, answer)
      | _ \<Rightarrow> False)"

definition connected_to :: "jam \<Rightarrow> string \<Rightarrow> bool" where
  "connected_to j p \<longleftrightarrow> (case map_of (jm_peers j) p of Some c \<Rightarrow> state_of j c = Connected | None \<Rightarrow> False)"

text \<open>What a tab has after the broadcaster took a JOIN, up to its next task.\<close>

lemma join_taken:
  assumes "jam_ok b" and "jm_role b = Broadcasting" and "\<not> connected_to b l" and "jm_id b \<noteq> l"
  shows "\<exists>c b'. handleSignal tracks (to_room l SOffer) b = ([], b') \<and> jm_tasks b' = jm_tasks b @ [CreateOffer c l] \<and>
    map_of (jm_peers b') l = Some c \<and> c < length (jm_conns b') \<and> jm_id b' = jm_id b"
  using assms
  by (auto simp: handleSignal_def to_room_def on_join_def falsy_def connected_to_def split_beta Let_def update_conv'
      simp del: map_of_eq_Some_iff split: option.splits)

lemma offer_made:
  assumes "jm_tasks b = ts @ [CreateOffer c l]" and "map_of (jm_peers b) l = Some c" and "c < length (jm_conns b)"
  shows "\<exists>b1 b2. jam_local b [] b1 \<and>
    jam_local b1 [SendSignal ((to_peer (jm_id b) l SOffer)\<lparr>sg_sdp := Some offer\<rparr>)] b2 \<and>
    map_of (jm_peers b2) l = Some c \<and> c < length (jm_conns b2) \<and> jm_id b2 = jm_id b \<and> jm_tasks b2 = ts \<and>
    pc_localDescription (jm_conns b2 ! c) = Some (SOffer, offer)"
proof -
  let ?b1 = "add_task (SetOffer c l offer) (b\<lparr>jm_tasks := ts\<rparr>)"
  let ?b2 = "upd_conn c (pc_localDescription_update (\<lambda>_. Some (SOffer, offer))) (b\<lparr>jm_tasks := ts\<rparr>)"
  have "jam_local b [] ?b1"
    by (rule resume_last [OF assms(1), where outcome = "Some offer"]) (simp add: resume_def)
  moreover have "jam_local ?b1 [SendSignal ((to_peer (jm_id b) l SOffer)\<lparr>sg_sdp := Some offer\<rparr>)] ?b2"
    by (rule resume_last [where ts = ts and t = "SetOffer c l offer" and outcome = "Some offer"])
      (simp_all add: resume_def add_task_def)
  ultimately show ?thesis using assms by fastforce
qed

lemma offer_taken:
  assumes "jam_ok l" and "jm_role l = Listening" and "b \<noteq> jm_id l" and "offer \<noteq> []"
  shows "\<exists>d l'. handleSignal tracks ((to_peer b (jm_id l) SOffer)\<lparr>sg_sdp := Some offer\<rparr>) l = ([], l') \<and>
    jm_tasks l' = jm_tasks l @ [TakeOffer d b offer] \<and> map_of (jm_peers l') b = Some d \<and>
    d < length (jm_conns l') \<and> jm_id l' = jm_id l"
  using assms
  by (auto simp: handleSignal_def to_room_def to_peer_def on_offer_def falsy_def split_beta Let_def update_conv'
      simp del: map_of_eq_Some_iff)

lemma answer_made:
  assumes "jm_tasks l = ts @ [TakeOffer d b offer]" and "map_of (jm_peers l) b = Some d" and "d < length (jm_conns l)"
  shows "\<exists>l1 l2 l3. jam_local l [] l1 \<and> jam_local l1 [] l2 \<and>
    jam_local l2 [SendSignal ((to_peer (jm_id l) b SAnswer)\<lparr>sg_sdp := Some answer\<rparr>)] l3 \<and>
    map_of (jm_peers l3) b = Some d \<and> jm_id l3 = jm_id l \<and>
    pc_remoteDescription (jm_conns l3 ! d) = Some (SOffer, offer) \<and>
    pc_localDescription (jm_conns l3 ! d) = Some (SAnswer, answer)"
proof -
  let ?r = "upd_conn d (pc_remoteDescription_update (\<lambda>_. Some (SOffer, offer))) (l\<lparr>jm_tasks := ts\<rparr>)"
  let ?l1 = "add_task (CreateAnswer d b) ?r" and ?l2 = "add_task (SetAnswer d b answer) ?r"
  let ?l3 = "upd_conn d (pc_localDescription_update (\<lambda>_. Some (SAnswer, answer))) ?r"
  have r: "?r\<lparr>jm_tasks := ts\<rparr> = ?r" by (simp add: upd_conn_def)
  have "jam_local l [] ?l1"
    by (rule resume_last [OF assms(1), where outcome = "Some answer"]) (simp add: resume_def)
  moreover have "jam_local ?l1 [] ?l2"
    by (rule resume_last [where ts = ts and t = "CreateAnswer d b" and outcome = "Some answer"])
      (simp_all add: resume_def add_task_def upd_conn_def)
  moreover have "jam_local ?l2 [SendSignal ((to_peer (jm_id l) b SAnswer)\<lparr>sg_sdp := Some answer\<rparr>)] ?l3"
    by (rule resume_last [where ts = ts and t = "SetAnswer d b answer" and outcome = "Some answer"])
      (simp_all add: resume_def add_task_def upd_conn_def)
  ultimately show ?thesis using assms(2,3) by fastforce
qed

lemma answer_taken:
  assumes "map_of (jm_peers b) l = Some c" and "c < length (jm_conns b)" and "l \<noteq> jm_id b" and "answer \<noteq> []"
  shows "\<exists>b1 b2. handleSignal tracks ((to_peer l (jm_id b) SAnswer)\<lparr>sg_sdp := Some answer\<rparr>) b = ([], b1) \<and>
    jam_local b1 [] b2 \<and> map_of (jm_peers b2) l = Some c \<and> jm_id b2 = jm_id b \<and>
    pc_localDescription (jm_conns b2 ! c) = pc_localDescription (jm_conns b ! c) \<and>
    pc_remoteDescription (jm_conns b2 ! c) = Some (SAnswer, answer)"
proof -
  let ?b1 = "add_task (TakeAnswer c answer) b"
  let ?b2 = "upd_conn c (pc_remoteDescription_update (\<lambda>_. Some (SAnswer, answer))) b"
  have "handleSignal tracks ((to_peer l (jm_id b) SAnswer)\<lparr>sg_sdp := Some answer\<rparr>) b = ([], ?b1)"
    using assms by (auto simp: handleSignal_def to_room_def to_peer_def falsy_def await_peer_def)
  moreover have "jam_local ?b1 [] ?b2"
    by (rule resume_last [where ts = "jm_tasks b" and t = "TakeAnswer c answer" and outcome = "Some []"])
      (simp_all add: resume_def add_task_def upd_conn_def)
  ultimately show ?thesis using assms(1,2) by fastforce
qed

text \<open>The room can come to a state where \<open>B\<close> and \<open>L\<close> are as given, with what they have yet to receive.\<close>

definition can_reach ::
  "room \<Rightarrow> string \<Rightarrow> string \<Rightarrow> jam \<Rightarrow> jam \<Rightarrow> jam_signal list \<Rightarrow> jam_signal list \<Rightarrow> bool" where
  "can_reach r B L b l ib il \<longleftrightarrow>
     (\<exists>r'. room_step\<^sup>*\<^sup>* r r' \<and> rm_tabs r' B = b \<and> rm_tabs r' L = l \<and> rm_inbox r' B = ib \<and> rm_inbox r' L = il)"

lemma can_own:
  assumes "can_reach r B L b l ib il" and "B \<noteq> L"
  shows "jam_local b es b' \<Longrightarrow> can_reach r B L b' l (ib @ signals_of es) (il @ signals_of es)"
    and "jam_local l es l' \<Longrightarrow> can_reach r B L b l' (ib @ signals_of es) (il @ signals_of es)"
proof -
  obtain r' where r': "room_step\<^sup>*\<^sup>* r r'" "rm_tabs r' B = b" "rm_tabs r' L = l" "rm_inbox r' B = ib" "rm_inbox r' L = il"
    using assms(1) by (auto simp: can_reach_def)
  show "can_reach r B L b' l (ib @ signals_of es) (il @ signals_of es)" if "jam_local b es b'"
    using rtranclp.rtrancl_into_rtrancl [OF r'(1) room_step.own [of r' B es b']] that r' assms(2)
    by (auto simp: can_reach_def relayed_def intro!: exI [of _ "relayed B es b' r'"])
  show "can_reach r B L b l' (ib @ signals_of es) (il @ signals_of es)" if "jam_local l es l'"
    using rtranclp.rtrancl_into_rtrancl [OF r'(1) room_step.own [of r' L es l']] that r' assms(2)
    by (auto simp: can_reach_def relayed_def intro!: exI [of _ "relayed L es l' r'"])
qed

lemma can_deliver:
  assumes "can_reach r B L b l ib il" and "B \<noteq> L"
  shows "ib = m # ms \<Longrightarrow> handleSignal tracks m b = ([], b') \<Longrightarrow> can_reach r B L b' l ms il"
    and "il = m # ms \<Longrightarrow> handleSignal tracks m l = ([], l') \<Longrightarrow> can_reach r B L b l' ib ms"
proof -
  obtain r' where r': "room_step\<^sup>*\<^sup>* r r'" "rm_tabs r' B = b" "rm_tabs r' L = l" "rm_inbox r' B = ib" "rm_inbox r' L = il"
    using assms(1) by (auto simp: can_reach_def)
  show "can_reach r B L b' l ms il" if "ib = m # ms" "handleSignal tracks m b = ([], b')"
    using rtranclp.rtrancl_into_rtrancl [OF r'(1) room_step.deliver [of r' B m ms tracks "[]" b']] that r' assms(2)
    by (auto simp: can_reach_def relayed_def
        intro!: exI [of _ "relayed B [] b' (r'\<lparr>rm_inbox := (rm_inbox r')(B := ms)\<rparr>)"])
  show "can_reach r B L b l' ib ms" if "il = m # ms" "handleSignal tracks m l = ([], l')"
    using rtranclp.rtrancl_into_rtrancl [OF r'(1) room_step.deliver [of r' L m ms tracks "[]" l']] that r' assms(2)
    by (auto simp: can_reach_def relayed_def
        intro!: exI [of _ "relayed L [] l' (r'\<lparr>rm_inbox := (rm_inbox r')(L := ms)\<rparr>)"])
qed

lemma own_signal_ignored: "sg_from m = jm_id j \<Longrightarrow> handleSignal tracks m j = ([], j)"
  by (simp add: handleSignal_def)

lemma handshake:
  assumes "jam_ok b" and "jam_ok l" and "jm_id b = B" and "jm_id l = L" and "B \<noteq> L"
    and "jm_role b = Broadcasting" and "waiting l" and "\<not> connected_to b L"
    and "can_reach r B L b l [] []" and "offer \<noteq> []" and "answer \<noteq> []"
  shows "\<exists>b' l' il. can_reach r B L b' l' [] il \<and> ends_match b' l' offer answer"
proof -
  let ?join = "to_room L SOffer"
  let ?offer = "(to_peer B L SOffer)\<lparr>sg_sdp := Some offer\<rparr>" and ?answer = "(to_peer L B SAnswer)\<lparr>sg_sdp := Some answer\<rparr>"
  have role: "jm_role l = Listening" using assms(7) by (simp add: waiting_def)
  then have "jm_joinRetryTimer l" using assms(2) by (simp add: jam_ok_def)
  moreover have "joinRetryFires l = ([SendSignal ?join], l)"
    using assms(4,7) by (simp add: joinRetryFires_def send_to_room_def handler_defs)
  ultimately have "jam_local l [SendSignal ?join] l" by (rule jam_local.retry)
  from can_own(2) [OF assms(9,5) this] have c: "can_reach r B L b l [?join] [?join]" by simp
  obtain c b1 where b1: "handleSignal None ?join b = ([], b1)" "jm_tasks b1 = jm_tasks b @ [CreateOffer c L]"
      "map_of (jm_peers b1) L = Some c" "c < length (jm_conns b1)" "jm_id b1 = B"
    using join_taken [OF assms(1,6,8), of None] assms(3,5) by blast
  note c = can_deliver(1) [OF c assms(5) refl b1(1)]
  obtain b2 b3 where b3: "jam_local b1 [] b2" "jam_local b2 [SendSignal ?offer] b3"
      "map_of (jm_peers b3) L = Some c" "c < length (jm_conns b3)" "jm_id b3 = B"
      "pc_localDescription (jm_conns b3 ! c) = Some (SOffer, offer)"
    using offer_made [OF b1(2-4), of offer] unfolding b1(5) by blast
  have c: "can_reach r B L b3 l [?offer] [?join, ?offer]"
    using can_own(1) [OF can_own(1) [OF c assms(5) b3(1)] assms(5) b3(2)] by simp
  have "sg_from ?join = jm_id l" by (simp add: to_room_def assms(4))
  note c = can_deliver(2) [OF c assms(5) refl own_signal_ignored [OF this, of None]]
  obtain d l1 where l1: "handleSignal None ?offer l = ([], l1)" "jm_tasks l1 = jm_tasks l @ [TakeOffer d B offer]"
      "map_of (jm_peers l1) B = Some d" "d < length (jm_conns l1)" "jm_id l1 = L"
    using offer_taken [OF assms(2) role, of B offer None] assms(4,5,10) by auto
  note c = can_deliver(2) [OF c assms(5) refl l1(1)]
  obtain l2 l3 l4 where l4: "jam_local l1 [] l2" "jam_local l2 [] l3" "jam_local l3 [SendSignal ?answer] l4"
      "map_of (jm_peers l4) B = Some d" "jm_id l4 = L"
      "pc_remoteDescription (jm_conns l4 ! d) = Some (SOffer, offer)"
      "pc_localDescription (jm_conns l4 ! d) = Some (SAnswer, answer)"
    using answer_made [OF l1(2-4), of answer] unfolding l1(5) by blast
  have c: "can_reach r B L b3 l4 [?offer, ?answer] [?answer]"
    using can_own(2) [OF can_own(2) [OF can_own(2) [OF c assms(5) l4(1)] assms(5) l4(2)] assms(5) l4(3)] by simp
  have "sg_from ?offer = jm_id b3" by (simp add: to_room_def to_peer_def b3(5))
  note c = can_deliver(1) [OF c assms(5) refl own_signal_ignored [OF this, of None]]
  obtain b4 b5 where b5: "handleSignal None ?answer b3 = ([], b4)" "jam_local b4 [] b5" "map_of (jm_peers b5) L = Some c"
      "jm_id b5 = B" "pc_localDescription (jm_conns b5 ! c) = Some (SOffer, offer)"
      "pc_remoteDescription (jm_conns b5 ! c) = Some (SAnswer, answer)"
    using answer_taken [OF b3(3,4), of answer None] assms(5,11) b3(5,6) by auto
  have "can_reach r B L b5 l4 [] [?answer]"
    using can_own(1) [OF can_deliver(1) [OF c assms(5) refl b5(1)] assms(5) b5(2)] by simp
  moreover have "ends_match b5 l4 offer answer" using b5 l4 by (simp add: ends_match_def)
  ultimately show ?thesis by blast
qed

lemma can_lose:
  assumes "can_reach r B L b l ib il" and "B \<noteq> L"
  shows "ib = m # ms \<Longrightarrow> can_reach r B L b l ms il" and "il = m # ms \<Longrightarrow> can_reach r B L b l ib ms"
proof -
  obtain r' where r': "room_step\<^sup>*\<^sup>* r r'" "rm_tabs r' B = b" "rm_tabs r' L = l" "rm_inbox r' B = ib" "rm_inbox r' L = il"
    using assms(1) by (auto simp: can_reach_def)
  show "can_reach r B L b l ms il" if "ib = m # ms"
    using rtranclp.rtrancl_into_rtrancl [OF r'(1) room_step.lost [of r' B m ms]] that r' assms(2)
    by (auto simp: can_reach_def intro!: exI [of _ "r'\<lparr>rm_inbox := (rm_inbox r')(B := ms)\<rparr>"])
  show "can_reach r B L b l ib ms" if "il = m # ms"
    using rtranclp.rtrancl_into_rtrancl [OF r'(1) room_step.lost [of r' L m ms]] that r' assms(2)
    by (auto simp: can_reach_def intro!: exI [of _ "r'\<lparr>rm_inbox := (rm_inbox r')(L := ms)\<rparr>"])
qed

section \<open>Theorems\<close>

definition open_connections :: "jam \<Rightarrow> nat set" where
  "open_connections j = {c. c < length (jm_conns j) \<and> state_of j c \<noteq> Closed}"

text \<open>C21. No connection leaks: whatever a tab does and receives, its open connections are those of its peers, one
  for each; a tab that stopped has none left and no timer, and the retry timer runs exactly while the
  tab listens.\<close>

theorem jam_connections_tracked:
  assumes "jam_reachable me j"
  shows "open_connections j = snd ` set (jm_peers j) \<and> distinct (map fst (jm_peers j)) \<and>
    (jm_joinRetryTimer j \<longleftrightarrow> jm_role j = Listening) \<and>
    (jm_role j = Idle \<longrightarrow> open_connections j = {} \<and> \<not> jm_pingTimer j)"
proof -
  have ok: "jam_ok j" by (rule reachable_jam_ok [OF assms])
  have "open_connections j = snd ` set (jm_peers j)"
  proof (intro equalityI subsetI)
    fix c assume "c \<in> snd ` set (jm_peers j)"
    then obtain p where "map_of (jm_peers j) p = Some c" using jam_okD(1) [OF ok] by force
    then show "c \<in> open_connections j" using jam_okD(3) [OF ok, of p c] by (simp add: open_connections_def state_of_def)
  next
    fix c assume "c \<in> open_connections j"
    then have "map_of (jm_peers j) (pc_peer (jm_conns j ! c)) = Some c"
      using jam_okD(2) [OF ok, of c] by (simp add: open_connections_def state_of_def)
    then show "c \<in> snd ` set (jm_peers j)" by (force dest: map_of_SomeD)
  qed
  then show ?thesis using ok by (simp add: jam_ok_def)
qed

definition example_broadcaster :: jam where
  "example_broadcaster = upd_conn 0 (pc_state_update (\<lambda>_. Connected))
     (snd (handleSignal None (to_room ''l'' SOffer) (snd (startBroadcast (JamChannel ''b'')))))"

lemma example_broadcaster_reachable: "jam_reachable ''b'' example_broadcaster"
proof -
  let ?j1 = "snd (startBroadcast (JamChannel ''b''))" and ?m = "to_room ''l'' SOffer"
  have "jam_reachable ''b'' ?j1"
    by (rule jam_reachable.step [OF jam_reachable.start jam_step.own [OF jam_local.broadcast [OF prod.collapse [symmetric]]]])
  from jam_reachable.step [OF this jam_step.signal [where tracks = None and m = ?m, OF prod.collapse [symmetric]]]
  have "jam_reachable ''b'' (snd (handleSignal None ?m ?j1))" .
  moreover have "0 < length (jm_conns (snd (handleSignal None ?m ?j1)))" "state_of (snd (handleSignal None ?m ?j1)) 0 \<noteq> Closed"
    by code_simp+
  ultimately show ?thesis
    unfolding example_broadcaster_def by (rule jam_reachable.step [OF _ jam_step.own [OF jam_local.link]]) simp
qed

lemma example_broadcaster_simps:
  "map_of (jm_peers example_broadcaster) ''l'' = Some 0" "state_of example_broadcaster 0 = Connected"
  "jm_role example_broadcaster = Broadcasting" "map snd (jm_peers example_broadcaster) = [0]"
  by code_simp+

theorem jam_connections_tracked_witness: "open_connections example_broadcaster = {0}"
proof -
  have "open_connections example_broadcaster = set (map snd (jm_peers example_broadcaster))"
    using jam_connections_tracked [OF example_broadcaster_reachable] by simp
  then show ?thesis by (simp add: example_broadcaster_simps(4))
qed

text \<open>A live connection is left alone: no signal takes down the connection with a connected peer, a retried JOIN of
  that peer included, unless the peer itself says goodbye or offers a new connection.\<close>

theorem jam_connected_peer_kept:
  assumes "jam_reachable me j" and "connected_to j p" and "handleSignal tracks m j = (es, j')"
    and "\<not> (sg_from m = p \<and> (sg_kind m = SBye \<or> sg_kind m = SOffer \<and> \<not> falsy (sg_sdp m)))"
  shows "connected_to j' p \<and> map_of (jm_peers j') p = map_of (jm_peers j) p"
proof -
  obtain c where "map_of (jm_peers j) p = Some c" "state_of j c = Connected"
    using assms(2) by (auto simp: connected_to_def simp del: map_of_eq_Some_iff split: option.splits)
  then show ?thesis
    using connected_kept [OF reachable_jam_ok [OF assms(1)] assms(3)] assms(4)
    by (simp add: connected_to_def ends_connection_def)
qed

theorem jam_connected_peer_kept_witness:
  "connected_to (snd (handleSignal (Some [''mic'']) (to_room ''l'' SOffer) example_broadcaster)) ''l''"
proof -
  have "connected_to example_broadcaster ''l''" by (simp add: connected_to_def example_broadcaster_simps)
  then show ?thesis
    using jam_connected_peer_kept [where p = "''l''" and tracks = "Some [''mic'']" and m = "to_room ''l'' SOffer",
      OF example_broadcaster_reachable _ prod.collapse [symmetric]] by (auto simp: to_room_def falsy_def)
qed


lemma example_room:
  "\<exists>r. room_step\<^sup>*\<^sup>* room_start r \<and> rm_tabs r ''b'' = snd (startBroadcast (JamChannel ''b'')) \<and>
     rm_tabs r ''l'' = snd (startListen (JamChannel ''l'')) \<and> rm_inbox r ''b'' = [] \<and> rm_inbox r ''l'' = []"
proof -
  have "can_reach room_start ''b'' ''l'' (JamChannel ''b'') (JamChannel ''l'') [] []"
    by (auto simp: can_reach_def room_start_def)
  note c = can_own(2) [OF this _ jam_local.listen [OF prod.collapse [symmetric]]]
  have c: "can_reach room_start ''b'' ''l'' (JamChannel ''b'') (snd (startListen (JamChannel ''l'')))
      [to_room ''l'' SOffer] [to_room ''l'' SOffer]"
    using c by (simp add: startListen_def send_to_room_def handler_defs JamChannel_def)
  note c = can_lose(2) [OF can_lose(1) [OF c _ refl] _ refl]
  note c = can_own(1) [OF c _ jam_local.broadcast [OF prod.collapse [symmetric]]]
  have c: "can_reach room_start ''b'' ''l'' (snd (startBroadcast (JamChannel ''b''))) (snd (startListen (JamChannel ''l'')))
      [to_room ''b'' SBye, to_room ''b'' SOffer] [to_room ''b'' SBye, to_room ''b'' SOffer]"
    using c by (simp add: startBroadcast_def announce_def send_to_room_def handler_defs JamChannel_def)
  note c = can_lose(1) [OF can_lose(1) [OF c _ refl] _ refl]
  note c = can_lose(2) [OF can_lose(2) [OF c _ refl] _ refl]
  then show ?thesis by (auto simp: can_reach_def)
qed


text \<open>
  Two things the handler does not tell apart. A JOIN of another listener looks like an announce, so
  two waiting listeners answer each other without end.
\<close>

fun bounced :: "nat \<Rightarrow> jam_signal \<Rightarrow> jam \<Rightarrow> jam \<Rightarrow> jam_signal list" where
  "bounced 0 m a b = []"
| "bounced (Suc n) m a b =
     (case handleSignal None m b of (es, b') \<Rightarrow>
        (case signals_of es of [] \<Rightarrow> [] | m' # ms \<Rightarrow> m' # bounced n m' b' a))"

lemma bounced_steps:
  assumes "waiting a" and "waiting b" and "jm_peers a = []" and "jm_peers b = []" and "jm_id a \<noteq> jm_id b"
  shows "length (bounced n (to_room (jm_id a) SOffer) a b) = n"
  using assms
proof (induction n arbitrary: a b)
  case (Suc n)
  have "handleSignal None (to_room (jm_id a) SOffer) b = ([SendSignal (to_room (jm_id b) SOffer)], b)"
    using Suc.prems by (simp add: handleSignal_def on_join_def to_room_def falsy_def waiting_def send_to_room_def)
  then show ?case using Suc.IH [of b a] Suc.prems by simp
qed simp

theorem waiting_listeners_storm:
  "length (bounced n (to_room ''a'' SOffer) (snd (startListen (JamChannel ''a''))) (snd (startListen (JamChannel ''b'')))) = n"
proof -
  have "waiting (snd (startListen (JamChannel i)))" "jm_peers (snd (startListen (JamChannel i))) = []"
      "jm_id (snd (startListen (JamChannel i))) = i" for i
    by (simp_all add: startListen_def send_to_room_def handler_defs JamChannel_def waiting_def peerCount_def)
  then show ?thesis using bounced_steps [of "snd (startListen (JamChannel ''a''))" "snd (startListen (JamChannel ''b''))" n] by simp
qed

text \<open>And an announce looks like a JOIN: a broadcaster answers that of another one with a connection nobody takes.\<close>

theorem announce_opens_dangling_connection:
  "let b = snd (startBroadcast (JamChannel ''b''));
       a = snd (startBroadcast (JamChannel ''a''));
       (es, b') = handleSignal None (to_room ''a'' SOffer) b
   in jm_peers b' = [(''a'', 0)] \<and> jm_tasks b' = [CreateOffer 0 ''a''] \<and>
      handleSignal None ((to_peer ''b'' ''a'' SOffer)\<lparr>sg_sdp := Some ''offer''\<rparr>) a = ([], a)"
  by code_simp

end
