(* ===== verification/Wire.thy ===== *)
theory Wire
  imports Prelude Base64
begin

text \<open>
  The wire of the engine's messages: what \<open>web/src/proto/messages.ts\<close> uses of the library
  \<open>@bufbuild/protobuf\<close>, as a record of functions, the shape its encoders and decoders share, and what
  reading back a sequence of fields gives. A reader is the bytes that remain; a read returns a
  value and the rest, or throws. \<open>None\<close> stands for a decoder that does not return.
\<close>

section \<open>The library\<close>

text \<open>
  A writer of numbers throws on a number out of its range; \<open>wr_join\<close> is what \<open>fork\<close> and \<open>join\<close> add around
  the bytes written between them.
\<close>

record wire =
  w_fround :: "jsnum \<Rightarrow> jsnum"
  wr_uint32 :: "jsnum \<Rightarrow> bytes js_result"
  wr_int32 :: "jsnum \<Rightarrow> bytes js_result"
  wr_uint64 :: "jsnum \<Rightarrow> bytes js_result"
  wr_int64 :: "jsnum \<Rightarrow> bytes js_result"
  wr_float :: "jsnum \<Rightarrow> bytes js_result"
  wr_bool :: "bool \<Rightarrow> bytes"
  wr_string :: "string \<Rightarrow> bytes js_result"
  wr_bytes :: "bytes \<Rightarrow> bytes js_result"
  wr_join :: "bytes \<Rightarrow> bytes js_result"
  rd_uint32 :: "bytes \<Rightarrow> (nat \<times> bytes) js_result"
  rd_int32 :: "bytes \<Rightarrow> (int \<times> bytes) js_result"
  rd_uint64 :: "bytes \<Rightarrow> (int \<times> bytes) js_result"
  rd_int64 :: "bytes \<Rightarrow> (int \<times> bytes) js_result"
  rd_float :: "bytes \<Rightarrow> (jsnum \<times> bytes) js_result"
  rd_bool :: "bytes \<Rightarrow> (bool \<times> bytes) js_result"
  rd_string :: "bytes \<Rightarrow> (string \<times> bytes) js_result"
  rd_bytes :: "bytes \<Rightarrow> (bytes \<times> bytes) js_result"
  rd_skip :: "nat \<Rightarrow> bytes \<Rightarrow> bytes js_result"

text \<open>Reading what was written, whatever follows.\<close>

definition reads_back :: "(bytes \<Rightarrow> ('a \<times> bytes) js_result) \<Rightarrow> bytes js_result \<Rightarrow> 'a \<Rightarrow> bool" where
  "reads_back rd written v \<longleftrightarrow> (\<exists>bs. written = Inr bs \<and> (\<forall>rest. rd (bs @ rest) = Inr (v, rest)))"

definition MAX_SAFE_INTEGER :: int where
  "MAX_SAFE_INTEGER = 2 ^ 53 - 1"

definition FLOAT32_MAX :: rat where
  "FLOAT32_MAX = (2 ^ 24 - 1) * 2 ^ 104"

text \<open>A number that single precision holds; \<open>w_fround\<close> is the rounding to it.\<close>

definition single :: "wire \<Rightarrow> jsnum \<Rightarrow> bool" where
  "single w v \<longleftrightarrow> w_fround w v = v \<and> (\<exists>x. v = Fin x \<and> \<bar>x\<bar> \<le> FLOAT32_MAX)"

text \<open>Reading moves forward, by at least one byte for a tag.\<close>

definition consuming :: "wire \<Rightarrow> bool" where
  "consuming w \<longleftrightarrow>
     (\<forall>bs n r. rd_uint32 w bs = Inr (n, r) \<longrightarrow> length r < length bs) \<and>
     (\<forall>bs n r. rd_int32 w bs = Inr (n, r) \<longrightarrow> length r \<le> length bs) \<and>
     (\<forall>bs n r. rd_uint64 w bs = Inr (n, r) \<longrightarrow> length r \<le> length bs) \<and>
     (\<forall>bs n r. rd_int64 w bs = Inr (n, r) \<longrightarrow> length r \<le> length bs) \<and>
     (\<forall>bs n r. rd_float w bs = Inr (n, r) \<longrightarrow> length r \<le> length bs) \<and>
     (\<forall>bs n r. rd_bool w bs = Inr (n, r) \<longrightarrow> length r \<le> length bs) \<and>
     (\<forall>bs n r. rd_string w bs = Inr (n, r) \<longrightarrow> length r \<le> length bs) \<and>
     (\<forall>bs n r. rd_bytes w bs = Inr (n, r) \<longrightarrow> length r \<le> length bs) \<and>
     (\<forall>t bs r. rd_skip w t bs = Inr r \<longrightarrow> length r \<le> length bs)"

text \<open>
  Documented behaviour of the library: each kind of value is read back in its range, and \<open>join\<close> puts
  the length before the bytes.
\<close>

definition wire_law :: "wire \<Rightarrow> bool" where
  "wire_law w \<longleftrightarrow> consuming w \<and>
     (\<forall>n<2 ^ 32. reads_back (rd_uint32 w) (wr_uint32 w (js_int (int n))) n) \<and>
     (\<forall>n. - (2 ^ 31) \<le> n \<and> n < 2 ^ 31 \<longrightarrow> reads_back (rd_int32 w) (wr_int32 w (js_int n)) n) \<and>
     (\<forall>n. 0 \<le> n \<and> n \<le> MAX_SAFE_INTEGER \<longrightarrow> reads_back (rd_uint64 w) (wr_uint64 w (js_int n)) n) \<and>
     (\<forall>n. - MAX_SAFE_INTEGER \<le> n \<and> n \<le> MAX_SAFE_INTEGER \<longrightarrow> reads_back (rd_int64 w) (wr_int64 w (js_int n)) n) \<and>
     (\<forall>x. \<bar>x\<bar> \<le> FLOAT32_MAX \<longrightarrow> reads_back (rd_float w) (wr_float w (Fin x)) (w_fround w (Fin x))) \<and>
     (\<forall>b. reads_back (rd_bool w) (Inr (wr_bool w b)) b) \<and>
     (\<forall>s. length s < 2 ^ 31 \<longrightarrow> reads_back (rd_string w) (wr_string w s) s) \<and>
     (\<forall>s. length s < 2 ^ 32 \<longrightarrow> reads_back (rd_bytes w) (wr_bytes w s) s) \<and>
     (\<forall>s. length s < 2 ^ 32 \<longrightarrow>
        (\<exists>bs. wr_join w s = Inr bs \<and> (\<forall>rest. rd_uint32 w (bs @ rest) = Inr (length s, s @ rest))))"

section \<open>Encoders\<close>

text \<open>What the calls of an encoder append, one after the other, until one throws.\<close>

fun put_all :: "bytes js_result list \<Rightarrow> bytes js_result" where
  "put_all [] = Inr []"
| "put_all (p # ps) = js_bind p (\<lambda>b. js_bind (put_all ps) (\<lambda>bs. Inr (b @ bs)))"

definition tagged :: "wire \<Rightarrow> nat \<Rightarrow> bytes js_result \<Rightarrow> bytes js_result" where
  "tagged w tag p = put_all [wr_uint32 w (js_int (int tag)), p]"

text \<open>\<open>if (v !== 0) { writer.uint32(tag).int64(v); }\<close> and the same for the other kinds.\<close>

definition put_num :: "wire \<Rightarrow> (jsnum \<Rightarrow> bytes js_result) \<Rightarrow> nat \<Rightarrow> jsnum \<Rightarrow> bytes js_result" where
  "put_num w wr tag v = (if js_eq v (js_int 0) then Inr [] else tagged w tag (wr v))"

definition put_bool :: "wire \<Rightarrow> nat \<Rightarrow> bool \<Rightarrow> bytes js_result" where
  "put_bool w tag v = (if v = False then Inr [] else tagged w tag (Inr (wr_bool w v)))"

definition put_string :: "wire \<Rightarrow> nat \<Rightarrow> string \<Rightarrow> bytes js_result" where
  "put_string w tag v = (if v = [] then Inr [] else tagged w tag (wr_string w v))"

definition put_bytes :: "wire \<Rightarrow> nat \<Rightarrow> bytes \<Rightarrow> bytes js_result" where
  "put_bytes w tag v = (if length v = 0 then Inr [] else tagged w tag (wr_bytes w v))"

text \<open>\<open>T.encode(v, writer.uint32(tag).fork()).join()\<close>, for a field that may be undefined and for an array.\<close>

definition put_sub :: "wire \<Rightarrow> nat \<Rightarrow> bytes js_result \<Rightarrow> bytes js_result" where
  "put_sub w tag encoded = tagged w tag (js_bind encoded (wr_join w))"

definition put_opt :: "wire \<Rightarrow> nat \<Rightarrow> ('a \<Rightarrow> bytes js_result) \<Rightarrow> 'a option \<Rightarrow> bytes js_result" where
  "put_opt w tag enc v = (case v of None \<Rightarrow> Inr [] | Some x \<Rightarrow> put_sub w tag (enc x))"

definition put_each :: "wire \<Rightarrow> nat \<Rightarrow> ('a \<Rightarrow> bytes js_result) \<Rightarrow> 'a list \<Rightarrow> bytes js_result" where
  "put_each w tag enc vs = put_all (map (\<lambda>v. put_sub w tag (enc v)) vs)"

section \<open>Decoders\<close>

type_synonym 'a reading = "('a \<times> bytes) js_result option"

text \<open>A case of the switch: a read, then an assignment to the message.\<close>

type_synonym 'm field_case = "nat \<times> ('m \<Rightarrow> bytes \<Rightarrow> 'm reading)"

definition get :: "(bytes \<Rightarrow> ('a \<times> bytes) js_result) \<Rightarrow> ('a \<Rightarrow> 'm \<Rightarrow> 'm) \<Rightarrow> 'm \<Rightarrow> bytes \<Rightarrow> 'm reading" where
  "get rd assign m bs = Some (js_bind (rd bs) (\<lambda>(v, rest). Inr (assign v m, rest)))"

definition get_uint32 :: "wire \<Rightarrow> (jsnum \<Rightarrow> 'm \<Rightarrow> 'm) \<Rightarrow> 'm \<Rightarrow> bytes \<Rightarrow> 'm reading" where
  "get_uint32 w assign = get (rd_uint32 w) (\<lambda>n. assign (js_int (int n)))"

definition longToNumber :: "int \<Rightarrow> jsnum js_result" where
  "longToNumber n =
     (if MAX_SAFE_INTEGER < n then Inl (PlainError ''Value is larger than Number.MAX_SAFE_INTEGER'')
      else if n < - MAX_SAFE_INTEGER then Inl (PlainError ''Value is smaller than Number.MIN_SAFE_INTEGER'')
      else Inr (js_int n))"

definition get_long :: "(bytes \<Rightarrow> (int \<times> bytes) js_result) \<Rightarrow> (jsnum \<Rightarrow> 'm \<Rightarrow> 'm) \<Rightarrow> 'm \<Rightarrow> bytes \<Rightarrow> 'm reading" where
  "get_long rd assign = get (\<lambda>bs. js_bind (rd bs) (\<lambda>(n, rest). js_bind (longToNumber n) (\<lambda>v. Inr (v, rest)))) assign"

text \<open>\<open>T.decode(reader, reader.uint32())\<close>\<close>

definition get_sub ::
  "wire \<Rightarrow> (nat option \<Rightarrow> bytes \<Rightarrow> 'a reading) \<Rightarrow> ('a \<Rightarrow> 'm \<Rightarrow> 'm) \<Rightarrow> 'm \<Rightarrow> bytes \<Rightarrow> 'm reading" where
  "get_sub w dec assign m bs =
     (case rd_uint32 w bs of
        Inl e \<Rightarrow> Some (Inl e)
      | Inr (len, r) \<Rightarrow>
          map_option (\<lambda>res. js_bind res (\<lambda>(v, rest). Inr (assign v m, rest))) (dec (Some len) r))"

definition get_opt ::
  "wire \<Rightarrow> (nat option \<Rightarrow> bytes \<Rightarrow> 'a reading) \<Rightarrow> ('a option \<Rightarrow> 'm \<Rightarrow> 'm) \<Rightarrow> 'm \<Rightarrow> bytes \<Rightarrow> 'm reading" where
  "get_opt w dec assign = get_sub w dec (\<lambda>v. assign (Some v))"

text \<open>
  The loop of a decoder. \<open>stop\<close> is how many bytes remain at its end; the cases of the switch are the
  list \<open>cases\<close>, each with the tag it accepts: another tag with its number falls through to the skip.
\<close>

partial_function (option) read_fields ::
  "wire \<Rightarrow> 'm field_case list \<Rightarrow> int \<Rightarrow> 'm \<Rightarrow> bytes \<Rightarrow> 'm reading" where
  "read_fields w cases stop m bs =
     (if int (length bs) \<le> stop then Some (Inr (m, bs))
      else
        (case rd_uint32 w bs of
           Inl e \<Rightarrow> Some (Inl e)
         | Inr (tag, r) \<Rightarrow>
           (case map_of cases tag of
              Some f \<Rightarrow>
                (case f m r of
                   None \<Rightarrow> None
                 | Some (Inl e) \<Rightarrow> Some (Inl e)
                 | Some (Inr (m', r')) \<Rightarrow> read_fields w cases stop m' r')
            | None \<Rightarrow>
                if tag mod 8 = 4 \<or> tag = 0 then Some (Inr (m, r))
                else (case rd_skip w (tag mod 8) r of
                        Inl e \<Rightarrow> Some (Inl e)
                      | Inr r' \<Rightarrow> read_fields w cases stop m r'))))"

declare read_fields.simps [code]

definition decode_with ::
  "wire \<Rightarrow> 'm field_case list \<Rightarrow> 'm \<Rightarrow> nat \<Rightarrow> nat option \<Rightarrow> bytes \<Rightarrow> 'm reading" where
  "decode_with w cases base depth len bs =
     (if 100 \<le> depth then Some (Inl (PlainError ''protobuf decode recursion limit exceeded''))
      else read_fields w cases (case len of None \<Rightarrow> 0 | Some n \<Rightarrow> int (length bs) - int n) base bs)"

section \<open>Reading back a sequence of fields\<close>

text \<open>Where the loop stands before the bytes of \<open>put\<close>, it goes on after them with \<open>f\<close> done to the message.\<close>

definition restores :: "wire \<Rightarrow> 'm field_case list \<Rightarrow> bytes js_result \<Rightarrow> ('m \<Rightarrow> 'm) \<Rightarrow> bool" where
  "restores w cases put f \<longleftrightarrow>
     (\<exists>bs. put = Inr bs \<and>
        (\<forall>stop m rest. stop \<le> int (length rest) \<longrightarrow>
           read_fields w cases stop m (bs @ rest) = read_fields w cases stop (f m) rest))"

lemma restores_nothing [simp]: "restores w cases (Inr []) (\<lambda>m. m)"
  by (simp add: restores_def)

lemma restores_then:
  assumes "restores w cases p f" and "restores w cases (put_all ps) g"
  shows "restores w cases (put_all (p # ps)) (\<lambda>m. g (f m))"
proof -
  obtain b bs where "p = Inr b" "put_all ps = Inr bs"
    and f: "\<And>stop m rest. stop \<le> int (length rest) \<Longrightarrow>
      read_fields w cases stop m (b @ rest) = read_fields w cases stop (f m) rest"
    and g: "\<And>stop m rest. stop \<le> int (length rest) \<Longrightarrow>
      read_fields w cases stop m (bs @ rest) = read_fields w cases stop (g m) rest"
    using assms unfolding restores_def by metis
  then show ?thesis by (simp add: restores_def)
qed

text \<open>The updates of a list of fields, in order.\<close>

fun in_turn :: "('m \<Rightarrow> 'm) list \<Rightarrow> 'm \<Rightarrow> 'm" where
  "in_turn [] m = m"
| "in_turn (f # fs) m = in_turn fs (f m)"

lemma restores_all: "list_all2 (restores w cases) ps fs \<Longrightarrow> restores w cases (put_all ps) (in_turn fs)"
proof (induction rule: list_all2_induct)
  case Nil
  have "in_turn [] = (\<lambda>m. m)" by (simp add: fun_eq_iff)
  then show ?case by simp
next
  case (Cons p ps f fs)
  have "in_turn (f # fs) = (\<lambda>m. in_turn fs (f m))" by (simp add: fun_eq_iff)
  then show ?case using Cons restores_then by metis
qed

lemma tag_written:
  assumes "wire_law w" and "tag < 2 ^ 32"
  shows "reads_back (rd_uint32 w) (wr_uint32 w (js_int (int tag))) tag"
  using assms by (simp add: wire_law_def)

lemma tag_consumed: "consuming w \<Longrightarrow> rd_uint32 w bs = Inr (n, r) \<Longrightarrow> length r < length bs"
  by (auto simp: consuming_def)

lemma restores_tagged:
  assumes "wire_law w" and "tag < 2 ^ 32" and "map_of cases tag = Some f"
    and "p = Inr body" and "\<And>m rest. f m (body @ rest) = Some (Inr (g m, rest))"
  shows "restores w cases (tagged w tag p) g"
proof -
  obtain t where t: "wr_uint32 w (js_int (int tag)) = Inr t" "\<And>rest. rd_uint32 w (t @ rest) = Inr (tag, rest)"
    using tag_written [OF assms(1,2)] by (auto simp: reads_back_def)
  have "length ([] :: bytes) < length (t @ [])"
    using assms(1) by (intro tag_consumed [OF _ t(2)]) (simp add: wire_law_def)
  then have "\<not> int (length (t @ body @ rest)) \<le> stop" if "stop \<le> int (length rest)" for stop rest
    using that by (cases t) auto
  then have "read_fields w cases stop m (t @ body @ rest) = read_fields w cases stop (g m) rest"
    if "stop \<le> int (length rest)" for stop m rest
    using that by (subst read_fields.simps) (simp add: t(2) assms(3,5) del: length_append)
  with t assms(4) show ?thesis by (simp add: restores_def tagged_def)
qed

definition unless :: "bool \<Rightarrow> ('m \<Rightarrow> 'm) \<Rightarrow> 'm \<Rightarrow> 'm" where
  "unless c f m = (if c then m else f m)"

lemma unless_default: "f d m = m \<Longrightarrow> unless (v = d) (f v) m = f v m"
  by (simp add: unless_def)

lemma restores_unless:
  assumes "\<not> c \<Longrightarrow> restores w cases p f"
  shows "restores w cases (if c then Inr [] else p) (unless c f)"
proof (cases c)
  case True
  then have "unless c f = (\<lambda>m. m)" by (simp add: unless_def fun_eq_iff)
  with True show ?thesis by simp
next
  case False
  then have "unless c f = f" by (simp add: unless_def fun_eq_iff)
  with False assms show ?thesis by simp
qed

lemma restores_get:
  assumes "wire_law w" and "tag < 2 ^ 32" and "map_of cases tag = Some (get rd assign)" and "reads_back rd p v"
  shows "restores w cases (tagged w tag p) (assign v)"
proof -
  obtain body where "p = Inr body" "\<And>rest. rd (body @ rest) = Inr (v, rest)"
    using assms(4) by (auto simp: reads_back_def)
  then show ?thesis by (intro restores_tagged [OF assms(1-3)]) (auto simp: get_def)
qed

lemma restores_bool:
  assumes "wire_law w" and "tag < 2 ^ 32" and "map_of cases tag = Some (get (rd_bool w) assign)"
  shows "restores w cases (put_bool w tag v) (unless (v = False) (assign v))"
proof -
  have "reads_back (rd_bool w) (Inr (wr_bool w v)) v" using assms(1) by (simp add: wire_law_def)
  then show ?thesis using restores_get [OF assms] unfolding put_bool_def by (intro restores_unless) blast
qed

lemma restores_string:
  assumes "wire_law w" and "tag < 2 ^ 32" and "map_of cases tag = Some (get (rd_string w) assign)" and "length v < 2 ^ 31"
  shows "restores w cases (put_string w tag v) (unless (v = []) (assign v))"
proof -
  have "reads_back (rd_string w) (wr_string w v) v" using assms(1,4) by (simp add: wire_law_def)
  then show ?thesis using restores_get [OF assms(1-3)] unfolding put_string_def by (intro restores_unless) blast
qed

lemma restores_bytes:
  assumes "wire_law w" and "tag < 2 ^ 32" and "map_of cases tag = Some (get (rd_bytes w) assign)" and "length v < 2 ^ 32"
  shows "restores w cases (put_bytes w tag v) (unless (v = []) (assign v))"
proof -
  have "reads_back (rd_bytes w) (wr_bytes w v) v" using assms(1,4) by (simp add: wire_law_def)
  then show ?thesis
    using restores_get [OF assms(1-3)] unfolding put_bytes_def length_0_conv by (intro restores_unless) blast
qed

lemma put_num_eq: "put_num w wr tag v = (if v = js_int 0 then Inr [] else tagged w tag (wr v))"
  by (simp add: put_num_def js_eq_def)

lemma restores_float:
  assumes "wire_law w" and "tag < 2 ^ 32" and "map_of cases tag = Some (get (rd_float w) assign)" and "single w v"
  shows "restores w cases (put_num w (wr_float w) tag v) (unless (v = js_int 0) (assign v))"
proof -
  have "reads_back (rd_float w) (wr_float w v) v" using assms(1,4) by (auto simp: wire_law_def single_def)
  then show ?thesis using restores_get [OF assms(1-3)] unfolding put_num_eq by (intro restores_unless) blast
qed

text \<open>Whole numbers: the message keeps a number that \<open>conv\<close> makes of the one read.\<close>

definition whole :: "int \<Rightarrow> int \<Rightarrow> jsnum \<Rightarrow> bool" where
  "whole lo hi v \<longleftrightarrow> (\<exists>n. v = js_int n \<and> lo \<le> n \<and> n \<le> hi)"

lemma restores_uint32:
  assumes "wire_law w" and "tag < 2 ^ 32" and "map_of cases tag = Some (get_uint32 w assign)"
    and "whole 0 (2 ^ 32 - 1) v"
  shows "restores w cases (put_num w (wr_uint32 w) tag v) (unless (v = js_int 0) (assign v))"
proof -
  obtain n where n: "v = js_int (int n)" "n < 2 ^ 32"
    using assms(4) by (auto simp: whole_def dest!: zero_le_imp_eq_int)
  then have "reads_back (rd_uint32 w) (wr_uint32 w v) n" using assms(1) by (simp add: wire_law_def)
  from restores_get [OF assms(1-3) [unfolded get_uint32_def] this] show ?thesis
    unfolding put_num_eq n(1) by (intro restores_unless) blast
qed

lemma restores_int32:
  assumes "wire_law w" and "tag < 2 ^ 32" and "map_of cases tag = Some (get (rd_int32 w) assign)"
    and "- (2 ^ 31) \<le> n" and "n < 2 ^ 31"
  shows "restores w cases (put_num w (wr_int32 w) tag (js_int n)) (unless (n = 0) (assign n))"
proof -
  have "reads_back (rd_int32 w) (wr_int32 w (js_int n)) n" using assms(1,4,5) by (simp add: wire_law_def)
  from restores_get [OF assms(1-3) this] have "restores w cases (if n = 0 then Inr [] else tagged w tag (wr_int32 w (js_int n))) (unless (n = 0) (assign n))"
    by (intro restores_unless) blast
  then show ?thesis by (simp add: put_num_eq)
qed

lemma reads_back_long:
  assumes "reads_back rd p n" and "- MAX_SAFE_INTEGER \<le> n" and "n \<le> MAX_SAFE_INTEGER"
  shows "reads_back (\<lambda>bs. js_bind (rd bs) (\<lambda>(n, rest). js_bind (longToNumber n) (\<lambda>v. Inr (v, rest)))) p (js_int n)"
  using assms by (auto simp: reads_back_def longToNumber_def)

lemma restores_int64:
  assumes "wire_law w" and "tag < 2 ^ 32" and "map_of cases tag = Some (get_long (rd_int64 w) assign)"
    and "whole (- MAX_SAFE_INTEGER) MAX_SAFE_INTEGER v"
  shows "restores w cases (put_num w (wr_int64 w) tag v) (unless (v = js_int 0) (assign v))"
proof -
  obtain n where n: "v = js_int n" "- MAX_SAFE_INTEGER \<le> n" "n \<le> MAX_SAFE_INTEGER" using assms(4) by (auto simp: whole_def)
  then have "reads_back (rd_int64 w) (wr_int64 w v) n" using assms(1) by (simp add: wire_law_def)
  from restores_get [OF assms(1-3) [unfolded get_long_def] reads_back_long [OF this n(2,3)]] show ?thesis
    unfolding put_num_eq n(1) by (intro restores_unless) blast
qed

lemma restores_uint64:
  assumes "wire_law w" and "tag < 2 ^ 32" and "map_of cases tag = Some (get_long (rd_uint64 w) assign)"
    and "whole 0 MAX_SAFE_INTEGER v"
  shows "restores w cases (put_num w (wr_uint64 w) tag v) (unless (v = js_int 0) (assign v))"
proof -
  obtain n where n: "v = js_int n" "0 \<le> n" "n \<le> MAX_SAFE_INTEGER" using assms(4) by (auto simp: whole_def)
  then have "reads_back (rd_uint64 w) (wr_uint64 w v) n" using assms(1) by (simp add: wire_law_def)
  from restores_get [OF assms(1-3) [unfolded get_long_def] reads_back_long [OF this _ n(3)]] n(2) show ?thesis
    unfolding put_num_eq n(1) by (intro restores_unless) (auto simp: MAX_SAFE_INTEGER_def)
qed


section \<open>Messages inside messages\<close>

text \<open>\<open>enc\<close> encodes the message \<open>x\<close> and \<open>dec\<close> decodes it, inside another message or alone.\<close>

definition decodes :: "bytes js_result \<Rightarrow> (nat option \<Rightarrow> bytes \<Rightarrow> 'm reading) \<Rightarrow> 'm \<Rightarrow> bool" where
  "decodes encoded dec x \<longleftrightarrow>
     (\<exists>bs. encoded = Inr bs \<and> dec None bs = Some (Inr (x, [])) \<and>
        (\<forall>rest. dec (Some (length bs)) (bs @ rest) = Some (Inr (x, rest))))"

lemma read_fields_end: "read_fields w cases (int (length bs)) m bs = Some (Inr (m, bs))"
  by (subst read_fields.simps) simp

lemma restores_decodes:
  assumes "restores w cases p f" and "depth < 100"
  shows "decodes p (decode_with w cases base depth) (f base)"
proof -
  obtain bs where bs: "p = Inr bs" and r: "\<And>stop m rest. stop \<le> int (length rest) \<Longrightarrow>
      read_fields w cases stop m (bs @ rest) = read_fields w cases stop (f m) rest"
    using assms(1) unfolding restores_def by blast
  have "decode_with w cases base depth (Some (length bs)) (bs @ rest) = Some (Inr (f base, rest))" for rest
    using r [of "int (length rest)" rest base] assms(2) by (simp add: decode_with_def read_fields_end)
  moreover have "decode_with w cases base depth None bs = Some (Inr (f base, []))"
    using r [of 0 "[]" base] assms(2) read_fields_end [where bs = "[]" and w = w and cases = cases and m = "f base"]
    by (simp add: decode_with_def)
  ultimately show ?thesis using bs by (simp add: decodes_def)
qed

text \<open>A length prefix counts up to 32 bits.\<close>

definition fits :: "bytes js_result \<Rightarrow> bool" where
  "fits encoded \<longleftrightarrow> (\<forall>bs. encoded = Inr bs \<longrightarrow> length bs < 2 ^ 32)"

lemma restores_sub:
  assumes "wire_law w" and "tag < 2 ^ 32" and "map_of cases tag = Some (get_sub w dec assign)"
    and "decodes encoded dec x" and "fits encoded"
  shows "restores w cases (put_sub w tag encoded) (assign x)"
proof -
  obtain bs where bs: "encoded = Inr bs" "\<And>rest. dec (Some (length bs)) (bs @ rest) = Some (Inr (x, rest))"
    using assms(4) unfolding decodes_def by blast
  then have "length bs < 2 ^ 32" using assms(5) by (simp add: fits_def)
  then obtain body where body: "wr_join w bs = Inr body" "\<And>rest. rd_uint32 w (body @ rest) = Inr (length bs, bs @ rest)"
    using assms(1) unfolding wire_law_def by blast
  show ?thesis
    unfolding put_sub_def
    by (rule restores_tagged [OF assms(1-3), of _ body]) (simp_all add: bs body get_sub_def)
qed

definition held :: "(wire \<Rightarrow> 'a \<Rightarrow> bytes js_result) \<Rightarrow> (wire \<Rightarrow> 'a \<Rightarrow> bool) \<Rightarrow> wire \<Rightarrow> 'a \<Rightarrow> bool" where
  "held enc ok w x \<longleftrightarrow> ok w x \<and> fits (enc w x)"

section \<open>Decoding ends\<close>

text \<open>A reading that returns or throws, and never goes back.\<close>

definition ends :: "'a reading \<Rightarrow> bytes \<Rightarrow> bool" where
  "ends res bs \<longleftrightarrow> (\<exists>r. res = Some r \<and> (\<forall>v rest. r = Inr (v, rest) \<longrightarrow> length rest \<le> length bs))"

lemma ends_get: "(\<And>v rest. rd bs = Inr (v, rest) \<Longrightarrow> length rest \<le> length bs) \<Longrightarrow> ends (get rd assign m bs) bs"
  by (auto simp: ends_def get_def js_bind_def split: sum.splits)

lemma ends_get_long: "(\<And>v rest. rd bs = Inr (v, rest) \<Longrightarrow> length rest \<le> length bs) \<Longrightarrow> ends (get_long rd assign m bs) bs"
  unfolding get_long_def by (rule ends_get) (auto simp: js_bind_def split: sum.splits)

lemma ends_kinds:
  assumes "consuming w"
  shows "ends (get_uint32 w a1 m bs) bs" and "ends (get (rd_int32 w) a2 m bs) bs"
    and "ends (get (rd_float w) a3 m bs) bs" and "ends (get (rd_bool w) a4 m bs) bs"
    and "ends (get (rd_string w) a5 m bs) bs" and "ends (get (rd_bytes w) a6 m bs) bs"
    and "ends (get_long (rd_uint64 w) a7 m bs) bs" and "ends (get_long (rd_int64 w) a7 m bs) bs"
  using assms by (auto simp: consuming_def get_uint32_def dest: less_imp_le intro!: ends_get ends_get_long)

lemma ends_get_sub:
  assumes "consuming w" and "\<And>len r. ends (dec len r) r"
  shows "ends (get_sub w dec assign m bs) bs"
proof (cases "rd_uint32 w bs")
  case (Inr x)
  obtain len r where x: "x = (len, r)" by (cases x)
  then have "length r < length bs" using tag_consumed [OF assms(1)] Inr by simp
  moreover obtain res where "dec (Some len) r = Some res" "\<forall>v rest. res = Inr (v, rest) \<longrightarrow> length rest \<le> length r"
    using assms(2) unfolding ends_def by blast
  ultimately show ?thesis
    using Inr x by (cases res) (auto simp: ends_def get_sub_def)
qed (simp add: ends_def get_sub_def)

lemma ends_read_fields:
  assumes "consuming w" and "\<And>tag f m bs. (tag, f) \<in> set cases \<Longrightarrow> ends (f m bs) bs"
  shows "ends (read_fields w cases stop m bs) bs"
proof (induction "length bs" arbitrary: m bs rule: less_induct)
  case less
  have later: "ends (read_fields w cases stop m' r') bs" if "length r' < length bs" for m' r'
    using less [OF that] that by (fastforce simp: ends_def)
  show ?case
  proof (cases "int (length bs) \<le> stop \<or> (\<exists>e. rd_uint32 w bs = Inl e)")
    case True
    then show ?thesis by (subst read_fields.simps) (auto simp: ends_def)
  next
    case False
    then obtain tag r where r: "rd_uint32 w bs = Inr (tag, r)" "\<not> int (length bs) \<le> stop"
      by (metis sum.exhaust surj_pair)
    then have lt: "length r < length bs" using tag_consumed [OF assms(1)] by blast
    show ?thesis
    proof (cases "map_of cases tag")
      case None
      have "length r' \<le> length r" if "rd_skip w (tag mod 8) r = Inr r'" for r'
        using assms(1) that by (auto simp: consuming_def)
      with None r lt later show ?thesis
        by (subst read_fields.simps) (auto simp: ends_def split: sum.splits)
    next
      case (Some f)
      with assms(2) have "ends (f m r) r" by (blast dest: map_of_SomeD)
      with Some r lt later show ?thesis
        by (subst read_fields.simps) (fastforce simp: ends_def split: sum.splits)
    qed
  qed
qed

lemma ends_decode_with:
  assumes "consuming w" and "\<And>tag f m bs. (tag, f) \<in> set cases \<Longrightarrow> ends (f m bs) bs"
  shows "ends (decode_with w cases base depth len bs) bs"
proof (cases "100 \<le> depth")
  case False
  then show ?thesis
    unfolding decode_with_def using ends_read_fields [where cases = cases, OF assms(1)] assms(2) by simp
qed (simp add: decode_with_def ends_def)

section \<open>The contract of a message\<close>

text \<open>
  What a message promises to the messages that hold it: inside any other message, it is read back as
  it was written, up to a depth below \<open>limit\<close>, and its decoder ends on every input.
\<close>

locale message =
  fixes enc :: "wire \<Rightarrow> 'a \<Rightarrow> bytes js_result" and dec :: "wire \<Rightarrow> nat \<Rightarrow> nat option \<Rightarrow> bytes \<Rightarrow> 'a reading"
    and ok :: "wire \<Rightarrow> 'a \<Rightarrow> bool" and limit :: nat
  assumes read_back: "wire_law w \<Longrightarrow> ok w x \<Longrightarrow> depth < limit \<Longrightarrow> decodes (enc w x) (dec w depth) x"
    and decoder_ends: "consuming w \<Longrightarrow> ends (dec w depth len bs) bs"
begin

lemma get_ends:
  assumes "consuming w"
  shows "ends (get_sub w (dec w depth) push m bs) bs" and "ends (get_opt w (dec w depth) assign m bs) bs"
  using assms by (auto simp: get_opt_def intro: ends_get_sub decoder_ends)

lemma opt:
  assumes "wire_law w" and "tag < 2 ^ 32" and "map_of cases tag = Some (get_opt w (dec w depth) assign)"
    and "depth < limit" and "\<forall>x\<in>set_option v. held enc ok w x"
  shows "restores w cases (put_opt w tag (enc w) v) (unless (v = None) (assign v))"
proof (cases v)
  case (Some x)
  then have "restores w cases (put_sub w tag (enc w x)) (assign (Some x))"
    using assms read_back by (intro restores_sub [OF assms(1-3) [unfolded get_opt_def]]) (auto simp: held_def)
  moreover have "unless (v = None) (assign v) = assign (Some x)" using Some by (simp add: unless_def fun_eq_iff)
  ultimately show ?thesis using Some by (simp add: put_opt_def)
next
  case None
  have "unless True (assign None) = (\<lambda>m. m)" by (simp add: unless_def fun_eq_iff)
  with None show ?thesis by (simp add: put_opt_def)
qed

lemma each:
  assumes "wire_law w" and "tag < 2 ^ 32" and "map_of cases tag = Some (get_sub w (dec w depth) push)"
    and "depth < limit" and "\<forall>x\<in>set vs. held enc ok w x"
  shows "restores w cases (put_each w tag (enc w) vs) (in_turn (map push vs))"
proof -
  have "restores w cases (put_sub w tag (enc w x)) (push x)" if "x \<in> set vs" for x
    using that assms read_back by (intro restores_sub [OF assms(1-3)]) (auto simp: held_def)
  then show ?thesis unfolding put_each_def by (intro restores_all) (auto simp: list_all2_conv_all_nth)
qed

end

section \<open>A message field by field\<close>

text \<open>The loop that holds \<open>m\<close> before the bytes of the fields \<open>ps\<close> holds \<open>m'\<close> after them.\<close>

definition reaches :: "wire \<Rightarrow> 'm field_case list \<Rightarrow> bytes js_result list \<Rightarrow> 'm \<Rightarrow> 'm \<Rightarrow> bool" where
  "reaches w cases ps m m' \<longleftrightarrow> (\<exists>f. restores w cases (put_all ps) f \<and> f m = m')"

lemma reaches_end: "m = m' \<Longrightarrow> reaches w cases [] m m'"
  using restores_nothing [of w cases] by (auto simp: reaches_def intro!: exI [of _ "\<lambda>m. m"])

lemma reaches_field:
  assumes "restores w cases p f" and "f m = m1" and "reaches w cases ps m1 m'"
  shows "reaches w cases (p # ps) m m'"
  using assms restores_then unfolding reaches_def by blast

lemma reaches_unless:
  assumes "restores w cases p (unless (v = d) (assign v))" and "assign d m = m" and "reaches w cases ps (assign v m) m'"
  shows "reaches w cases (p # ps) m m'"
  by (rule reaches_field [OF assms(1) unless_default [of assign, OF assms(2)] assms(3)])

lemmas reaches_bool =
  reaches_unless [where v = v and d = "False" and assign = assign, OF restores_bool [where v = v and assign = assign]] for v assign
lemmas reaches_string =
  reaches_unless [where v = v and d = "[]" and assign = assign, OF restores_string [where v = v and assign = assign]] for v assign
lemmas reaches_bytes =
  reaches_unless [where v = v and d = "[]" and assign = assign, OF restores_bytes [where v = v and assign = assign]] for v assign
lemmas reaches_float =
  reaches_unless [where v = v and d = "js_int 0" and assign = assign, OF restores_float [where v = v and assign = assign]] for v assign
lemmas reaches_uint32 =
  reaches_unless [where v = v and d = "js_int 0" and assign = assign, OF restores_uint32 [where v = v and assign = assign]] for v assign
lemmas reaches_int64 =
  reaches_unless [where v = v and d = "js_int 0" and assign = assign, OF restores_int64 [where v = v and assign = assign]] for v assign
lemmas reaches_uint64 =
  reaches_unless [where v = v and d = "js_int 0" and assign = assign, OF restores_uint64 [where v = v and assign = assign]] for v assign
lemmas reaches_int32 =
  reaches_unless [where v = n and d = 0 and assign = assign, OF restores_int32 [where n = n and assign = assign]] for n assign

lemmas reaches_intros = reaches_bool reaches_string reaches_bytes reaches_float reaches_uint32 reaches_int64
  reaches_uint64 reaches_int32 reaches_end

lemma reaches_decodes:
  assumes "reaches w cases ps base m" and "depth < 100"
  shows "decodes (put_all ps) (decode_with w cases base depth) m"
  using assms by (auto simp: reaches_def intro: restores_decodes)

context message
begin

lemma reaches_opt:
  assumes "wire_law w" and "tag < 2 ^ 32" and "map_of cases tag = Some (get_opt w (dec w depth) assign)"
    and "depth < limit" and "\<forall>x\<in>set_option v. held enc ok w x"
    and "assign None m = m" and "reaches w cases ps (assign v m) m'"
  shows "reaches w cases (put_opt w tag (enc w) v # ps) m m'"
  by (rule reaches_unless [where assign = assign and v = v, OF opt [where assign = assign and v = v, OF assms(1-5)] assms(6,7)])

text \<open>An array: \<open>put xs\<close> is the message with the elements \<open>xs\<close> so far.\<close>

lemma reaches_each:
  assumes "wire_law w" and "tag < 2 ^ 32" and "map_of cases tag = Some (get_sub w (dec w depth) push)"
    and "depth < limit" and "\<forall>x\<in>set vs. held enc ok w x"
    and "\<And>xs x. push x (put xs) = put (xs @ [x])" and "reaches w cases ps (put vs) m'"
  shows "reaches w cases (put_each w tag (enc w) vs # ps) (put []) m'"
proof -
  have "in_turn (map push vs) (put xs) = put (xs @ vs)" for xs
    by (induction vs arbitrary: xs) (simp_all add: assms(6))
  from reaches_field [OF each [OF assms(1-5)] this [of "[]"]] assms(7) show ?thesis by simp
qed

end

text \<open>A message written field by field and decoded by a switch.\<close>

lemma messageI:
  assumes "\<And>w m. enc w m = put_all (ps w m)" and "\<And>w depth. dec w depth = decode_with w (cases w depth) base depth"
    and "\<And>w m depth. wire_law w \<Longrightarrow> ok w m \<Longrightarrow> depth < limit \<Longrightarrow> reaches w (cases w depth) (ps w m) base m"
    and "limit \<le> 100"
    and "\<And>w depth tag f m bs. consuming w \<Longrightarrow> (tag, f) \<in> set (cases w depth) \<Longrightarrow> ends (f m bs) bs"
  shows "message enc dec ok limit"
proof
  show "decodes (enc w x) (dec w depth) x" if "wire_law w" "ok w x" "depth < limit" for w x depth
    unfolding assms(1,2) using assms(3) [OF that] that(3) assms(4) by (intro reaches_decodes) simp_all
  show "ends (dec w depth len bs) bs" if "consuming w" for w depth len bs
    unfolding assms(2) using assms(5) [OF that] by (intro ends_decode_with that) blast
qed

end
