(* ===== verification/Varint.thy ===== *)
theory Varint
  imports Wire
begin

text \<open>
  A library for the wire of \<open>Wire\<close>, to show that its laws can hold: numbers as varints of 64 bits,
  strings and bytes after their length, as the format of the messages has them. The numbers of
  single precision are the whole numbers here.
\<close>

fun varint :: "nat \<Rightarrow> bytes" where
  "varint n = (if n < 128 then [of_nat n] else of_nat (128 + n mod 128) # varint (n div 128))"

declare varint.simps [simp del]

fun unvarint :: "bytes \<Rightarrow> (nat \<times> bytes) js_result" where
  "unvarint [] = Inl RangeError"
| "unvarint (b # bs) =
     (if unat b < 128 then Inr (unat b, bs)
      else js_bind (unvarint bs) (\<lambda>(n, r). Inr (unat b - 128 + 128 * n, r)))"

lemma unat_of_byte: "n < 256 \<Longrightarrow> unat (of_nat n :: 8 word) = n"
  by (simp add: unat_of_nat)

lemma unvarint_varint [simp]: "unvarint (varint n @ rest) = Inr (n, rest)"
proof (induction n rule: varint.induct)
  case (1 n)
  show ?case
  proof (cases "n < 128")
    case True
    then show ?thesis by (simp add: varint.simps [of n] unat_of_byte)
  next
    case False
    have "unat (of_nat (128 + n mod 128) :: 8 word) = 128 + n mod 128" by (rule unat_of_byte) simp
    then show ?thesis using 1 [OF False] False by (simp add: varint.simps [of n] del: of_nat_add)
  qed
qed

lemma unvarint_consumes: "unvarint bs = Inr (n, r) \<Longrightarrow> length r < length bs"
proof (induction bs arbitrary: n r)
  case (Cons b bs)
  show ?case
  proof (cases "unat b < 128")
    case False
    with Cons.prems obtain m where "unvarint bs = Inr (m, r)" by (auto simp: js_bind_def split: sum.splits)
    with Cons.IH show ?thesis by fastforce
  qed (use Cons.prems in simp)
qed simp

text \<open>Numbers in a range, in 64 bits of two's complement.\<close>

definition write_int :: "int \<Rightarrow> int \<Rightarrow> jsnum \<Rightarrow> bytes js_result" where
  "write_int lo hi v =
     js_bind (to_bigint v) (\<lambda>n. if lo \<le> n \<and> n \<le> hi then Inr (varint (nat (n mod 2 ^ 64))) else Inl RangeError)"

definition signed :: "nat \<Rightarrow> int" where
  "signed n = (if n < 2 ^ 63 then int n else int n - 2 ^ 64)"

definition read_int :: "bytes \<Rightarrow> (int \<times> bytes) js_result" where
  "read_int bs = js_bind (unvarint bs) (\<lambda>(n, r). Inr (signed n, r))"

definition read_unsigned :: "bytes \<Rightarrow> (int \<times> bytes) js_result" where
  "read_unsigned bs = js_bind (unvarint bs) (\<lambda>(n, r). Inr (int n, r))"

lemma reads_back_int:
  assumes "lo \<le> n" and "n \<le> hi" and "- (2 ^ 63) \<le> n" and "n < 2 ^ 63"
  shows "reads_back read_int (write_int lo hi (js_int n)) n"
proof -
  have "signed (nat (n mod 2 ^ 64)) = n"
  proof (cases "0 \<le> n")
    case False
    then have "(n + 2 ^ 64) mod 2 ^ 64 = n + 2 ^ 64" using assms(3) by (intro mod_pos_pos_trivial) simp_all
    then have "n mod 2 ^ 64 = n + 2 ^ 64" by simp
    with False assms(3) show ?thesis by (simp add: signed_def)
  qed (use assms(4) in \<open>simp add: signed_def\<close>)
  with assms(1,2) show ?thesis by (simp add: reads_back_def read_int_def write_int_def)
qed

lemma reads_back_unsigned:
  assumes "0 \<le> n" and "n \<le> hi" and "hi < 2 ^ 64"
  shows "reads_back read_unsigned (write_int 0 hi (js_int n)) n"
  using assms by (simp add: reads_back_def read_unsigned_def write_int_def)

lemma reads_back_varint:
  assumes "int n \<le> hi" and "hi < 2 ^ 64"
  shows "reads_back unvarint (write_int 0 hi (js_int (int n))) n"
  using assms by (simp add: reads_back_def write_int_def to_bigint_js_int del: of_int_of_nat_eq)

text \<open>Bytes after their length.\<close>

definition prefixed :: "bytes \<Rightarrow> bytes js_result" where
  "prefixed bs = Inr (varint (length bs) @ bs)"

definition read_prefixed :: "bytes \<Rightarrow> (bytes \<times> bytes) js_result" where
  "read_prefixed bs =
     js_bind (unvarint bs) (\<lambda>(n, r). if n \<le> length r then Inr (take n r, drop n r) else Inl RangeError)"

definition write_string :: "string \<Rightarrow> bytes js_result" where
  "write_string s = prefixed (map (\<lambda>c. of_nat (of_char c)) s)"

definition read_string :: "bytes \<Rightarrow> (string \<times> bytes) js_result" where
  "read_string bs = js_bind (read_prefixed bs) (\<lambda>(cs, r). Inr (map (\<lambda>b. char_of (unat b)) cs, r))"

lemma reads_back_prefixed: "reads_back read_prefixed (prefixed bs) bs"
  by (simp add: reads_back_def read_prefixed_def prefixed_def)

lemma reads_back_string: "reads_back read_string (write_string s) s"
proof -
  have "char_of (unat (of_nat (of_char c) :: 8 word)) = c" for c :: char
    by (simp add: unat_of_byte)
  then show ?thesis
    by (simp add: reads_back_def read_string_def write_string_def read_prefixed_def prefixed_def comp_def map_idI)
qed

text \<open>Whole numbers stand for those of single precision.\<close>

definition write_float :: "jsnum \<Rightarrow> bytes js_result" where
  "write_float v = (case v of
     Fin x \<Rightarrow> Inr (varint (if 0 \<le> x then 2 * nat \<lfloor>x\<rfloor> else 2 * nat (- \<lfloor>x\<rfloor>) - 1))
   | _ \<Rightarrow> Inl RangeError)"

definition read_float :: "bytes \<Rightarrow> (jsnum \<times> bytes) js_result" where
  "read_float bs = js_bind (unvarint bs) (\<lambda>(n, r).
     Inr (js_int (if even n then int (n div 2) else - int (n div 2) - 1), r))"

lemma reads_back_float: "reads_back read_float (write_float (Fin x)) (js_floor (Fin x))"
proof (cases "0 \<le> x")
  case False
  then have "0 < nat (- \<lfloor>x\<rfloor>)" by linarith
  then obtain k where k: "nat (- \<lfloor>x\<rfloor>) = Suc k" by (cases "nat (- \<lfloor>x\<rfloor>)") auto
  then have "\<lfloor>x\<rfloor> = - int k - 1" by linarith
  with k False show ?thesis by (simp add: reads_back_def read_float_def write_float_def)
qed (simp add: reads_back_def read_float_def write_float_def)

definition varint_wire :: wire where
  "varint_wire = \<lparr>w_fround = js_floor, wr_uint32 = write_int 0 (2 ^ 32 - 1), wr_int32 = write_int (- (2 ^ 31)) (2 ^ 31 - 1),
     wr_uint64 = write_int 0 (2 ^ 63 - 1), wr_int64 = write_int (- (2 ^ 63)) (2 ^ 63 - 1), wr_float = write_float,
     wr_bool = (\<lambda>b. varint (if b then 1 else 0)), wr_string = write_string, wr_bytes = prefixed, wr_join = prefixed,
     rd_uint32 = unvarint, rd_int32 = read_int, rd_uint64 = read_unsigned, rd_int64 = read_int,
     rd_float = read_float, rd_bool = (\<lambda>bs. js_bind (unvarint bs) (\<lambda>(n, r). Inr (n \<noteq> 0, r))),
     rd_string = read_string, rd_bytes = read_prefixed,
     rd_skip = (\<lambda>t bs. if t = 0 then js_bind (unvarint bs) (\<lambda>(n, r). Inr r)
       else if t = 2 then js_bind (read_prefixed bs) (\<lambda>(x, r). Inr r) else Inl RangeError)\<rparr>"

lemma consuming_varint_wire: "consuming varint_wire"
  using unvarint_consumes
  by (auto simp: consuming_def varint_wire_def read_int_def read_unsigned_def read_float_def read_string_def read_prefixed_def js_bind_def
      dest: less_imp_le split: sum.splits if_splits) (fastforce dest: unvarint_consumes)+

lemma varint_wire_law: "wire_law varint_wire"
  unfolding wire_law_def
proof (intro conjI)
  show "consuming varint_wire" by (rule consuming_varint_wire)
  show "\<forall>n<2 ^ 32. reads_back (rd_uint32 varint_wire) (wr_uint32 varint_wire (js_int (int n))) n"
    by (simp add: varint_wire_def reads_back_varint del: of_int_of_nat_eq)
qed (use reads_back_int reads_back_unsigned reads_back_prefixed reads_back_string reads_back_float in
    \<open>auto simp: varint_wire_def MAX_SAFE_INTEGER_def prefixed_def reads_back_def\<close>)

end
