(* ===== verification/Messages.thy ===== *)
theory Messages
  imports Protocol Varint
begin

text \<open>
  The encoders and decoders of the engine's messages, \<open>web/src/proto/messages.ts\<close>, over the wire of
  \<open>Wire\<close>: for each message its empty value, the fields its encoder writes, the cases of its decoder's
  switch, and the messages that can be written. Each one fulfils the contract \<open>message\<close>, so it is read
  back inside the messages that hold it. The depth counts the messages around a decoder. The JSON
  forms and \<open>fromPartial\<close>, which the program does not call, are left out.
\<close>

section \<open>Enumerations\<close>

fun action_number :: "transport_action \<Rightarrow> int" where
  "action_number PLAY = 0"
| "action_number STOP = 1"
| "action_number SEEK = 2"
| "action_number LOOP = 3"
| "action_number (ActionNumber n) = n"

definition action_of :: "int \<Rightarrow> transport_action" where
  "action_of n = (if n = 0 then PLAY else if n = 1 then STOP else if n = 2 then SEEK else if n = 3 then LOOP
     else ActionNumber n)"

fun status_number :: "render_status \<Rightarrow> int" where
  "status_number STARTED = 0"
| "status_number DONE = 1"
| "status_number FAILED = 2"
| "status_number (StatusNumber n) = n"

definition status_of :: "int \<Rightarrow> render_status" where
  "status_of n = (if n = 0 then STARTED else if n = 1 then DONE else if n = 2 then FAILED else StatusNumber n)"

fun severity_number :: "severity \<Rightarrow> int" where
  "severity_number WARNING = 0"
| "severity_number ERROR = 1"
| "severity_number FATAL = 2"
| "severity_number (SeverityNumber n) = n"

definition severity_of :: "int \<Rightarrow> severity" where
  "severity_of n = (if n = 0 then WARNING else if n = 1 then ERROR else if n = 2 then FATAL else SeverityNumber n)"

text \<open>A value of the enumeration, or another number of 32 bits.\<close>

definition action_ok :: "transport_action \<Rightarrow> bool" where
  "action_ok a \<longleftrightarrow> action_of (action_number a) = a \<and> - (2 ^ 31) \<le> action_number a \<and> action_number a < 2 ^ 31"

definition status_ok :: "render_status \<Rightarrow> bool" where
  "status_ok a \<longleftrightarrow> status_of (status_number a) = a \<and> - (2 ^ 31) \<le> status_number a \<and> status_number a < 2 ^ 31"

definition severity_ok :: "severity \<Rightarrow> bool" where
  "severity_ok a \<longleftrightarrow> severity_of (severity_number a) = a \<and> - (2 ^ 31) \<le> severity_number a \<and> severity_number a < 2 ^ 31"

lemmas enum_ok_defs = action_ok_def status_ok_def severity_ok_def

section \<open>TransportCommand\<close>

definition createBaseTransportCommand :: transport_command where
  "createBaseTransportCommand =
     \<lparr>tc_action = action_of 0, tc_seekPosition = js_int 0, tc_loopEnabled = False, tc_setRegion = False,
      tc_loopStart = js_int 0, tc_loopEnd = js_int 0, tc_clearRegion = False\<rparr>"

definition encode_TransportCommand :: "wire \<Rightarrow> transport_command \<Rightarrow> bytes js_result" where
  "encode_TransportCommand w m = put_all
     [put_num w (wr_int32 w) 8 (js_int (action_number (tc_action m))),
      put_num w (wr_int64 w) 16 (tc_seekPosition m), put_bool w 24 (tc_loopEnabled m),
      put_bool w 32 (tc_setRegion m), put_num w (wr_int64 w) 40 (tc_loopStart m),
      put_num w (wr_int64 w) 48 (tc_loopEnd m), put_bool w 56 (tc_clearRegion m)]"

definition cases_TransportCommand :: "wire \<Rightarrow> transport_command field_case list" where
  "cases_TransportCommand w =
     [(8, get (rd_int32 w) (\<lambda>v m. m\<lparr>tc_action := action_of v\<rparr>)),
      (16, get_long (rd_int64 w) (\<lambda>v m. m\<lparr>tc_seekPosition := v\<rparr>)),
      (24, get (rd_bool w) (\<lambda>v m. m\<lparr>tc_loopEnabled := v\<rparr>)),
      (32, get (rd_bool w) (\<lambda>v m. m\<lparr>tc_setRegion := v\<rparr>)),
      (40, get_long (rd_int64 w) (\<lambda>v m. m\<lparr>tc_loopStart := v\<rparr>)),
      (48, get_long (rd_int64 w) (\<lambda>v m. m\<lparr>tc_loopEnd := v\<rparr>)),
      (56, get (rd_bool w) (\<lambda>v m. m\<lparr>tc_clearRegion := v\<rparr>))]"

definition decode_TransportCommand :: "wire \<Rightarrow> nat \<Rightarrow> nat option \<Rightarrow> bytes \<Rightarrow> transport_command reading" where
  "decode_TransportCommand w = decode_with w (cases_TransportCommand w) createBaseTransportCommand"

definition writable_TransportCommand :: "wire \<Rightarrow> transport_command \<Rightarrow> bool" where
  "writable_TransportCommand w m \<longleftrightarrow> action_ok (tc_action m) \<and>
     whole (- MAX_SAFE_INTEGER) MAX_SAFE_INTEGER (tc_seekPosition m) \<and>
     whole (- MAX_SAFE_INTEGER) MAX_SAFE_INTEGER (tc_loopStart m) \<and>
     whole (- MAX_SAFE_INTEGER) MAX_SAFE_INTEGER (tc_loopEnd m)"

interpretation pb_transport_command: message encode_TransportCommand decode_TransportCommand writable_TransportCommand 100
  by (rule messageI [OF encode_TransportCommand_def fun_cong [OF decode_TransportCommand_def]])
    ((intro reaches_intros, (simp add: cases_TransportCommand_def createBaseTransportCommand_def writable_TransportCommand_def enum_ok_defs)+),
     auto simp: cases_TransportCommand_def intro: ends_kinds)

section \<open>SetMonitor\<close>

definition createBaseSetMonitor :: set_monitor where
  "createBaseSetMonitor =
     \<lparr>mo_trackId = [], mo_solo = False, mo_mute = False\<rparr>"

definition encode_SetMonitor :: "wire \<Rightarrow> set_monitor \<Rightarrow> bytes js_result" where
  "encode_SetMonitor w m = put_all
     [put_string w 10 (mo_trackId m), put_bool w 16 (mo_solo m), put_bool w 24 (mo_mute m)]"

definition cases_SetMonitor :: "wire \<Rightarrow> set_monitor field_case list" where
  "cases_SetMonitor w =
     [(10, get (rd_string w) (\<lambda>v m. m\<lparr>mo_trackId := v\<rparr>)),
      (16, get (rd_bool w) (\<lambda>v m. m\<lparr>mo_solo := v\<rparr>)),
      (24, get (rd_bool w) (\<lambda>v m. m\<lparr>mo_mute := v\<rparr>))]"

definition decode_SetMonitor :: "wire \<Rightarrow> nat \<Rightarrow> nat option \<Rightarrow> bytes \<Rightarrow> set_monitor reading" where
  "decode_SetMonitor w = decode_with w (cases_SetMonitor w) createBaseSetMonitor"

definition writable_SetMonitor :: "wire \<Rightarrow> set_monitor \<Rightarrow> bool" where
  "writable_SetMonitor w m \<longleftrightarrow> length (mo_trackId m) < 2 ^ 31"

interpretation pb_set_monitor: message encode_SetMonitor decode_SetMonitor writable_SetMonitor 100
  by (rule messageI [OF encode_SetMonitor_def fun_cong [OF decode_SetMonitor_def]])
    ((intro reaches_intros, (simp add: cases_SetMonitor_def createBaseSetMonitor_def writable_SetMonitor_def enum_ok_defs)+),
     auto simp: cases_SetMonitor_def intro: ends_kinds)

section \<open>TapControl\<close>

definition createBaseTapControl :: tap_control where
  "createBaseTapControl =
     \<lparr>ta_enabled = False\<rparr>"

definition encode_TapControl :: "wire \<Rightarrow> tap_control \<Rightarrow> bytes js_result" where
  "encode_TapControl w m = put_all
     [put_bool w 8 (ta_enabled m)]"

definition cases_TapControl :: "wire \<Rightarrow> tap_control field_case list" where
  "cases_TapControl w =
     [(8, get (rd_bool w) (\<lambda>v m. m\<lparr>ta_enabled := v\<rparr>))]"

definition decode_TapControl :: "wire \<Rightarrow> nat \<Rightarrow> nat option \<Rightarrow> bytes \<Rightarrow> tap_control reading" where
  "decode_TapControl w = decode_with w (cases_TapControl w) createBaseTapControl"

definition writable_TapControl :: "wire \<Rightarrow> tap_control \<Rightarrow> bool" where
  "writable_TapControl w m \<longleftrightarrow> True"

interpretation pb_tap_control: message encode_TapControl decode_TapControl writable_TapControl 100
  by (rule messageI [OF encode_TapControl_def fun_cong [OF decode_TapControl_def]])
    ((intro reaches_intros, (simp add: cases_TapControl_def createBaseTapControl_def writable_TapControl_def enum_ok_defs)+),
     auto simp: cases_TapControl_def intro: ends_kinds)

section \<open>EditorControl\<close>

definition createBaseEditorControl :: editor_control where
  "createBaseEditorControl =
     \<lparr>ed_nodeId = [], ed_open = False\<rparr>"

definition encode_EditorControl :: "wire \<Rightarrow> editor_control \<Rightarrow> bytes js_result" where
  "encode_EditorControl w m = put_all
     [put_string w 10 (ed_nodeId m), put_bool w 16 (ed_open m)]"

definition cases_EditorControl :: "wire \<Rightarrow> editor_control field_case list" where
  "cases_EditorControl w =
     [(10, get (rd_string w) (\<lambda>v m. m\<lparr>ed_nodeId := v\<rparr>)),
      (16, get (rd_bool w) (\<lambda>v m. m\<lparr>ed_open := v\<rparr>))]"

definition decode_EditorControl :: "wire \<Rightarrow> nat \<Rightarrow> nat option \<Rightarrow> bytes \<Rightarrow> editor_control reading" where
  "decode_EditorControl w = decode_with w (cases_EditorControl w) createBaseEditorControl"

definition writable_EditorControl :: "wire \<Rightarrow> editor_control \<Rightarrow> bool" where
  "writable_EditorControl w m \<longleftrightarrow> length (ed_nodeId m) < 2 ^ 31"

interpretation pb_editor_control: message encode_EditorControl decode_EditorControl writable_EditorControl 100
  by (rule messageI [OF encode_EditorControl_def fun_cong [OF decode_EditorControl_def]])
    ((intro reaches_intros, (simp add: cases_EditorControl_def createBaseEditorControl_def writable_EditorControl_def enum_ok_defs)+),
     auto simp: cases_EditorControl_def intro: ends_kinds)

section \<open>SessionLaunch\<close>

definition createBaseSessionLaunch :: session_launch where
  "createBaseSessionLaunch =
     \<lparr>sl_sceneId = [], sl_trackId = [], sl_stop = False, sl_quantize = False\<rparr>"

definition encode_SessionLaunch :: "wire \<Rightarrow> session_launch \<Rightarrow> bytes js_result" where
  "encode_SessionLaunch w m = put_all
     [put_string w 10 (sl_sceneId m), put_string w 18 (sl_trackId m), put_bool w 24 (sl_stop m),
      put_bool w 32 (sl_quantize m)]"

definition cases_SessionLaunch :: "wire \<Rightarrow> session_launch field_case list" where
  "cases_SessionLaunch w =
     [(10, get (rd_string w) (\<lambda>v m. m\<lparr>sl_sceneId := v\<rparr>)),
      (18, get (rd_string w) (\<lambda>v m. m\<lparr>sl_trackId := v\<rparr>)),
      (24, get (rd_bool w) (\<lambda>v m. m\<lparr>sl_stop := v\<rparr>)),
      (32, get (rd_bool w) (\<lambda>v m. m\<lparr>sl_quantize := v\<rparr>))]"

definition decode_SessionLaunch :: "wire \<Rightarrow> nat \<Rightarrow> nat option \<Rightarrow> bytes \<Rightarrow> session_launch reading" where
  "decode_SessionLaunch w = decode_with w (cases_SessionLaunch w) createBaseSessionLaunch"

definition writable_SessionLaunch :: "wire \<Rightarrow> session_launch \<Rightarrow> bool" where
  "writable_SessionLaunch w m \<longleftrightarrow> length (sl_sceneId m) < 2 ^ 31 \<and>
     length (sl_trackId m) < 2 ^ 31"

interpretation pb_session_launch: message encode_SessionLaunch decode_SessionLaunch writable_SessionLaunch 100
  by (rule messageI [OF encode_SessionLaunch_def fun_cong [OF decode_SessionLaunch_def]])
    ((intro reaches_intros, (simp add: cases_SessionLaunch_def createBaseSessionLaunch_def writable_SessionLaunch_def enum_ok_defs)+),
     auto simp: cases_SessionLaunch_def intro: ends_kinds)

section \<open>SessionState_Slot\<close>

definition createBaseSessionState_Slot :: session_slot where
  "createBaseSessionState_Slot =
     \<lparr>ss_trackId = [], ss_sceneId = [], ss_queued = False\<rparr>"

definition encode_SessionState_Slot :: "wire \<Rightarrow> session_slot \<Rightarrow> bytes js_result" where
  "encode_SessionState_Slot w m = put_all
     [put_string w 10 (ss_trackId m), put_string w 18 (ss_sceneId m), put_bool w 24 (ss_queued m)]"

definition cases_SessionState_Slot :: "wire \<Rightarrow> session_slot field_case list" where
  "cases_SessionState_Slot w =
     [(10, get (rd_string w) (\<lambda>v m. m\<lparr>ss_trackId := v\<rparr>)),
      (18, get (rd_string w) (\<lambda>v m. m\<lparr>ss_sceneId := v\<rparr>)),
      (24, get (rd_bool w) (\<lambda>v m. m\<lparr>ss_queued := v\<rparr>))]"

definition decode_SessionState_Slot :: "wire \<Rightarrow> nat \<Rightarrow> nat option \<Rightarrow> bytes \<Rightarrow> session_slot reading" where
  "decode_SessionState_Slot w = decode_with w (cases_SessionState_Slot w) createBaseSessionState_Slot"

definition writable_SessionState_Slot :: "wire \<Rightarrow> session_slot \<Rightarrow> bool" where
  "writable_SessionState_Slot w m \<longleftrightarrow> length (ss_trackId m) < 2 ^ 31 \<and>
     length (ss_sceneId m) < 2 ^ 31"

interpretation pb_session_slot: message encode_SessionState_Slot decode_SessionState_Slot writable_SessionState_Slot 100
  by (rule messageI [OF encode_SessionState_Slot_def fun_cong [OF decode_SessionState_Slot_def]])
    ((intro reaches_intros, (simp add: cases_SessionState_Slot_def createBaseSessionState_Slot_def writable_SessionState_Slot_def enum_ok_defs)+),
     auto simp: cases_SessionState_Slot_def intro: ends_kinds)

section \<open>SessionState\<close>

definition createBaseSessionState :: session_state where
  "createBaseSessionState =
     \<lparr>ss_slots = []\<rparr>"

definition encode_SessionState :: "wire \<Rightarrow> session_state \<Rightarrow> bytes js_result" where
  "encode_SessionState w m = put_all
     [put_each w 10 (encode_SessionState_Slot w) (ss_slots m)]"

definition cases_SessionState :: "wire \<Rightarrow> nat \<Rightarrow> session_state field_case list" where
  "cases_SessionState w depth =
     [(10, get_sub w (decode_SessionState_Slot w (Suc depth)) (\<lambda>v m. m\<lparr>ss_slots := ss_slots m @ [v]\<rparr>))]"

definition decode_SessionState :: "wire \<Rightarrow> nat \<Rightarrow> nat option \<Rightarrow> bytes \<Rightarrow> session_state reading" where
  "decode_SessionState w depth = decode_with w (cases_SessionState w depth) createBaseSessionState depth"

definition writable_SessionState :: "wire \<Rightarrow> session_state \<Rightarrow> bool" where
  "writable_SessionState w m \<longleftrightarrow> (\<forall>x\<in>set (ss_slots m). held encode_SessionState_Slot writable_SessionState_Slot w x)"

lemma ss_slots_empty: "createBaseSessionState = createBaseSessionState\<lparr>ss_slots := []\<rparr>"
  by (simp add: createBaseSessionState_def)

interpretation pb_session_state: message encode_SessionState decode_SessionState writable_SessionState 99
  by (rule messageI [OF encode_SessionState_def decode_SessionState_def], subst ss_slots_empty,
      rule pb_session_slot.reaches_each [where put = "\<lambda>xs. createBaseSessionState\<lparr>ss_slots := xs\<rparr>"])
    ((intro reaches_intros | simp add: cases_SessionState_def createBaseSessionState_def writable_SessionState_def)+,
     auto simp: cases_SessionState_def intro: ends_kinds pb_session_slot.get_ends)

section \<open>TransportPosition\<close>

definition createBaseTransportPosition :: transport_position where
  "createBaseTransportPosition =
     \<lparr>po_positionSamples = js_int 0, po_isPlaying = False, po_sampleRate = js_int 0\<rparr>"

definition encode_TransportPosition :: "wire \<Rightarrow> transport_position \<Rightarrow> bytes js_result" where
  "encode_TransportPosition w m = put_all
     [put_num w (wr_int64 w) 8 (po_positionSamples m), put_bool w 16 (po_isPlaying m),
      put_num w (wr_uint32 w) 24 (po_sampleRate m)]"

definition cases_TransportPosition :: "wire \<Rightarrow> transport_position field_case list" where
  "cases_TransportPosition w =
     [(8, get_long (rd_int64 w) (\<lambda>v m. m\<lparr>po_positionSamples := v\<rparr>)),
      (16, get (rd_bool w) (\<lambda>v m. m\<lparr>po_isPlaying := v\<rparr>)),
      (24, get_uint32 w (\<lambda>v m. m\<lparr>po_sampleRate := v\<rparr>))]"

definition decode_TransportPosition :: "wire \<Rightarrow> nat \<Rightarrow> nat option \<Rightarrow> bytes \<Rightarrow> transport_position reading" where
  "decode_TransportPosition w = decode_with w (cases_TransportPosition w) createBaseTransportPosition"

definition writable_TransportPosition :: "wire \<Rightarrow> transport_position \<Rightarrow> bool" where
  "writable_TransportPosition w m \<longleftrightarrow> whole (- MAX_SAFE_INTEGER) MAX_SAFE_INTEGER (po_positionSamples m) \<and>
     whole 0 (2 ^ 32 - 1) (po_sampleRate m)"

interpretation pb_transport_position: message encode_TransportPosition decode_TransportPosition writable_TransportPosition 100
  by (rule messageI [OF encode_TransportPosition_def fun_cong [OF decode_TransportPosition_def]])
    ((intro reaches_intros, (simp add: cases_TransportPosition_def createBaseTransportPosition_def writable_TransportPosition_def enum_ok_defs)+),
     auto simp: cases_TransportPosition_def intro: ends_kinds)

section \<open>TrackMeter\<close>

definition createBaseTrackMeter :: track_meter where
  "createBaseTrackMeter =
     \<lparr>me_trackId = [], me_peakLeft = js_int 0, me_peakRight = js_int 0\<rparr>"

definition encode_TrackMeter :: "wire \<Rightarrow> track_meter \<Rightarrow> bytes js_result" where
  "encode_TrackMeter w m = put_all
     [put_string w 10 (me_trackId m), put_num w (wr_float w) 21 (me_peakLeft m),
      put_num w (wr_float w) 29 (me_peakRight m)]"

definition cases_TrackMeter :: "wire \<Rightarrow> track_meter field_case list" where
  "cases_TrackMeter w =
     [(10, get (rd_string w) (\<lambda>v m. m\<lparr>me_trackId := v\<rparr>)),
      (21, get (rd_float w) (\<lambda>v m. m\<lparr>me_peakLeft := v\<rparr>)),
      (29, get (rd_float w) (\<lambda>v m. m\<lparr>me_peakRight := v\<rparr>))]"

definition decode_TrackMeter :: "wire \<Rightarrow> nat \<Rightarrow> nat option \<Rightarrow> bytes \<Rightarrow> track_meter reading" where
  "decode_TrackMeter w = decode_with w (cases_TrackMeter w) createBaseTrackMeter"

definition writable_TrackMeter :: "wire \<Rightarrow> track_meter \<Rightarrow> bool" where
  "writable_TrackMeter w m \<longleftrightarrow> length (me_trackId m) < 2 ^ 31 \<and>
     single w (me_peakLeft m) \<and>
     single w (me_peakRight m)"

interpretation pb_track_meter: message encode_TrackMeter decode_TrackMeter writable_TrackMeter 100
  by (rule messageI [OF encode_TrackMeter_def fun_cong [OF decode_TrackMeter_def]])
    ((intro reaches_intros, (simp add: cases_TrackMeter_def createBaseTrackMeter_def writable_TrackMeter_def enum_ok_defs)+),
     auto simp: cases_TrackMeter_def intro: ends_kinds)

section \<open>Meters\<close>

definition createBaseMeters :: meters where
  "createBaseMeters =
     \<lparr>me_tracks = [], me_masterPeakLeft = js_int 0, me_masterPeakRight = js_int 0\<rparr>"

definition encode_Meters :: "wire \<Rightarrow> meters \<Rightarrow> bytes js_result" where
  "encode_Meters w m = put_all
     [put_each w 10 (encode_TrackMeter w) (me_tracks m), put_num w (wr_float w) 21 (me_masterPeakLeft m),
      put_num w (wr_float w) 29 (me_masterPeakRight m)]"

definition cases_Meters :: "wire \<Rightarrow> nat \<Rightarrow> meters field_case list" where
  "cases_Meters w depth =
     [(10, get_sub w (decode_TrackMeter w (Suc depth)) (\<lambda>v m. m\<lparr>me_tracks := me_tracks m @ [v]\<rparr>)),
      (21, get (rd_float w) (\<lambda>v m. m\<lparr>me_masterPeakLeft := v\<rparr>)),
      (29, get (rd_float w) (\<lambda>v m. m\<lparr>me_masterPeakRight := v\<rparr>))]"

definition decode_Meters :: "wire \<Rightarrow> nat \<Rightarrow> nat option \<Rightarrow> bytes \<Rightarrow> meters reading" where
  "decode_Meters w depth = decode_with w (cases_Meters w depth) createBaseMeters depth"

definition writable_Meters :: "wire \<Rightarrow> meters \<Rightarrow> bool" where
  "writable_Meters w m \<longleftrightarrow> (\<forall>x\<in>set (me_tracks m). held encode_TrackMeter writable_TrackMeter w x) \<and>
     single w (me_masterPeakLeft m) \<and>
     single w (me_masterPeakRight m)"

lemma me_tracks_empty: "createBaseMeters = createBaseMeters\<lparr>me_tracks := []\<rparr>"
  by (simp add: createBaseMeters_def)

interpretation pb_meters: message encode_Meters decode_Meters writable_Meters 99
  by (rule messageI [OF encode_Meters_def decode_Meters_def], subst me_tracks_empty,
      rule pb_track_meter.reaches_each [where put = "\<lambda>xs. createBaseMeters\<lparr>me_tracks := xs\<rparr>"])
    ((intro reaches_intros | simp add: cases_Meters_def createBaseMeters_def writable_Meters_def)+,
     auto simp: cases_Meters_def intro: ends_kinds pb_track_meter.get_ends)

section \<open>EngineState\<close>

definition createBaseEngineState :: engine_state where
  "createBaseEngineState =
     \<lparr>es_bufferUnderruns = js_int 0, es_cpuPercent = js_int 0, es_latencySamples = js_int 0,
      es_pluginBlocksMissed = js_int 0, es_pluginChildAlive = False, es_pluginChildRestarts = js_int 0,
      es_projectId = [], es_stemsRenderedTotal = js_int 0, es_devicePeriodFrames = js_int 0,
      es_deviceExclusive = False, es_limiterReductionDb = js_int 0, es_limiterEngagedBlocks = js_int 0,
      es_limiterCeilingDb = js_int 0, es_limiterEnabled = False\<rparr>"

definition encode_EngineState :: "wire \<Rightarrow> engine_state \<Rightarrow> bytes js_result" where
  "encode_EngineState w m = put_all
     [put_num w (wr_uint64 w) 8 (es_bufferUnderruns m), put_num w (wr_uint32 w) 16 (es_cpuPercent m),
      put_num w (wr_uint32 w) 24 (es_latencySamples m), put_num w (wr_uint64 w) 32 (es_pluginBlocksMissed m),
      put_bool w 40 (es_pluginChildAlive m), put_num w (wr_uint32 w) 48 (es_pluginChildRestarts m),
      put_string w 58 (es_projectId m), put_num w (wr_uint32 w) 64 (es_stemsRenderedTotal m),
      put_num w (wr_uint32 w) 72 (es_devicePeriodFrames m), put_bool w 80 (es_deviceExclusive m),
      put_num w (wr_float w) 93 (es_limiterReductionDb m),
      put_num w (wr_uint64 w) 96 (es_limiterEngagedBlocks m),
      put_num w (wr_float w) 109 (es_limiterCeilingDb m), put_bool w 112 (es_limiterEnabled m)]"

definition cases_EngineState :: "wire \<Rightarrow> engine_state field_case list" where
  "cases_EngineState w =
     [(8, get_long (rd_uint64 w) (\<lambda>v m. m\<lparr>es_bufferUnderruns := v\<rparr>)),
      (16, get_uint32 w (\<lambda>v m. m\<lparr>es_cpuPercent := v\<rparr>)),
      (24, get_uint32 w (\<lambda>v m. m\<lparr>es_latencySamples := v\<rparr>)),
      (32, get_long (rd_uint64 w) (\<lambda>v m. m\<lparr>es_pluginBlocksMissed := v\<rparr>)),
      (40, get (rd_bool w) (\<lambda>v m. m\<lparr>es_pluginChildAlive := v\<rparr>)),
      (48, get_uint32 w (\<lambda>v m. m\<lparr>es_pluginChildRestarts := v\<rparr>)),
      (58, get (rd_string w) (\<lambda>v m. m\<lparr>es_projectId := v\<rparr>)),
      (64, get_uint32 w (\<lambda>v m. m\<lparr>es_stemsRenderedTotal := v\<rparr>)),
      (72, get_uint32 w (\<lambda>v m. m\<lparr>es_devicePeriodFrames := v\<rparr>)),
      (80, get (rd_bool w) (\<lambda>v m. m\<lparr>es_deviceExclusive := v\<rparr>)),
      (93, get (rd_float w) (\<lambda>v m. m\<lparr>es_limiterReductionDb := v\<rparr>)),
      (96, get_long (rd_uint64 w) (\<lambda>v m. m\<lparr>es_limiterEngagedBlocks := v\<rparr>)),
      (109, get (rd_float w) (\<lambda>v m. m\<lparr>es_limiterCeilingDb := v\<rparr>)),
      (112, get (rd_bool w) (\<lambda>v m. m\<lparr>es_limiterEnabled := v\<rparr>))]"

definition decode_EngineState :: "wire \<Rightarrow> nat \<Rightarrow> nat option \<Rightarrow> bytes \<Rightarrow> engine_state reading" where
  "decode_EngineState w = decode_with w (cases_EngineState w) createBaseEngineState"

definition writable_EngineState :: "wire \<Rightarrow> engine_state \<Rightarrow> bool" where
  "writable_EngineState w m \<longleftrightarrow> whole 0 MAX_SAFE_INTEGER (es_bufferUnderruns m) \<and>
     whole 0 (2 ^ 32 - 1) (es_cpuPercent m) \<and>
     whole 0 (2 ^ 32 - 1) (es_latencySamples m) \<and>
     whole 0 MAX_SAFE_INTEGER (es_pluginBlocksMissed m) \<and>
     whole 0 (2 ^ 32 - 1) (es_pluginChildRestarts m) \<and>
     length (es_projectId m) < 2 ^ 31 \<and>
     whole 0 (2 ^ 32 - 1) (es_stemsRenderedTotal m) \<and>
     whole 0 (2 ^ 32 - 1) (es_devicePeriodFrames m) \<and>
     single w (es_limiterReductionDb m) \<and>
     whole 0 MAX_SAFE_INTEGER (es_limiterEngagedBlocks m) \<and>
     single w (es_limiterCeilingDb m)"

interpretation pb_engine_state: message encode_EngineState decode_EngineState writable_EngineState 100
  by (rule messageI [OF encode_EngineState_def fun_cong [OF decode_EngineState_def]])
    ((intro reaches_intros, (simp add: cases_EngineState_def createBaseEngineState_def writable_EngineState_def enum_ok_defs)+),
     auto simp: cases_EngineState_def intro: ends_kinds)

section \<open>AudioTap\<close>

definition createBaseAudioTap :: audio_tap where
  "createBaseAudioTap =
     \<lparr>tap_firstSeq = js_int 0, tap_blockCount = js_int 0, tap_samples = [], tap_droppedBlocks = js_int 0\<rparr>"

definition encode_AudioTap :: "wire \<Rightarrow> audio_tap \<Rightarrow> bytes js_result" where
  "encode_AudioTap w m = put_all
     [put_num w (wr_uint64 w) 8 (tap_firstSeq m), put_num w (wr_uint32 w) 16 (tap_blockCount m),
      put_bytes w 26 (tap_samples m), put_num w (wr_uint64 w) 32 (tap_droppedBlocks m)]"

definition cases_AudioTap :: "wire \<Rightarrow> audio_tap field_case list" where
  "cases_AudioTap w =
     [(8, get_long (rd_uint64 w) (\<lambda>v m. m\<lparr>tap_firstSeq := v\<rparr>)),
      (16, get_uint32 w (\<lambda>v m. m\<lparr>tap_blockCount := v\<rparr>)),
      (26, get (rd_bytes w) (\<lambda>v m. m\<lparr>tap_samples := v\<rparr>)),
      (32, get_long (rd_uint64 w) (\<lambda>v m. m\<lparr>tap_droppedBlocks := v\<rparr>))]"

definition decode_AudioTap :: "wire \<Rightarrow> nat \<Rightarrow> nat option \<Rightarrow> bytes \<Rightarrow> audio_tap reading" where
  "decode_AudioTap w = decode_with w (cases_AudioTap w) createBaseAudioTap"

definition writable_AudioTap :: "wire \<Rightarrow> audio_tap \<Rightarrow> bool" where
  "writable_AudioTap w m \<longleftrightarrow> whole 0 MAX_SAFE_INTEGER (tap_firstSeq m) \<and>
     whole 0 (2 ^ 32 - 1) (tap_blockCount m) \<and>
     length (tap_samples m) < 2 ^ 32 \<and>
     whole 0 MAX_SAFE_INTEGER (tap_droppedBlocks m)"

interpretation pb_audio_tap: message encode_AudioTap decode_AudioTap writable_AudioTap 100
  by (rule messageI [OF encode_AudioTap_def fun_cong [OF decode_AudioTap_def]])
    ((intro reaches_intros, (simp add: cases_AudioTap_def createBaseAudioTap_def writable_AudioTap_def enum_ok_defs)+),
     auto simp: cases_AudioTap_def intro: ends_kinds)

section \<open>RenderRequest\<close>

definition createBaseRenderRequest :: render_request where
  "createBaseRenderRequest =
     \<lparr>rr_bitDepth = js_int 0\<rparr>"

definition encode_RenderRequest :: "wire \<Rightarrow> render_request \<Rightarrow> bytes js_result" where
  "encode_RenderRequest w m = put_all
     [put_num w (wr_uint32 w) 8 (rr_bitDepth m)]"

definition cases_RenderRequest :: "wire \<Rightarrow> render_request field_case list" where
  "cases_RenderRequest w =
     [(8, get_uint32 w (\<lambda>v m. m\<lparr>rr_bitDepth := v\<rparr>))]"

definition decode_RenderRequest :: "wire \<Rightarrow> nat \<Rightarrow> nat option \<Rightarrow> bytes \<Rightarrow> render_request reading" where
  "decode_RenderRequest w = decode_with w (cases_RenderRequest w) createBaseRenderRequest"

definition writable_RenderRequest :: "wire \<Rightarrow> render_request \<Rightarrow> bool" where
  "writable_RenderRequest w m \<longleftrightarrow> whole 0 (2 ^ 32 - 1) (rr_bitDepth m)"

interpretation pb_render_request: message encode_RenderRequest decode_RenderRequest writable_RenderRequest 100
  by (rule messageI [OF encode_RenderRequest_def fun_cong [OF decode_RenderRequest_def]])
    ((intro reaches_intros, (simp add: cases_RenderRequest_def createBaseRenderRequest_def writable_RenderRequest_def enum_ok_defs)+),
     auto simp: cases_RenderRequest_def intro: ends_kinds)

section \<open>RenderState\<close>

definition createBaseRenderState :: render_state where
  "createBaseRenderState =
     \<lparr>rs_status = status_of 0, rs_wavHash = [], rs_error = [], rs_lengthSamples = js_int 0,
      rs_sampleRate = js_int 0, rs_bitDepth = js_int 0\<rparr>"

definition encode_RenderState :: "wire \<Rightarrow> render_state \<Rightarrow> bytes js_result" where
  "encode_RenderState w m = put_all
     [put_num w (wr_int32 w) 8 (js_int (status_number (rs_status m))), put_string w 18 (rs_wavHash m),
      put_string w 26 (rs_error m), put_num w (wr_uint64 w) 32 (rs_lengthSamples m),
      put_num w (wr_uint32 w) 40 (rs_sampleRate m), put_num w (wr_uint32 w) 48 (rs_bitDepth m)]"

definition cases_RenderState :: "wire \<Rightarrow> render_state field_case list" where
  "cases_RenderState w =
     [(8, get (rd_int32 w) (\<lambda>v m. m\<lparr>rs_status := status_of v\<rparr>)),
      (18, get (rd_string w) (\<lambda>v m. m\<lparr>rs_wavHash := v\<rparr>)),
      (26, get (rd_string w) (\<lambda>v m. m\<lparr>rs_error := v\<rparr>)),
      (32, get_long (rd_uint64 w) (\<lambda>v m. m\<lparr>rs_lengthSamples := v\<rparr>)),
      (40, get_uint32 w (\<lambda>v m. m\<lparr>rs_sampleRate := v\<rparr>)),
      (48, get_uint32 w (\<lambda>v m. m\<lparr>rs_bitDepth := v\<rparr>))]"

definition decode_RenderState :: "wire \<Rightarrow> nat \<Rightarrow> nat option \<Rightarrow> bytes \<Rightarrow> render_state reading" where
  "decode_RenderState w = decode_with w (cases_RenderState w) createBaseRenderState"

definition writable_RenderState :: "wire \<Rightarrow> render_state \<Rightarrow> bool" where
  "writable_RenderState w m \<longleftrightarrow> status_ok (rs_status m) \<and>
     length (rs_wavHash m) < 2 ^ 31 \<and>
     length (rs_error m) < 2 ^ 31 \<and>
     whole 0 MAX_SAFE_INTEGER (rs_lengthSamples m) \<and>
     whole 0 (2 ^ 32 - 1) (rs_sampleRate m) \<and>
     whole 0 (2 ^ 32 - 1) (rs_bitDepth m)"

interpretation pb_render_state: message encode_RenderState decode_RenderState writable_RenderState 100
  by (rule messageI [OF encode_RenderState_def fun_cong [OF decode_RenderState_def]])
    ((intro reaches_intros, (simp add: cases_RenderState_def createBaseRenderState_def writable_RenderState_def enum_ok_defs)+),
     auto simp: cases_RenderState_def intro: ends_kinds)

section \<open>SwitchProject\<close>

definition createBaseSwitchProject :: switch_project where
  "createBaseSwitchProject =
     \<lparr>sp_projectId = []\<rparr>"

definition encode_SwitchProject :: "wire \<Rightarrow> switch_project \<Rightarrow> bytes js_result" where
  "encode_SwitchProject w m = put_all
     [put_string w 10 (sp_projectId m)]"

definition cases_SwitchProject :: "wire \<Rightarrow> switch_project field_case list" where
  "cases_SwitchProject w =
     [(10, get (rd_string w) (\<lambda>v m. m\<lparr>sp_projectId := v\<rparr>))]"

definition decode_SwitchProject :: "wire \<Rightarrow> nat \<Rightarrow> nat option \<Rightarrow> bytes \<Rightarrow> switch_project reading" where
  "decode_SwitchProject w = decode_with w (cases_SwitchProject w) createBaseSwitchProject"

definition writable_SwitchProject :: "wire \<Rightarrow> switch_project \<Rightarrow> bool" where
  "writable_SwitchProject w m \<longleftrightarrow> length (sp_projectId m) < 2 ^ 31"

interpretation pb_switch_project: message encode_SwitchProject decode_SwitchProject writable_SwitchProject 100
  by (rule messageI [OF encode_SwitchProject_def fun_cong [OF decode_SwitchProject_def]])
    ((intro reaches_intros, (simp add: cases_SwitchProject_def createBaseSwitchProject_def writable_SwitchProject_def enum_ok_defs)+),
     auto simp: cases_SwitchProject_def intro: ends_kinds)

section \<open>PluginEntry\<close>

definition createBasePluginEntry :: plugin_entry where
  "createBasePluginEntry =
     \<lparr>pe_uid = [], pe_name = [], pe_vendor = [], pe_subCategories = []\<rparr>"

definition encode_PluginEntry :: "wire \<Rightarrow> plugin_entry \<Rightarrow> bytes js_result" where
  "encode_PluginEntry w m = put_all
     [put_string w 10 (pe_uid m), put_string w 18 (pe_name m), put_string w 26 (pe_vendor m),
      put_string w 34 (pe_subCategories m)]"

definition cases_PluginEntry :: "wire \<Rightarrow> plugin_entry field_case list" where
  "cases_PluginEntry w =
     [(10, get (rd_string w) (\<lambda>v m. m\<lparr>pe_uid := v\<rparr>)),
      (18, get (rd_string w) (\<lambda>v m. m\<lparr>pe_name := v\<rparr>)),
      (26, get (rd_string w) (\<lambda>v m. m\<lparr>pe_vendor := v\<rparr>)),
      (34, get (rd_string w) (\<lambda>v m. m\<lparr>pe_subCategories := v\<rparr>))]"

definition decode_PluginEntry :: "wire \<Rightarrow> nat \<Rightarrow> nat option \<Rightarrow> bytes \<Rightarrow> plugin_entry reading" where
  "decode_PluginEntry w = decode_with w (cases_PluginEntry w) createBasePluginEntry"

definition writable_PluginEntry :: "wire \<Rightarrow> plugin_entry \<Rightarrow> bool" where
  "writable_PluginEntry w m \<longleftrightarrow> length (pe_uid m) < 2 ^ 31 \<and>
     length (pe_name m) < 2 ^ 31 \<and>
     length (pe_vendor m) < 2 ^ 31 \<and>
     length (pe_subCategories m) < 2 ^ 31"

interpretation pb_plugin_entry: message encode_PluginEntry decode_PluginEntry writable_PluginEntry 100
  by (rule messageI [OF encode_PluginEntry_def fun_cong [OF decode_PluginEntry_def]])
    ((intro reaches_intros, (simp add: cases_PluginEntry_def createBasePluginEntry_def writable_PluginEntry_def enum_ok_defs)+),
     auto simp: cases_PluginEntry_def intro: ends_kinds)

section \<open>PluginCatalog\<close>

definition createBasePluginCatalog :: plugin_catalog where
  "createBasePluginCatalog =
     \<lparr>pc_entries = []\<rparr>"

definition encode_PluginCatalog :: "wire \<Rightarrow> plugin_catalog \<Rightarrow> bytes js_result" where
  "encode_PluginCatalog w m = put_all
     [put_each w 10 (encode_PluginEntry w) (pc_entries m)]"

definition cases_PluginCatalog :: "wire \<Rightarrow> nat \<Rightarrow> plugin_catalog field_case list" where
  "cases_PluginCatalog w depth =
     [(10, get_sub w (decode_PluginEntry w (Suc depth)) (\<lambda>v m. m\<lparr>pc_entries := pc_entries m @ [v]\<rparr>))]"

definition decode_PluginCatalog :: "wire \<Rightarrow> nat \<Rightarrow> nat option \<Rightarrow> bytes \<Rightarrow> plugin_catalog reading" where
  "decode_PluginCatalog w depth = decode_with w (cases_PluginCatalog w depth) createBasePluginCatalog depth"

definition writable_PluginCatalog :: "wire \<Rightarrow> plugin_catalog \<Rightarrow> bool" where
  "writable_PluginCatalog w m \<longleftrightarrow> (\<forall>x\<in>set (pc_entries m). held encode_PluginEntry writable_PluginEntry w x)"

lemma pc_entries_empty: "createBasePluginCatalog = createBasePluginCatalog\<lparr>pc_entries := []\<rparr>"
  by (simp add: createBasePluginCatalog_def)

interpretation pb_plugin_catalog: message encode_PluginCatalog decode_PluginCatalog writable_PluginCatalog 99
  by (rule messageI [OF encode_PluginCatalog_def decode_PluginCatalog_def], subst pc_entries_empty,
      rule pb_plugin_entry.reaches_each [where put = "\<lambda>xs. createBasePluginCatalog\<lparr>pc_entries := xs\<rparr>"])
    ((intro reaches_intros | simp add: cases_PluginCatalog_def createBasePluginCatalog_def writable_PluginCatalog_def)+,
     auto simp: cases_PluginCatalog_def intro: ends_kinds pb_plugin_entry.get_ends)

section \<open>Error\<close>

definition createBaseError :: engine_error where
  "createBaseError =
     \<lparr>ee_severity = severity_of 0, ee_code = [], ee_message = []\<rparr>"

definition encode_Error :: "wire \<Rightarrow> engine_error \<Rightarrow> bytes js_result" where
  "encode_Error w m = put_all
     [put_num w (wr_int32 w) 8 (js_int (severity_number (ee_severity m))), put_string w 18 (ee_code m),
      put_string w 26 (ee_message m)]"

definition cases_Error :: "wire \<Rightarrow> engine_error field_case list" where
  "cases_Error w =
     [(8, get (rd_int32 w) (\<lambda>v m. m\<lparr>ee_severity := severity_of v\<rparr>)),
      (18, get (rd_string w) (\<lambda>v m. m\<lparr>ee_code := v\<rparr>)),
      (26, get (rd_string w) (\<lambda>v m. m\<lparr>ee_message := v\<rparr>))]"

definition decode_Error :: "wire \<Rightarrow> nat \<Rightarrow> nat option \<Rightarrow> bytes \<Rightarrow> engine_error reading" where
  "decode_Error w = decode_with w (cases_Error w) createBaseError"

definition writable_Error :: "wire \<Rightarrow> engine_error \<Rightarrow> bool" where
  "writable_Error w m \<longleftrightarrow> severity_ok (ee_severity m) \<and>
     length (ee_code m) < 2 ^ 31 \<and>
     length (ee_message m) < 2 ^ 31"

interpretation pb_engine_error: message encode_Error decode_Error writable_Error 100
  by (rule messageI [OF encode_Error_def fun_cong [OF decode_Error_def]])
    ((intro reaches_intros, (simp add: cases_Error_def createBaseError_def writable_Error_def enum_ok_defs)+),
     auto simp: cases_Error_def intro: ends_kinds)

section \<open>Message\<close>

definition encode_Message :: "wire \<Rightarrow> proto_message \<Rightarrow> bytes js_result" where
  "encode_Message w m = put_all
     [put_opt w 10 (encode_TransportCommand w) (m_transport m),
      put_opt w 18 (encode_SetMonitor w) (m_setMonitor m), put_opt w 58 (encode_TapControl w) (m_tapControl m),
      put_opt w 82 (encode_EditorControl w) (m_editor m),
      put_opt w 90 (encode_SessionLaunch w) (m_sessionLaunch m),
      put_opt w 106 (encode_RenderRequest w) (m_renderRequest m),
      put_opt w 122 (encode_SwitchProject w) (m_switchProject m),
      put_opt w 26 (encode_TransportPosition w) (m_position m), put_opt w 34 (encode_Meters w) (m_meters m),
      put_opt w 42 (encode_EngineState w) (m_engineState m), put_opt w 50 (encode_Error w) (m_error m),
      put_opt w 66 (encode_AudioTap w) (m_audioTap m),
      put_opt w 74 (encode_PluginCatalog w) (m_pluginCatalog m),
      put_opt w 98 (encode_SessionState w) (m_sessionState m),
      put_opt w 114 (encode_RenderState w) (m_renderState m)]"

definition cases_Message :: "wire \<Rightarrow> nat \<Rightarrow> proto_message field_case list" where
  "cases_Message w depth =
     [(10, get_opt w (decode_TransportCommand w (Suc depth)) (\<lambda>v m. m\<lparr>m_transport := v\<rparr>)),
      (18, get_opt w (decode_SetMonitor w (Suc depth)) (\<lambda>v m. m\<lparr>m_setMonitor := v\<rparr>)),
      (58, get_opt w (decode_TapControl w (Suc depth)) (\<lambda>v m. m\<lparr>m_tapControl := v\<rparr>)),
      (82, get_opt w (decode_EditorControl w (Suc depth)) (\<lambda>v m. m\<lparr>m_editor := v\<rparr>)),
      (90, get_opt w (decode_SessionLaunch w (Suc depth)) (\<lambda>v m. m\<lparr>m_sessionLaunch := v\<rparr>)),
      (106, get_opt w (decode_RenderRequest w (Suc depth)) (\<lambda>v m. m\<lparr>m_renderRequest := v\<rparr>)),
      (122, get_opt w (decode_SwitchProject w (Suc depth)) (\<lambda>v m. m\<lparr>m_switchProject := v\<rparr>)),
      (26, get_opt w (decode_TransportPosition w (Suc depth)) (\<lambda>v m. m\<lparr>m_position := v\<rparr>)),
      (34, get_opt w (decode_Meters w (Suc depth)) (\<lambda>v m. m\<lparr>m_meters := v\<rparr>)),
      (42, get_opt w (decode_EngineState w (Suc depth)) (\<lambda>v m. m\<lparr>m_engineState := v\<rparr>)),
      (50, get_opt w (decode_Error w (Suc depth)) (\<lambda>v m. m\<lparr>m_error := v\<rparr>)),
      (66, get_opt w (decode_AudioTap w (Suc depth)) (\<lambda>v m. m\<lparr>m_audioTap := v\<rparr>)),
      (74, get_opt w (decode_PluginCatalog w (Suc depth)) (\<lambda>v m. m\<lparr>m_pluginCatalog := v\<rparr>)),
      (98, get_opt w (decode_SessionState w (Suc depth)) (\<lambda>v m. m\<lparr>m_sessionState := v\<rparr>)),
      (114, get_opt w (decode_RenderState w (Suc depth)) (\<lambda>v m. m\<lparr>m_renderState := v\<rparr>))]"

definition decode_Message :: "wire \<Rightarrow> nat \<Rightarrow> nat option \<Rightarrow> bytes \<Rightarrow> proto_message reading" where
  "decode_Message w depth = decode_with w (cases_Message w depth) empty_message depth"

definition writable_Message :: "wire \<Rightarrow> proto_message \<Rightarrow> bool" where
  "writable_Message w m \<longleftrightarrow> (\<forall>x\<in>set_option (m_transport m). held encode_TransportCommand writable_TransportCommand w x) \<and>
     (\<forall>x\<in>set_option (m_setMonitor m). held encode_SetMonitor writable_SetMonitor w x) \<and>
     (\<forall>x\<in>set_option (m_tapControl m). held encode_TapControl writable_TapControl w x) \<and>
     (\<forall>x\<in>set_option (m_editor m). held encode_EditorControl writable_EditorControl w x) \<and>
     (\<forall>x\<in>set_option (m_sessionLaunch m). held encode_SessionLaunch writable_SessionLaunch w x) \<and>
     (\<forall>x\<in>set_option (m_renderRequest m). held encode_RenderRequest writable_RenderRequest w x) \<and>
     (\<forall>x\<in>set_option (m_switchProject m). held encode_SwitchProject writable_SwitchProject w x) \<and>
     (\<forall>x\<in>set_option (m_position m). held encode_TransportPosition writable_TransportPosition w x) \<and>
     (\<forall>x\<in>set_option (m_meters m). held encode_Meters writable_Meters w x) \<and>
     (\<forall>x\<in>set_option (m_engineState m). held encode_EngineState writable_EngineState w x) \<and>
     (\<forall>x\<in>set_option (m_error m). held encode_Error writable_Error w x) \<and>
     (\<forall>x\<in>set_option (m_audioTap m). held encode_AudioTap writable_AudioTap w x) \<and>
     (\<forall>x\<in>set_option (m_pluginCatalog m). held encode_PluginCatalog writable_PluginCatalog w x) \<and>
     (\<forall>x\<in>set_option (m_sessionState m). held encode_SessionState writable_SessionState w x) \<and>
     (\<forall>x\<in>set_option (m_renderState m). held encode_RenderState writable_RenderState w x)"

lemmas reaches_submessage =
  pb_transport_command.reaches_opt pb_set_monitor.reaches_opt pb_tap_control.reaches_opt pb_editor_control.reaches_opt pb_session_launch.reaches_opt pb_render_request.reaches_opt pb_switch_project.reaches_opt pb_transport_position.reaches_opt pb_meters.reaches_opt pb_engine_state.reaches_opt pb_engine_error.reaches_opt pb_audio_tap.reaches_opt pb_plugin_catalog.reaches_opt pb_session_state.reaches_opt pb_render_state.reaches_opt

lemmas submessage_ends =
  pb_transport_command.get_ends pb_set_monitor.get_ends pb_tap_control.get_ends pb_editor_control.get_ends pb_session_launch.get_ends pb_render_request.get_ends pb_switch_project.get_ends pb_transport_position.get_ends pb_meters.get_ends pb_engine_state.get_ends pb_engine_error.get_ends pb_audio_tap.get_ends pb_plugin_catalog.get_ends pb_session_state.get_ends pb_render_state.get_ends

interpretation pb_message: message encode_Message decode_Message writable_Message 98
  by (rule messageI [OF encode_Message_def decode_Message_def])
    ((intro reaches_submessage reaches_end | simp add: cases_Message_def empty_message_def writable_Message_def)+,
     auto simp: cases_Message_def intro: submessage_ends)

section \<open>The codec of the engine's frames\<close>

text \<open>What \<open>Message.encode(m).finish()\<close> and \<open>Message.decode(payload)\<close> are for the frames; a message that cannot be
  written has no bytes.\<close>

definition wire_codec :: "wire \<Rightarrow> codec" where
  "wire_codec w =
     \<lparr>pb_encode = (\<lambda>m. case encode_Message w m of Inr bs \<Rightarrow> bs | Inl e \<Rightarrow> []),
      pb_decode = (\<lambda>bs. case decode_Message w 0 None bs of Some (Inr (m, rest)) \<Rightarrow> Some m | _ \<Rightarrow> None)\<rparr>"

definition example_meters :: proto_message where
  "example_meters = empty_message\<lparr>m_meters := Some
     \<lparr>me_tracks = [\<lparr>me_trackId = ''drums'', me_peakLeft = js_int 1, me_peakRight = js_int 0\<rparr>,
        \<lparr>me_trackId = ''bass'', me_peakLeft = js_int (- 3), me_peakRight = js_int 7\<rparr>],
      me_masterPeakLeft = js_int 2, me_masterPeakRight = js_int 0\<rparr>\<rparr>"

lemma example_meters_bytes:
  "encode_Message varint_wire example_meters = Inr
     [34, 25, 10, 9, 10, 5, 100, 114, 117, 109, 115, 21, 2, 10, 10, 10, 4, 98, 97, 115, 115, 21, 5, 29, 14, 21, 4]"
  "map_option (encode_Meters varint_wire) (m_meters example_meters) = Some (Inr
     [10, 9, 10, 5, 100, 114, 117, 109, 115, 21, 2, 10, 10, 10, 4, 98, 97, 115, 115, 21, 5, 29, 14, 21, 4])"
  "map (encode_TrackMeter varint_wire) (me_tracks (the (m_meters example_meters))) =
     [Inr [10, 5, 100, 114, 117, 109, 115, 21, 2], Inr [10, 4, 98, 97, 115, 115, 21, 5, 29, 14]]"
  by code_simp+

lemma example_meters_writable: "writable_Message varint_wire example_meters"
proof -
  have "single varint_wire (Fin 0)" "single varint_wire (Fin 1)" "single varint_wire (Fin 2)"
    "single varint_wire (Fin 7)" "single varint_wire (Fin (- 3))"
    by (simp_all add: single_def varint_wire_def FLOAT32_MAX_def)
  then show ?thesis
    using example_meters_bytes(2,3)
    by (auto simp: writable_Message_def example_meters_def empty_message_def held_def fits_def writable_Meters_def
        writable_TrackMeter_def)
qed

text \<open>C5. A message is read back as it was written: whatever the library that fulfils its documentation, the
  encoder of a message whose numbers are in the range of their fields does not throw, and the
  decoder makes the same message of its bytes, with its nested messages and its arrays in order.\<close>

theorem message_roundtrip:
  assumes "wire_law w" and "writable_Message w m"
  shows "\<exists>bs. encode_Message w m = Inr bs \<and> decode_Message w 0 None bs = Some (Inr (m, []))"
  using pb_message.read_back [OF assms, of 0] by (auto simp: decodes_def)

theorem message_roundtrip_witness:
  "decode_Message varint_wire 0 None
     [34, 25, 10, 9, 10, 5, 100, 114, 117, 109, 115, 21, 2, 10, 10, 10, 4, 98, 97, 115, 115, 21, 5, 29, 14, 21, 4] =
   Some (Inr (example_meters, []))"
  using message_roundtrip [OF varint_wire_law example_meters_writable] by (simp add: example_meters_bytes)

text \<open>C27. No bytes from the network hang the client: the decoder of messages returns or throws on every byte string,
  truncated and hostile ones included, as long as the reads of the library move forward.\<close>

theorem decode_Message_ends:
  assumes "consuming w"
  shows "\<exists>r. decode_Message w depth len bs = Some r"
  using pb_message.decoder_ends [OF assms, of depth len bs] by (auto simp: ends_def)

theorem decode_Message_ends_witness: "\<exists>r. decode_Message varint_wire 0 None [34, 200, 1, 10, 9, 255] = Some r"
  by (rule decode_Message_ends [OF consuming_varint_wire])

lemma encode_not_empty:
  assumes "wire_law w" and "writable_Message w m" and "message_type m \<noteq> None"
  shows "encode_Message w m \<noteq> Inr []"
proof
  assume e: "encode_Message w m = Inr []"
  have "decode_Message w 0 None [] = Some (Inr (empty_message, []))"
    using read_fields_end [where bs = "[]"] by (simp add: decode_Message_def decode_with_def)
  moreover have "decode_Message w 0 None [] = Some (Inr (m, []))"
    using pb_message.read_back [OF assms(1,2), of 0] e by (auto simp: decodes_def)
  ultimately have "m = empty_message" by simp
  with assms(3) show False by (simp add: message_type_def empty_message_def)
qed

text \<open>C28. What the engine says is understood: the frame of a message that the client knows, with its numbers in
  range and less than 4 GiB long, is decoded to the first known content of the message.\<close>

theorem engine_frame_understood:
  assumes "wire_law w" and "writable_Message w m" and "message_type m = Some d"
    and "encode_Message w m = Inr bs" and "length bs < 2 ^ 32"
  shows "decodeMessage (wire_codec w) (length_prefixed bs) = Some d"
proof -
  have "bs \<noteq> []" using encode_not_empty [OF assms(1,2)] assms(3,4) by auto
  moreover have "decode_Message w 0 None bs = Some (Inr (m, []))"
    using pb_message.read_back [OF assms(1,2), of 0] assms(4) by (auto simp: decodes_def)
  ultimately show ?thesis
    using length_prefixed_parts [OF assms(5)] assms(3)
    by (auto simp: decodeMessage_def wire_codec_def Suc_le_eq)
qed

theorem engine_frame_understood_witness:
  "decodeMessage (wire_codec varint_wire) (length_prefixed
     [34, 25, 10, 9, 10, 5, 100, 114, 117, 109, 115, 21, 2, 10, 10, 10, 4, 98, 97, 115, 115, 21, 5, 29, 14, 21, 4]) =
   map_option DMeters (m_meters example_meters)"
  using engine_frame_understood [OF varint_wire_law example_meters_writable _ example_meters_bytes(1)]
  by (simp add: example_meters_def empty_message_def message_type_def)

end
