(* ===== verification/Spec2Isabelle.thy ===== *)
theory Spec2Isabelle
  imports Tempo Ids Schema Geometry Automation Validate Undo Focus Mutators Project Reversal Soundness Session
    Transport_Sync Base64 Socket Server_Client Server_Run
    Protocol Engine_Client Engine_Run Exchange Playback Clip_Selection Reorder
    Navigation Coalesced Gestures Piano_Roll Wav Placement Jam Wire Varint Messages
begin

text \<open>
  The web client of a collaborative digital audio workstation (\<open>src/web/src\<close>): several tabs edit one
  project document, each through its own replica, and each drives its own audio engine. This library
  is a shallow embedding of the client's logic. Every handler, mutator and pure function named below
  is a definition that computes; what surrounds it (browser, network, libraries) is an argument or a
  step.

  The parts and how they interact:
    \<^item> A user's gesture runs a \<^emph>\<open>mutator\<close> of the class \<open>Project\<close>, which changes the Automerge document,
      queues the encoded change and records an inverse in the \<^emph>\<open>undo journal\<close>.
    \<^item> The queue leaves through the \<^emph>\<open>server client\<close>, which keeps it in order over reconnections and a copy of
      it in the local storage; what the server relays comes back to the project (\<^emph>\<open>exchange\<close>).
    \<^item> Over the same socket the tabs relay signals: the \<^emph>\<open>session clock\<close>, the \<^emph>\<open>transport anchors\<close>, the
      \<^emph>\<open>presence\<close> and the \<^emph>\<open>jam\<close>.
    \<^item> The \<^emph>\<open>engine client\<close> speaks to the tab's engine in frames of protobuf messages.

  The theories, in the order of the code, with the files under \<open>src/web/src\<close> they model:
    \<^item> \<open>Prelude\<close>: JavaScript numbers, results that may throw, array operations, collections of hints.
    \<^item> \<open>Tempo\<close> (\<open>document/tempo.ts\<close>): ticks and samples. The functions as written refine an integer
      kernel; the kernel is monotone, its error is below one sample, and ticks survive the trip.
    \<^item> \<open>Ids\<close> (\<open>document/ids.ts\<close>), \<open>Schema\<close> (\<open>document/schema.ts\<close>), \<open>Geometry\<close>, \<open>Automation\<close>, \<open>Validate\<close>
      (\<open>sanitize.ts\<close>, \<open>validate.ts\<close>): the data and its pure functions. The display order is the one
      permutation sorted by the key; the fault list is empty exactly on well-formed documents.
    \<^item> \<open>Undo\<close> (\<open>document/undo.ts\<close>): the journal with its stacks and its group. Its invariant holds after
      every operation; a gesture is one entry.
    \<^item> \<open>Focus\<close>, \<open>Mutators\<close>, \<open>Project\<close> (\<open>document/project.ts\<close>): how a mutator reaches its target, every
      mutator with the inverse it captures, and the class. \<open>Reversal\<close> states which operations come back
      without a trace and proves that undo and redo of any sequence of them are exact.
    \<^item> \<open>Session\<close> (\<open>network/session_clock.ts\<close>, \<open>presence.ts\<close>), \<open>Transport_Sync\<close> (\<open>transport_sync.ts\<close>): the
      error of a clock estimate, the order on anchors, and when the engine is driven.
    \<^item> \<open>Base64\<close>, \<open>Socket\<close>, \<open>Server_Client\<close>, \<open>Server_Run\<close> (\<open>network/server_client.ts\<close>): the handlers, then the
      life of a connection as a step relation: nothing is lost or reordered, and every reachable
      state finds its way back to an open socket.
    \<^item> \<open>Wire\<close>, \<open>Varint\<close>, \<open>Messages\<close> (\<open>proto/messages.ts\<close>), \<open>Protocol\<close> (\<open>network/protocol.ts\<close>), \<open>Engine_Client\<close>,
      \<open>Engine_Run\<close> (\<open>network/engine_client.ts\<close>): the encoders and decoders, the frames, and the
      connection to the engine.
    \<^item> \<open>Exchange\<close> (\<open>app/wiring.ts\<close>, \<open>app/context.ts\<close>): documents and changes between the project and the
      server; replicas converge and resynchronisations end.
    \<^item> \<open>Playback\<close> (\<open>app/transport.ts\<close>, \<open>app/loop_region.ts\<close>, \<open>app/wiring.ts\<close>), \<open>Clip_Selection\<close>
      (\<open>app/clip_selection.ts\<close>), \<open>Reorder\<close> (\<open>app/track_reorder.ts\<close>, \<open>device_reorder.ts\<close>,
      \<open>slot_reorder.ts\<close>), \<open>Navigation\<close> (\<open>app/navigation.ts\<close>), \<open>Gestures\<close> (\<open>app/gestures.ts\<close>), over
      \<open>Coalesced\<close>, the theory of drags that write on every frame: a gesture is one undo.
    \<^item> \<open>Jam\<close> (\<open>network/jam.ts\<close>): the peer connections of the jam as a step relation.

  The interfaces are locales, each interpreted on the definitions of the model: \<open>focus\<close> and \<open>child\<close> (a
  read after a write, in \<open>Focus\<close>), \<open>undo_contract\<close> (\<open>Reversal\<close>), \<open>expiring_table\<close> (\<open>Session\<close>), the
  reconnecting client (\<open>Socket\<close>), \<open>message\<close> (\<open>Wire\<close>) and the coalesced write (\<open>Coalesced\<close>).

  What the model assumes, always as an argument or a named hypothesis:
    \<^item> A number is an exact rational, an infinity or not a number; the rounding of doubles and the
      negative zero are left out. The tempo kernel of the source computes on \<open>BigInt\<close>, which is exact.
    \<^item> A string is a list of code units below 256.
    \<^item> Automerge is a record of functions; \<open>change_law\<close> and the laws of \<open>Exchange\<close> state what its
      documentation promises. The protobuf library is a record of functions with \<open>wire_law\<close> and
      \<open>consuming\<close>; \<open>Varint\<close> shows that they can hold.
    \<^item> Random bytes, \<open>performance.now\<close>, identifiers, sockets, timers, the local storage and WebRTC are
      arguments of handlers or steps of the step relations. Another tab does not write under this
      tab's storage key.
    \<^item> The copy \<open>plain()\<close> of a captured object is the identity. The keys of the undo targets are the parts of
      the joined string. The notification that \<open>replay\<close> emits and console output are left out.
    \<^item> No fuel is used: loops recurse over their data, and the loop of a decoder, which may not end on a
      library that does not consume, is a partial function whose \<open>None\<close> is not returning.

  Not modelled: the construction of the page and its menus (\<open>ui/\<close>, \<open>app/render.ts\<close> and its kin), the Web
  Audio graph (\<open>network/jam_audio.ts\<close>), the intake of audio files (\<open>app/placement.ts\<close>), banners and
  downloads, the tools under \<open>scripts/\<close>, and the JSON forms of the messages, which the program does not
  call. They draw state that is modelled, forward an event to an operation that is modelled, or call
  the browser.
\<close>

end
